(* ===== verification/Prelude.thy ===== *)
theory Prelude
  imports Main "HOL-Library.Word" "HOL-Library.While_Combinator"
begin

unbundle bit_operations_syntax

text \<open>
  Shared vocabulary of the SaxonOS development: the fixed-width integer types of
  \<^verbatim>\<open>include/types.h\<close>, the outcome of a kernel routine (a C function of the kernel returns,
  panics, performs an illegal access, or never returns), sequencing of outcomes, the
  \<^verbatim>\<open>CEILING_DIV\<close> macro, and the generic lemmas on words that the components share.
\<close>

section \<open>Integer types\<close>

type_synonym u8 = "8 word"
type_synonym u16 = "16 word"
type_synonym u32 = "32 word"

section \<open>Outcomes of kernel routines\<close>

text \<open>
  \<open>Done a s\<close>: the routine returns \<open>a\<close> in state \<open>s\<close>.
  \<open>Panicked msg s\<close>: \<^verbatim>\<open>kpanic(msg)\<close> was reached; the machine stops in state \<open>s\<close>.
  \<open>Faulted s\<close>: the routine accessed a C array out of its bounds or dereferenced \<^verbatim>\<open>NULL\<close>.
  \<open>Halted s\<close>: the routine reached an endless empty loop \<^verbatim>\<open>for(;;);\<close> in state \<open>s\<close>.
  \<open>Diverged\<close>: a loop of the routine never ends.
\<close>

datatype ('s, 'a) outcome =
    Done 'a 's
  | Panicked string 's
  | Faulted 's
  | Halted 's
  | Diverged

fun obind :: "('s, 'a) outcome \<Rightarrow> ('a \<Rightarrow> 's \<Rightarrow> ('s, 'b) outcome) \<Rightarrow> ('s, 'b) outcome" where
  "obind (Done a s) f = f a s"
| "obind (Panicked msg s) f = Panicked msg s"
| "obind (Faulted s) f = Faulted s"
| "obind (Halted s) f = Halted s"
| "obind Diverged f = Diverged"

lemma obind_Done_iff:
  "obind r f = Done b t \<longleftrightarrow> (\<exists>a s. r = Done a s \<and> f a s = Done b t)"
  by (cases r) auto

lemma obind_assoc: "obind (obind r f) g = obind r (\<lambda>a s. obind (f a s) g)"
  by (cases r) auto

lemma obind_return [simp]: "obind r Done = r"
  by (cases r) auto

text \<open>A C loop that calls an allocator a fixed number of times, collecting the results.\<close>

fun repeat_alloc :: "('s \<Rightarrow> ('s, 'a) outcome) \<Rightarrow> nat \<Rightarrow> 's \<Rightarrow> ('s, 'a list) outcome" where
  "repeat_alloc f 0 s = Done [] s"
| "repeat_alloc f (Suc n) s =
     obind (f s) (\<lambda>a s. obind (repeat_alloc f n s) (\<lambda>as s. Done (a # as) s))"

section \<open>Rule collections\<close>

named_theorems word_nat "unsigned value of word expressions"
named_theorems layout "reads of a memory cell after a write to a disjoint one"

section \<open>Words\<close>

lemma unat_Suc_less [word_nat]:
  fixes i n :: "'a::len word"
  assumes "i < n"
  shows "unat (i + 1) = Suc (unat i)"
  using assms by unat_arith

lemma unat_pred_word [word_nat]:
  fixes n :: "'a::len word"
  assumes "n \<noteq> 0"
  shows "unat (n - 1) = unat n - 1"
  using assms by (simp add: unat_minus_one)

lemma unat_pred_less:
  fixes n :: "'a::len word"
  assumes "n \<noteq> 0"
  shows "unat (n - 1) < unat n"
  using assms by (simp add: measure_unat)

lemma unat_u32_less: "unat (x :: u32) < 2 ^ 32"
  using unsigned_less [of x, where 'a = nat] by simp

lemma unat_u32_max: "unat (- 1 :: u32) = 2 ^ 32 - 1"
  by (simp add: unsigned_minus_1_eq_mask mask_eq_exp_minus_1)

lemma unat_drop_bit_div [word_nat]: "unat (drop_bit n (w :: 'a::len word)) = unat w div 2 ^ n"
  by (rule trans [OF unat_drop_bit_eq drop_bit_eq_div])

lemma unat_take_bit_mod [word_nat]: "unat (take_bit n (w :: 'a::len word)) = unat w mod 2 ^ n"
  by (simp only: unsigned_take_bit_eq) (simp add: take_bit_eq_mod unsigned_take_bit_eq)

lemma unat_ucast_mod [word_nat]:
  "unat (ucast (w :: 'a::len word) :: 'b::len word) = unat w mod 2 ^ LENGTH('b)"
  by (simp add: unsigned_ucast_eq take_bit_eq_mod)

lemma nat_bytes_sum:
  "n = 256 * a + (r0::nat) \<Longrightarrow> a = 256 * b + r1 \<Longrightarrow> b = 256 * c + r2 \<Longrightarrow>
    16777216 * c + 65536 * r2 + 256 * r1 + r0 = n"
  by simp

lemma nat_bytes:
  "16777216 * (n div 16777216) + 65536 * (n div 65536 mod 256) + 256 * (n div 256 mod 256) +
     n mod 256 = (n :: nat)"
proof (rule nat_bytes_sum)
  show "n = 256 * (n div 256) + n mod 256" by (rule mult_div_mod_eq [symmetric])
  have "n div 65536 = n div 256 div 256" using div_mult2_eq [of n 256 256] by simp
  then show "n div 256 = 256 * (n div 65536) + n div 256 mod 256" by (metis mult_div_mod_eq)
  have "n div 16777216 = n div 65536 div 256" using div_mult2_eq [of n 65536 256] by simp
  then show "n div 65536 = 256 * (n div 16777216) + n div 65536 mod 256" by (metis mult_div_mod_eq)
qed

text \<open>Numbers split into a slot of 32 and a position in it.\<close>

lemma slot_add:
  assumes "(i::nat) mod 32 + n < 32"
  shows "(i + n) div 32 = i div 32" and "(i + n) mod 32 = i mod 32 + n" and
    "i < 32 * m \<Longrightarrow> i + n < 32 * m"
proof -
  have eq: "i + n = (i mod 32 + n) + 32 * (i div 32)" by simp
  have "(i + n) div 32 = (i mod 32 + n) div 32 + i div 32" 
    using eq by (metis div_mult_self2 add.commute zero_neq_numeral)
  then show d: "(i + n) div 32 = i div 32" using assms by simp
  show r: "(i + n) mod 32 = i mod 32 + n" using eq assms by (metis mod_less mod_mult_self2)
  assume "i < 32 * m"
  then have "i div 32 < m" by (simp add: less_mult_imp_div_less mult.commute)
  then show "i + n < 32 * m" using d by (metis div_less_iff_less_mult mult.commute zero_less_numeral)
qed

lemma slot_le: "(8 * (n - 4 * ((i::nat) div 32)) \<le> i mod 32) = (8 * n \<le> i)"
proof -
  define q r where "q = i div 32" and "r = i mod 32"
  have "i = 32 * q + r" by (simp add: q_def r_def)
  then show ?thesis unfolding q_def [symmetric] r_def [symmetric] by linarith
qed

lemma same_slot_less: "(j::nat) div 32 = i div 32 \<Longrightarrow> i < 32 * m \<Longrightarrow> j < 32 * m"
  by (metis div_less_iff_less_mult mult.commute zero_less_numeral)

lemma ucast_up_down [simp]:
  "ucast (ucast (x :: u8) :: u32) = x" "ucast (ucast (y :: u16) :: u32) = y" "ucast (ucast (x :: u8) :: u16) = x"
  by (rule bit_word_eqI; auto simp: bit_simps)+

lemma low_half: "(w :: u32) AND 0xFFFF = take_bit 16 w"
  by (simp add: take_bit_eq_mask mask_eq_exp_minus_1)

lemma bit_word_odd: "bit w n \<longleftrightarrow> odd (unat (w :: 'a::len word) div 2 ^ n)"
proof -
  have "bit (unat w) n = bit w n" by (simp add: bit_unsigned_iff)
  then show ?thesis by (simp add: bit_iff_odd)
qed

text \<open>Masking with a constant before a shift that drops every masked bit changes nothing.\<close>

lemma drop_bit_and_high:
  fixes w :: "'a::len word"
  assumes "drop_bit n h = mask (LENGTH('a) - n)"
  shows "drop_bit n (w AND h) = drop_bit n w"
proof -
  have "drop_bit n (w AND h) = take_bit (LENGTH('a) - n) (drop_bit n w)"
    by (simp add: assms take_bit_eq_mask)
  also have "\<dots> = drop_bit n w"
    by (rule bit_word_eqI) (auto simp: bit_simps dest: bit_imp_le_length)
  finally show ?thesis .
qed

section \<open>The macro \<^verbatim>\<open>CEILING_DIV\<close>\<close>

definition CEILING_DIV :: "u32 \<Rightarrow> u32 \<Rightarrow> u32" where
  "CEILING_DIV x y = 1 + ((x - 1) div y)"

section \<open>Tables with numbered entries\<close>

text \<open>
  The kernel fills several fixed-size tables entry by entry: page tables, the interrupt
  descriptor table, the interrupt routines. They share this contract: a store to one entry is
  seen by a read of that entry and by no other. A sequence of stores to distinct entries then
  leaves each entry with the value stored to it, whatever the order.
\<close>

locale entry_table =
  fixes get :: "'m \<Rightarrow> 'i \<Rightarrow> 'e"
    and put :: "'i \<Rightarrow> 'v \<Rightarrow> 'm \<Rightarrow> 'm"
    and enc :: "'v \<Rightarrow> 'e"
    and valid :: "'i \<Rightarrow> bool"
  assumes get_put_same: "valid i \<Longrightarrow> get (put i v m) i = enc v"
    and get_put_other: "valid i \<Longrightarrow> valid j \<Longrightarrow> i \<noteq> j \<Longrightarrow> get (put i v m) j = get m j"
begin

lemma get_put: "valid i \<Longrightarrow> valid j \<Longrightarrow> get (put i v m) j = (if i = j then enc v else get m j)"
  by (simp add: get_put_same get_put_other)

lemma fold_put_get:
  assumes "\<forall>(i, v) \<in> set ivs. valid i" and "distinct (map fst ivs)" and "valid j"
  shows "get (fold (\<lambda>(i, v). put i v) ivs m) j =
    (case map_of ivs j of Some v \<Rightarrow> enc v | None \<Rightarrow> get m j)"
  using assms(1,2)
proof (induction ivs arbitrary: m)
  case Nil
  then show ?case by simp
next
  case (Cons iv ivs)
  obtain i v where iv: "iv = (i, v)" by (cases iv)
  have "map_of ivs i = None" using Cons.prems(2) by (simp add: iv map_of_eq_None_iff)
  with Cons assms(3) show ?case by (auto simp: iv get_put split: option.splits)
qed

end

section \<open>Sequences of calls\<close>

text \<open>
  A client calls the operations of a component one after the other. The contract of a component
  with an invariant: every admissible call that returns keeps the invariant, relates the states
  before and after it by the component's frame, and returns a good result.
\<close>

fun run_calls :: "('c \<Rightarrow> 's \<Rightarrow> ('s, 'r) outcome) \<Rightarrow> 'c list \<Rightarrow> 's \<Rightarrow> ('s, 'r list) outcome" where
  "run_calls f [] s = Done [] s"
| "run_calls f (c # cs) s = obind (f c s) (\<lambda>r s. obind (run_calls f cs s) (\<lambda>rs s. Done (r # rs) s))"

locale guarded_calls =
  fixes call :: "'c \<Rightarrow> 's \<Rightarrow> ('s, 'r) outcome"
    and admissible :: "'c \<Rightarrow> bool"
    and inv :: "'s \<Rightarrow> bool"
    and good :: "'r \<Rightarrow> bool"
    and frame :: "'s \<Rightarrow> 's \<Rightarrow> bool"
  assumes call_safe: "inv s \<Longrightarrow> admissible c \<Longrightarrow> call c s = Done r t \<Longrightarrow> inv t \<and> good r \<and> frame s t"
    and frame_refl: "frame s s"
    and frame_trans: "frame s t \<Longrightarrow> frame t u \<Longrightarrow> frame s u"
begin

lemma run_safe:
  assumes "inv s" and "\<forall>c \<in> set cs. admissible c" and "run_calls call cs s = Done rs t"
  shows "inv t \<and> (\<forall>r \<in> set rs. good r) \<and> frame s t"
  using assms
proof (induction cs arbitrary: s rs)
  case (Cons c cs)
  then obtain r u rs' where "call c s = Done r u" "run_calls call cs u = Done rs' t" "rs = r # rs'"
    by (auto simp: obind_Done_iff)
  then show ?case using Cons.IH [of u rs'] Cons.prems call_safe [of s c r u] by (auto intro: frame_trans)
qed (simp add: frame_refl)

end

end
