(* ===== verification/Machine.thy ===== *)
theory Machine
  imports Prelude
begin

unbundle bit_operations_syntax

text \<open>
  The machine the kernel runs on: byte-addressed memory, the I/O ports with the history of
  port accesses, and the interrupt flag. What a port read returns is decided by the hardware,
  which is not part of the program: it is the parameter \<open>hw\<close>, an arbitrary function of the
  history of port accesses and of the port. The port primitives are those of
  \<^verbatim>\<open>src/common.c\<close>. Multi-byte memory accesses are little-endian, as on the i686.
\<close>

section \<open>Port accesses\<close>

datatype io_event =
    Out8 u16 u8
  | Out16 u16 u16
  | Out32 u16 u32
  | In8 u16 u8
  | In16 u16 u16
  | In32 u16 u32

type_synonym memory = "u32 \<Rightarrow> u8"

text \<open>\<open>io_log\<close> holds the port accesses performed so far, the latest first.\<close>

record machine =
  mem :: memory
  hw :: "io_event list \<Rightarrow> u16 \<Rightarrow> u32"
  io_log :: "io_event list"
  iflag :: bool

definition outb :: "u16 \<Rightarrow> u8 \<Rightarrow> 'a machine_scheme \<Rightarrow> 'a machine_scheme" where
  "outb port v s = s\<lparr>io_log := Out8 port v # io_log s\<rparr>"

definition outw :: "u16 \<Rightarrow> u16 \<Rightarrow> 'a machine_scheme \<Rightarrow> 'a machine_scheme" where
  "outw port v s = s\<lparr>io_log := Out16 port v # io_log s\<rparr>"

definition outl :: "u16 \<Rightarrow> u32 \<Rightarrow> 'a machine_scheme \<Rightarrow> 'a machine_scheme" where
  "outl port v s = s\<lparr>io_log := Out32 port v # io_log s\<rparr>"

definition inb :: "u16 \<Rightarrow> 'a machine_scheme \<Rightarrow> u8 \<times> 'a machine_scheme" where
  "inb port s = (let ret = ucast (hw s (io_log s) port)
                 in (ret, s\<lparr>io_log := In8 port ret # io_log s\<rparr>))"

definition inw :: "u16 \<Rightarrow> 'a machine_scheme \<Rightarrow> u16 \<times> 'a machine_scheme" where
  "inw port s = (let ret = ucast (hw s (io_log s) port)
                 in (ret, s\<lparr>io_log := In16 port ret # io_log s\<rparr>))"

definition inl :: "u16 \<Rightarrow> 'a machine_scheme \<Rightarrow> u32 \<times> 'a machine_scheme" where
  "inl port s = (let ret = hw s (io_log s) port
                 in (ret, s\<lparr>io_log := In32 port ret # io_log s\<rparr>))"

lemmas port_defs = outb_def outw_def outl_def inb_def inw_def inl_def

section \<open>Memory accesses\<close>

definition rd16 :: "memory \<Rightarrow> u32 \<Rightarrow> u16" where
  "rd16 m a = ucast (m a) OR push_bit 8 (ucast (m (a + 1)))"

definition rd32 :: "memory \<Rightarrow> u32 \<Rightarrow> u32" where
  "rd32 m a = ucast (m a) OR push_bit 8 (ucast (m (a + 1)))
     OR push_bit 16 (ucast (m (a + 2))) OR push_bit 24 (ucast (m (a + 3)))"

definition wr32 :: "memory \<Rightarrow> u32 \<Rightarrow> u32 \<Rightarrow> memory" where
  "wr32 m a v = m(a := ucast v, a + 1 := ucast (drop_bit 8 v),
     a + 2 := ucast (drop_bit 16 v), a + 3 := ucast (drop_bit 24 v))"

definition wr16 :: "memory \<Rightarrow> u32 \<Rightarrow> u16 \<Rightarrow> memory" where
  "wr16 m a v = m(a := ucast v, a + 1 := ucast (drop_bit 8 v))"

lemma rd32_bytes:
  "(ucast (ucast v :: u8) :: u32) OR push_bit 8 (ucast (ucast (drop_bit 8 v) :: u8))
     OR push_bit 16 (ucast (ucast (drop_bit 16 v) :: u8))
     OR push_bit 24 (ucast (ucast (drop_bit 24 v) :: u8)) = (v :: u32)"
  (is "?lhs = v")
proof (rule bit_word_eqI)
  fix n :: nat
  assume n: "n < LENGTH(32)"
  have *: "\<not> n < 8 \<Longrightarrow> 8 + (n - 8) = n" "\<not> n < 16 \<Longrightarrow> 16 + (n - 16) = n"
    "\<not> n < 24 \<Longrightarrow> 24 + (n - 24) = n" by auto
  consider "n < 8" | "\<not> n < 8" "n < 16" | "\<not> n < 16" "n < 24" | "\<not> n < 24" by linarith
  then show "bit ?lhs n = bit v n"
    using n * by cases (auto simp: bit_simps)
qed

lemma rd32_wr32_same [simp]: "rd32 (wr32 m a v) a = v"
  unfolding rd32_def wr32_def using rd32_bytes [of v] by simp

text \<open>
  Two four-byte cells are disjoint when each starts at least four bytes after the other,
  distances being taken modulo the address space.
\<close>

definition apart :: "u32 \<Rightarrow> u32 \<Rightarrow> u32 \<Rightarrow> bool" where
  "apart n a b \<longleftrightarrow> n \<le> a - b \<and> n \<le> b - a"

lemma apart_sym: "apart n a b = apart n b a"
  by (auto simp: apart_def)

lemma wr32_other:
  assumes "4 \<le> x - a"
  shows "wr32 m a v x = m x"
proof -
  have "x \<noteq> a" "x \<noteq> a + 1" "x \<noteq> a + 2" "x \<noteq> a + 3"
    using assms by (auto simp: word_le_nat_alt)
  then show ?thesis by (simp add: wr32_def)
qed

lemma rd32_wr32_apart [layout]:
  assumes "apart 4 a b"
  shows "rd32 (wr32 m a v) b = rd32 m b"
proof -
  have "wr32 m a v (b + k) = m (b + k)" if "k < 4" for k
  proof (rule wr32_other)
    have "4 \<le> a - b" "4 \<le> b - a" using assms by (simp_all add: apart_def)
    then show "4 \<le> b + k - a" using that by uint_arith
  qed
  from this [of 0] this [of 1] this [of 2] this [of 3] show ?thesis
    by (simp add: rd32_def)
qed

lemma unat_mult_fits: "unat (a :: u32) * unat b < 2 ^ 32 \<Longrightarrow> unat (a * b) = unat a * unat b"
  by (simp add: unat_word_ariths)

lemma unat_add_fits: "unat (a :: u32) + unat b < 2 ^ 32 \<Longrightarrow> unat (a + b) = unat a + unat b"
  by (simp add: unat_word_ariths)

text \<open>The addresses of a region, and memories that agree outside a set of addresses.\<close>

definition bytes :: "u32 \<Rightarrow> u32 \<Rightarrow> u32 set" where "bytes a n = {x. x - a < n}"

definition only :: "u32 set \<Rightarrow> memory \<Rightarrow> memory \<Rightarrow> bool" where
  "only R m m' \<longleftrightarrow> (\<forall>x. x \<notin> R \<longrightarrow> m' x = m x)"

lemma only_refl [simp]: "only R m m"
  by (simp add: only_def)

lemma only_trans: "only R m m' \<Longrightarrow> only S m' m'' \<Longrightarrow> R \<subseteq> T \<Longrightarrow> S \<subseteq> T \<Longrightarrow> only T m m''"
  unfolding only_def by (metis subsetD)

lemma only_mono: "only R m m' \<Longrightarrow> R \<subseteq> T \<Longrightarrow> only T m m'"
  unfolding only_def by blast

lemma only_wr32_bytes: "only (bytes a 4) m (wr32 m a v)"
  by (simp add: only_def bytes_def not_less wr32_other)

lemma only_wr32: "bytes a 4 \<subseteq> R \<Longrightarrow> only R m' m \<Longrightarrow> only R m' (wr32 m a v)"
  unfolding only_def bytes_def using wr32_other [of _ a m v] by (metis (mono_tags, lifting) mem_Collect_eq not_less subsetD)

lemma field_bytes:
  assumes "unat k + 4 \<le> unat n"
  shows "bytes (t + k) 4 \<subseteq> bytes t n"
proof
  fix x assume "x \<in> bytes (t + k) 4"
  then have y: "unat (x - (t + k)) < 4" by (simp add: bytes_def word_less_nat_alt)
  have "unat (y + k) < unat n" if "unat y < 4" for y
    using that assms unat_u32_less [of n] by (simp add: unat_word_ariths)
  from this [OF y] show "x \<in> bytes t n" by (simp add: bytes_def word_less_nat_alt)
qed

lemma bytes_mono: "k \<le> n \<Longrightarrow> bytes t k \<subseteq> bytes t n"
  by (auto simp: bytes_def)

lemma only_rd32: "only R m m' \<Longrightarrow> bytes a 4 \<inter> R = {} \<Longrightarrow> rd32 m' a = rd32 m a"
proof -
  assume o: "only R m m'" "bytes a 4 \<inter> R = {}"
  have "a \<notin> R" "a + 1 \<notin> R" "a + 2 \<notin> R" "a + 3 \<notin> R"
    using o(2) by (auto simp: bytes_def disjoint_iff)
  then show ?thesis using o(1) by (simp add: only_def rd32_def)
qed

lemma bytes_tail: "c \<le> n \<Longrightarrow> bytes (b + c) (n - c) \<subseteq> bytes b n" "c \<le> n \<Longrightarrow> bytes b c \<subseteq> bytes b n"
  by (auto simp: bytes_def) uint_arith+

lemma bytes_apart:
  assumes "unat a + unat n \<le> unat b" and "unat b + unat m \<le> 2 ^ 32"
  shows "bytes a n \<inter> bytes b m = {}"
proof -
  have False if x: "x - a < n" "x - b < m" for x
  proof -
    have "unat x = unat b + unat (x - b)"
      using x(2) assms(2) unat_u32_less [of x] by (auto simp: unat_sub_if' word_less_nat_alt split: if_splits)
    moreover have "unat (x - a) < unat n" using x(1) by (simp add: word_less_nat_alt)
    ultimately show False using assms unat_u32_less [of x] by (auto simp: unat_sub_if' split: if_splits)
  qed
  then show ?thesis by (auto simp: bytes_def)
qed

lemma disjoint_apart:
  assumes "bytes a n \<inter> bytes b k = {}" and "0 < n" and "0 < k"
  shows "k \<le> a - b" "n \<le> b - a"
proof -
  have "a \<in> bytes a n" "b \<in> bytes b k" using assms(2,3) by (simp_all add: bytes_def)
  then have "a \<notin> bytes b k" "b \<notin> bytes a n" using assms(1) by blast+
  then show "k \<le> a - b" "n \<le> b - a" by (simp_all add: bytes_def)
qed

lemma apart_unat:
  assumes "unat a + n \<le> unat b" and "unat b + n \<le> 2 ^ 32" and "n < 2 ^ 32"
  shows "apart (of_nat n) a b" and "apart (of_nat n) b a"
proof -
  have "n \<le> unat (b - a)" using assms by (simp add: unat_sub word_le_nat_alt)
  moreover have "n \<le> unat (a - b)"
  proof (cases "n = 0")
    case False
    then have "unat a < unat b" using assms(1) by simp
    then have "unat (a - b) = unat a + 2 ^ 32 - unat b" by (simp add: unat_sub_if')
    then show ?thesis using assms(1,2) by linarith
  qed simp
  ultimately show "apart (of_nat n) a b" "apart (of_nat n) b a"
    using assms(3) by (simp_all add: apart_def word_le_nat_alt unat_of_nat)
qed

section \<open>Arrays of 32-bit entries in memory\<close>

lemma entries_apart:
  fixes i j t :: u32
  assumes "i < 1024" and "j < 1024" and "i \<noteq> j"
  shows "apart 4 (t + 4 * i) (t + 4 * j)"
proof -
  have "unat (4 * k) = 4 * unat k" if "k < 1024" for k :: u32
    using that by (simp add: unat_word_ariths word_less_nat_alt)
  then have u: "unat (4 * i) = 4 * unat i" "unat (4 * j) = 4 * unat j"
    using assms by simp_all
  have ij: "unat i < 1024" "unat j < 1024" "unat i \<noteq> unat j"
    using assms by (auto simp: word_less_nat_alt word_unat_eq_iff)
  have "apart 4 (4 * i) (4 * j)"
    using apart_unat [of "4 * i" 4 "4 * j"] apart_unat [of "4 * j" 4 "4 * i"] u ij
    by (cases "unat i < unat j") auto
  then show ?thesis by (simp add: apart_def)
qed

interpretation u32_array: entry_table "\<lambda>m i. rd32 m (t + 4 * i)" "\<lambda>i v m. wr32 m (t + 4 * i) v" id "\<lambda>i. i < 1024"
  for t :: u32
  by unfold_locales (simp_all add: rd32_wr32_apart entries_apart)

section \<open>Waiting for a device\<close>

text \<open>
  The drivers wait with loops of one shape: read a status, and while it says busy read it again,
  doing something with each new value (printing it, or nothing). \<open>None\<close>: the device stays busy
  forever.
\<close>

definition poll :: "('s \<Rightarrow> 'v \<times> 's) \<Rightarrow> ('v \<Rightarrow> bool) \<Rightarrow> ('v \<Rightarrow> 's \<Rightarrow> 's) \<Rightarrow> 's \<Rightarrow> ('v \<times> 's) option" where
  "poll rd busy act s =
     while_option (\<lambda>(v, s). busy v) (\<lambda>(v, s). let (v, s) = rd s in (v, act v s)) (rd s)"

lemma poll_ready: "\<not> busy (fst (rd s)) \<Longrightarrow> poll rd busy act s = Some (rd s)"
  unfolding poll_def by (subst while_option_unfold) (auto simp: split_beta)

lemma poll_stops: "poll rd busy act s = Some (v, t) \<Longrightarrow> \<not> busy v"
  unfolding poll_def by (drule while_option_stop) simp

lemma poll_invariant:
  assumes "poll rd busy act s = Some (v, t)" and "P (snd (rd s))"
    and "\<And>s. P s \<Longrightarrow> P (act (fst (rd s)) (snd (rd s)))"
  shows "P t"
proof -
  have "(\<lambda>(v, s). P s) (v, t)"
    by (rule while_option_rule [OF _ assms(1) [unfolded poll_def]]) (use assms(2,3) in \<open>auto simp: split_beta\<close>)
  then show ?thesis by simp
qed

text \<open>A loop invariant that counts the rounds, and a bound on the rounds that can still be busy: the wait ends.\<close>

lemma poll_within:
  assumes start: "I 0 (rd s)"
    and step: "\<And>k v s. I k (v, s) \<Longrightarrow> busy v \<Longrightarrow> I (Suc k) (let (v, s) = rd s in (v, act v s))"
    and bound: "\<And>k v s. I k (v, s) \<Longrightarrow> busy v \<Longrightarrow> k < n"
  shows "\<exists>k v t. poll rd busy act s = Some (v, t) \<and> I k (v, t) \<and> \<not> busy v"
proof -
  have "\<exists>j r. while_option (\<lambda>(v, s). busy v) (\<lambda>(v, s). let (v, s) = rd s in (v, act v s)) vs = Some r \<and> I j r" if "I k vs" for k vs
    using that
  proof (induction "n - k" arbitrary: k vs rule: less_induct)
    case less
    obtain v u where vs: "vs = (v, u)" by fastforce
    show ?case
    proof (cases "busy v")
      case True
      have "n - Suc k < n - k" using bound less.prems True by (auto simp: vs intro: diff_less_mono2)
      from less.hyps [OF this step [OF less.prems [unfolded vs] True]] show ?thesis
        by (subst while_option_unfold) (simp add: vs True)
    next
      case False
      then show ?thesis using less.prems by (subst while_option_unfold) (auto simp: vs)
    qed
  qed
  from this [OF start] obtain j v t where "poll rd busy act s = Some (v, t)" "I j (v, t)" unfolding poll_def by (metis surj_pair)
  then show ?thesis using poll_stops by metis
qed

lemma poll_rule:
  assumes "poll rd busy act s = Some (v, t)" and "P (rd s)"
    and "\<And>v s. P (v, s) \<Longrightarrow> busy v \<Longrightarrow> P (let (v, s) = rd s in (v, act v s))"
  shows "P (v, t)"
  by (rule while_option_rule [OF _ assms(1) [unfolded poll_def]]) (use assms(2,3) in auto)

end
