(* ===== verification/Common.thy ===== *)
theory Common
  imports Machine
begin

text \<open>
  The string and memory routines of \<^verbatim>\<open>src/common.c\<close> on the byte memory. The C loops
  are kept as loops over \<open>u32\<close> counters; a loop that may run forever (\<^verbatim>\<open>strlen\<close> on memory
  with no zero byte) yields \<open>None\<close>. A \<^verbatim>\<open>char\<close> is signed on this target, so the string
  comparisons subtract \<open>sint\<close> values and \<^verbatim>\<open>memcmp\<close> subtracts \<open>uint\<close> values.
\<close>

section \<open>Definitions\<close>

definition strlen :: "memory \<Rightarrow> u32 \<Rightarrow> u32 option" where
  "strlen m str = while_option (\<lambda>i. m (str + i) \<noteq> 0) (\<lambda>i. i + 1) 0"

function strcmp_loop :: "memory \<Rightarrow> u32 \<Rightarrow> u32 \<Rightarrow> u32 \<Rightarrow> int" where
  "strcmp_loop m s1 s2 i =
     (if i \<noteq> 0
      then (if m (s1 + i) \<noteq> m (s2 + i) then sint (m (s1 + i)) - sint (m (s2 + i))
            else strcmp_loop m s1 s2 (i + 1))
      else 0)"
  by pat_completeness auto
termination
proof (relation "measure (\<lambda>(m, s1, s2, i). unat (- i))")
  fix m :: memory and s1 s2 i :: u32
  assume "i \<noteq> 0"
  then have "unat (- i - 1) < unat (- i)" by (intro unat_pred_less) simp
  moreover have "- i - 1 = - (i + 1)" by simp
  ultimately have "unat (- (i + 1)) < unat (- i)" by metis
  then show "((m, s1, s2, i + 1), m, s1, s2, i) \<in> measure (\<lambda>(m, s1, s2, i). unat (- i))"
    by simp
qed simp

definition strcmp :: "memory \<Rightarrow> u32 \<Rightarrow> u32 \<Rightarrow> int" where
  "strcmp m s1 s2 = strcmp_loop m s1 s2 0"

function strncmp_loop :: "memory \<Rightarrow> u32 \<Rightarrow> u32 \<Rightarrow> u32 \<Rightarrow> u32 \<Rightarrow> int" where
  "strncmp_loop m s1 s2 n i =
     (if i < n
      then (if m (s1 + i) \<noteq> m (s2 + i) then sint (m (s1 + i)) - sint (m (s2 + i))
            else strncmp_loop m s1 s2 n (i + 1))
      else 0)"
  by pat_completeness auto
termination
  by (relation "measure (\<lambda>(m, s1, s2, n, i). unat n - unat i)")
    (auto simp: word_nat word_less_nat_alt)

definition strncmp :: "memory \<Rightarrow> u32 \<Rightarrow> u32 \<Rightarrow> u32 \<Rightarrow> int" where
  "strncmp m s1 s2 n = (if n = 0 then 0 else strncmp_loop m s1 s2 n 0)"

function memset_loop :: "memory \<Rightarrow> u32 \<Rightarrow> u8 \<Rightarrow> u32 \<Rightarrow> memory" where
  "memset_loop m tmp v count =
     (if count \<noteq> 0 then memset_loop (m(tmp := v)) (tmp + 1) v (count - 1) else m)"
  by pat_completeness auto
termination
  by (relation "measure (\<lambda>(m, tmp, v, count). unat count)") (auto simp: unat_pred_less)

definition memset :: "memory \<Rightarrow> u32 \<Rightarrow> u8 \<Rightarrow> u32 \<Rightarrow> memory" where
  "memset m dest v count = memset_loop m dest v count"

function memcpy_loop :: "memory \<Rightarrow> u32 \<Rightarrow> u32 \<Rightarrow> u32 \<Rightarrow> memory" where
  "memcpy_loop m dest src count =
     (if count > 0 then memcpy_loop (m(dest := m src)) (dest + 1) (src + 1) (count - 1) else m)"
  by pat_completeness auto
termination
  by (relation "measure (\<lambda>(m, dest, src, count). unat count)")
    (auto simp: unat_pred_less word_gt_0)

definition memcpy :: "memory \<Rightarrow> u32 \<Rightarrow> u32 \<Rightarrow> u32 \<Rightarrow> memory" where
  "memcpy m dest src count = memcpy_loop m dest src count"

text \<open>
  \<^verbatim>\<open>memmove\<close> copies through a local array. The local lies in no object the caller can
  name, so it is a value: the bytes read, in order, and then the bytes stored, in order.
\<close>

fun load_bytes :: "memory \<Rightarrow> u32 \<Rightarrow> nat \<Rightarrow> u8 list" where
  "load_bytes m a 0 = []"
| "load_bytes m a (Suc n) = m a # load_bytes m (a + 1) n"

fun store_bytes :: "memory \<Rightarrow> u32 \<Rightarrow> u8 list \<Rightarrow> memory" where
  "store_bytes m a [] = m"
| "store_bytes m a (b # bs) = store_bytes (m(a := b)) (a + 1) bs"

definition memmove :: "memory \<Rightarrow> u32 \<Rightarrow> u32 \<Rightarrow> u32 \<Rightarrow> memory" where
  "memmove m dest src n = (let tmp = load_bytes m src (unat n) in store_bytes m dest tmp)"

function memcmp_loop :: "memory \<Rightarrow> u32 \<Rightarrow> u32 \<Rightarrow> u32 \<Rightarrow> u32 \<Rightarrow> int" where
  "memcmp_loop m s1 s2 n i =
     (if i < n
      then (if m (s1 + i) \<noteq> m (s2 + i) then uint (m (s1 + i)) - uint (m (s2 + i))
            else memcmp_loop m s1 s2 n (i + 1))
      else 0)"
  by pat_completeness auto
termination
  by (relation "measure (\<lambda>(m, s1, s2, n, i). unat n - unat i)")
    (auto simp: word_nat word_less_nat_alt)

definition memcmp :: "memory \<Rightarrow> u32 \<Rightarrow> u32 \<Rightarrow> u32 \<Rightarrow> int" where
  "memcmp m s1 s2 n = (if n = 0 then 0 else memcmp_loop m s1 s2 n 0)"

declare strcmp_loop.simps [simp del] strncmp_loop.simps [simp del] memset_loop.simps [simp del]
  memcpy_loop.simps [simp del] memcmp_loop.simps [simp del]

section \<open>Filling and copying\<close>

text \<open>
  A block of \<open>n\<close> bytes at \<open>a\<close> is the set of addresses \<open>x\<close> with \<open>x - a < n\<close>; the distance
  wraps around as the C pointer does.
\<close>

lemma block_Suc:
  fixes x a n :: u32
  assumes "n \<noteq> 0"
  shows "x - a < n \<longleftrightarrow> x = a \<or> (x \<noteq> a \<and> x - (a + 1) < n - 1)"
proof (cases "x = a")
  case True
  with assms show ?thesis by (simp add: word_gt_0)
next
  case False
  define d where "d = x - a"
  have "d \<noteq> 0" using False by (simp add: d_def)
  then have "d < n \<longleftrightarrow> d - 1 < n - 1" using assms by unat_arith
  with False show ?thesis by (simp add: d_def algebra_simps)
qed

lemma memset_loop_eq: "memset_loop m tmp v count = (\<lambda>x. if x - tmp < count then v else m x)"
proof (induction m tmp v count rule: memset_loop.induct)
  case (1 m tmp v count)
  show ?case
  proof (cases "count = 0")
    case True
    then show ?thesis by (simp add: memset_loop.simps [of m tmp v 0])
  next
    case False
    with 1 show ?thesis
      by (auto simp: memset_loop.simps [of m tmp v count] fun_eq_iff fun_upd_def block_Suc)
  qed
qed

lemma memset_eq: "memset m dest v count = (\<lambda>x. if x - dest < count then v else m x)"
  by (simp add: memset_def memset_loop_eq)

text \<open>
  The forward copy of \<^verbatim>\<open>memcpy\<close> is a block copy when the destination does not start inside
  the source block (a destination below the source, or equal to it, is fine).
\<close>

lemma memcpy_loop_eq:
  assumes "count \<le> dest - src \<or> dest = src"
  shows "memcpy_loop m dest src count =
    (\<lambda>x. if x - dest < count then m (src + (x - dest)) else m x)"
  using assms
proof (induction m dest src count rule: memcpy_loop.induct)
  case (1 m dest src count)
  show ?case
  proof (cases "count = 0")
    case True
    then show ?thesis by (simp add: memcpy_loop.simps [of m dest src 0])
  next
    case False
    let ?m = "m(dest := m src)"
    have no_hit: "src + d \<noteq> dest" if "d < count" "d \<noteq> 0" for d
      using that "1.prems" by (auto simp: add_diff_cancel_left' leD)
    have "count - 1 \<le> dest + 1 - (src + 1) \<or> dest + 1 = src + 1"
      using "1.prems" False by (auto simp: word_le_nat_alt unat_minus_one)
    then have IH: "memcpy_loop ?m (dest + 1) (src + 1) (count - 1) =
        (\<lambda>x. if x - (dest + 1) < count - 1 then ?m (src + 1 + (x - (dest + 1))) else ?m x)"
      using "1.IH" False by (simp add: word_gt_0 fun_upd_def)
    have "memcpy_loop m dest src count x =
        (if x - dest < count then m (src + (x - dest)) else m x)" for x
    proof (cases "x = dest")
      case True
      with IH False show ?thesis
        by (simp add: memcpy_loop.simps [of m dest src count] word_gt_0)
    next
      case ne: False
      have "src + 1 + (x - (dest + 1)) = src + (x - dest)" by simp
      with IH False ne no_hit [of "x - dest"] show ?thesis
        by (auto simp: memcpy_loop.simps [of m dest src count] word_gt_0 block_Suc [of count x dest])
    qed
    then show ?thesis by blast
  qed
qed

lemma memcpy_eq:
  assumes "count \<le> dest - src \<or> dest = src"
  shows "memcpy m dest src count =
    (\<lambda>x. if x - dest < count then m (src + (x - dest)) else m x)"
  using memcpy_loop_eq [OF assms] by (simp add: memcpy_def)

lemma length_load_bytes [simp]: "length (load_bytes m a n) = n"
  by (induction n arbitrary: a) auto

lemma load_bytes_nth: "i < n \<Longrightarrow> load_bytes m a n ! i = m (a + of_nat i)"
  by (induction n arbitrary: a i) (auto simp: nth_Cons' of_nat_diff algebra_simps gr0_conv_Suc)

lemma store_bytes_eq:
  assumes "length bs < 2 ^ 32"
  shows "store_bytes m a bs =
    (\<lambda>x. if unat (x - a) < length bs then bs ! unat (x - a) else m x)"
  using assms
proof (induction bs arbitrary: m a)
  case Nil
  then show ?case by simp
next
  case (Cons b bs)
  have "store_bytes m a (b # bs) x =
      (if unat (x - a) < length (b # bs) then (b # bs) ! unat (x - a) else m x)" for x
  proof (cases "x = a")
    case True
    with Cons show ?thesis by (simp add: unat_u32_max)
  next
    case False
    then have "x - a \<noteq> 0" by simp
    from unat_pred_word [OF this] have "unat (x - (a + 1)) = unat (x - a) - 1"
      by (simp add: diff_diff_add)
    moreover have "0 < unat (x - a)" using \<open>x - a \<noteq> 0\<close> by (simp add: unat_gt_0)
    ultimately show ?thesis using Cons False by (auto simp: nth_Cons')
  qed
  then show ?case by blast
qed

lemma memmove_eq:
  "memmove m dest src n = (\<lambda>x. if x - dest < n then m (src + (x - dest)) else m x)"
proof -
  from unat_u32_less [of n] show ?thesis
    by (auto simp: memmove_def store_bytes_eq load_bytes_nth word_less_nat_alt fun_eq_iff)
qed

section \<open>Strings\<close>

lemma strlen_Some:
  assumes zero: "m (str + n) = 0" and before: "\<And>i. i < n \<Longrightarrow> m (str + i) \<noteq> 0"
  shows "strlen m str = Some n"
proof -
  let ?b = "\<lambda>i. m (str + i) \<noteq> 0" and ?c = "\<lambda>i::u32. i + 1" and ?P = "\<lambda>i. i \<le> n"
  have step: "?P (?c i) \<and> unat n - unat (?c i) < unat n - unat i" if "?P i" "?b i" for i
  proof -
    have "i < n" using that zero by (cases "i = n") auto
    then show ?thesis by (simp add: word_nat word_le_nat_alt word_less_nat_alt)
  qed
  obtain t where t: "while_option ?b ?c 0 = Some t"
    using measure_while_option_Some [of ?P ?b ?c "\<lambda>i. unat n - unat i" 0] step by auto
  have "?P t" using while_option_rule [OF _ t, of ?P] step by simp
  moreover have "m (str + t) = 0" using while_option_stop [OF t] by simp
  ultimately have "t = n" using before by force
  with t show ?thesis by (simp add: strlen_def)
qed

lemma strlen_SomeD:
  assumes "strlen m str = Some n"
  shows "m (str + n) = 0"
  using while_option_stop [of "\<lambda>i. m (str + i) \<noteq> 0" "\<lambda>i. i + 1" 0 n] assms
  by (simp add: strlen_def)

lemma first_difference_loop:
  assumes loop: "\<And>i. f i = (if i < n then (if x i \<noteq> y i then d i else f (i + 1)) else (0::int))"
    and "i \<le> n"
  shows "(\<forall>j. i \<le> j \<and> j < n \<longrightarrow> x j = y j) \<and> f i = 0 \<or>
    (\<exists>k::u32. i \<le> k \<and> k < n \<and> (\<forall>j. i \<le> j \<and> j < k \<longrightarrow> x j = y j) \<and> x k \<noteq> y k \<and> f i = d k)"
  using \<open>i \<le> n\<close>
proof (induction "unat n - unat i" arbitrary: i rule: less_induct)
  case less
  show ?case
  proof (cases "i < n \<and> x i = y i")
    case True
    then have lt: "i < n" and eq: "x i = y i" by auto
    have Suc: "unat (i + 1) = Suc (unat i)" using lt by (rule unat_Suc_less)
    have split: "i \<le> j \<longleftrightarrow> j = i \<or> i + 1 \<le> j" for j
      using Suc by (auto simp: word_le_nat_alt word_unat_eq_iff)
    have "i + 1 \<le> n" using lt Suc by (simp add: word_le_nat_alt word_less_nat_alt)
    moreover have "unat n - unat (i + 1) < unat n - unat i"
      using lt Suc by (simp add: word_less_nat_alt)
    ultimately have "(\<forall>j. i + 1 \<le> j \<and> j < n \<longrightarrow> x j = y j) \<and> f (i + 1) = 0 \<or>
      (\<exists>k. i + 1 \<le> k \<and> k < n \<and> (\<forall>j. i + 1 \<le> j \<and> j < k \<longrightarrow> x j = y j) \<and> x k \<noteq> y k \<and> f (i + 1) = d k)"
      by (intro less)
    moreover have "f i = f (i + 1)" using loop [of i] lt eq by simp
    ultimately show ?thesis using eq by (auto simp: split)
  next
    case False
    then show ?thesis using loop [of i] less.prems by auto
  qed
qed

lemma strncmp_loop_cases:
  "i \<le> n \<Longrightarrow>
    (\<forall>j. i \<le> j \<and> j < n \<longrightarrow> m (s1 + j) = m (s2 + j)) \<and> strncmp_loop m s1 s2 n i = 0 \<or>
    (\<exists>k. i \<le> k \<and> k < n \<and> (\<forall>j. i \<le> j \<and> j < k \<longrightarrow> m (s1 + j) = m (s2 + j)) \<and>
      m (s1 + k) \<noteq> m (s2 + k) \<and>
      strncmp_loop m s1 s2 n i = sint (m (s1 + k)) - sint (m (s2 + k)))"
  by (rule first_difference_loop, rule strncmp_loop.simps)

lemma memcmp_loop_cases:
  "i \<le> n \<Longrightarrow>
    (\<forall>j. i \<le> j \<and> j < n \<longrightarrow> m (s1 + j) = m (s2 + j)) \<and> memcmp_loop m s1 s2 n i = 0 \<or>
    (\<exists>k. i \<le> k \<and> k < n \<and> (\<forall>j. i \<le> j \<and> j < k \<longrightarrow> m (s1 + j) = m (s2 + j)) \<and>
      m (s1 + k) \<noteq> m (s2 + k) \<and>
      memcmp_loop m s1 s2 n i = uint (m (s1 + k)) - uint (m (s2 + k)))"
  by (rule first_difference_loop, rule memcmp_loop.simps)

lemma strncmp_zero_iff:
  "strncmp m s1 s2 n = 0 \<longleftrightarrow> (\<forall>j < n. m (s1 + j) = m (s2 + j))"
proof -
  have "sint (m (s1 + k)) = sint (m (s2 + k)) \<longleftrightarrow> m (s1 + k) = m (s2 + k)" for k
    by (auto intro: signed_word_eqI)
  with strncmp_loop_cases [of 0 n m s1 s2] show ?thesis by (auto simp: strncmp_def)
qed

section \<open>Properties\<close>

text \<open>\<^verbatim>\<open>strlen\<close> returns exactly when memory holds a zero byte somewhere, and then it
  returns the distance to the first zero byte at or after the string's address.\<close>

theorem strlen_returns:
  "((\<exists>n. strlen m str = Some n) \<longleftrightarrow> (\<exists>x. m x = 0)) \<and>
   (strlen m str = Some n \<longleftrightarrow> m (str + n) = 0 \<and> \<not> (\<exists>i < n. m (str + i) = 0))"
proof -
  have ex: "\<exists>n. m (str + n) = 0 \<and> (\<forall>i < n. m (str + i) \<noteq> 0)" if "m x = 0" for x
  proof -
    have "\<exists>n. m (str + n) = 0" using that by (intro exI [of _ "x - str"]) simp
    then show ?thesis using exists_least_iff [of "\<lambda>n. m (str + n) = 0"] by blast
  qed
  have returns: "(\<exists>n. strlen m str = Some n) \<longleftrightarrow> (\<exists>x. m x = 0)"
    using ex strlen_Some strlen_SomeD by metis
  have "m (str + n) = 0 \<and> (\<forall>i < n. m (str + i) \<noteq> 0)" if s: "strlen m str = Some n"
  proof -
    obtain k where k: "m (str + k) = 0" "\<forall>i < k. m (str + i) \<noteq> 0"
      using ex strlen_SomeD [OF s] by blast
    then have "strlen m str = Some k" by (intro strlen_Some) auto
    with s k show ?thesis by simp
  qed
  then have "strlen m str = Some n \<longleftrightarrow> m (str + n) = 0 \<and> (\<forall>i < n. m (str + i) \<noteq> 0)"
    using strlen_Some by blast
  with returns show ?thesis by simp
qed

text \<open>C34: \<^verbatim>\<open>memcpy\<close> computes the same memory as \<^verbatim>\<open>memmove\<close>, that is, the destination block
  receives the source block's original bytes and nothing else changes, whenever the destination
  does not start strictly inside the source block.\<close>

theorem memcpy_agrees_with_memmove:
  assumes "count \<le> dest - src \<or> dest = src"
  shows "memcpy m dest src count = memmove m dest src count \<and>
    memmove m dest src count = (\<lambda>x. if x - dest < count then m (src + (x - dest)) else m x)"
  using memcpy_eq [OF assms] memmove_eq by simp

theorem memcpy_agrees_with_memmove_witness:
  "memcpy (\<lambda>x. ucast x) 100 102 4 103 = memmove (\<lambda>x. ucast x) 100 102 4 103 \<and>
   memcpy (\<lambda>x. ucast x) 100 102 4 103 = (105 :: u8)"
proof -
  have "(4::u32) \<le> 100 - 102 \<or> (100::u32) = 102" by simp
  from memcpy_agrees_with_memmove [OF this, of "\<lambda>x. ucast x"] show ?thesis by simp
qed

text \<open>\<^verbatim>\<open>strcmp\<close> returns 0 for every pair of strings: its loop condition is the counter
  itself, which starts at 0, so no character is ever compared.\<close>

theorem strcmp_always_equal: "strcmp m s1 s2 = 0"
  by (simp add: strcmp_def strcmp_loop.simps [of m s1 s2 0])

end
