(* ===== verification/Terminal.thy ===== *)
theory Terminal
  imports Common
begin

unbundle bit_operations_syntax

text \<open>
  The VGA text console of \<^verbatim>\<open>src/kernel.c\<close> and \<^verbatim>\<open>kpanic\<close> of \<^verbatim>\<open>src/common.c\<close>. The
  console's globals are a record; the video memory behind the pointer \<^verbatim>\<open>terminal_buffer\<close>
  (0xC00B8000) is device memory of its own, a function from cell numbers to 16-bit entries.
  A console is one field, \<open>tty\<close>, of the kernel state, so a routine that prints is a
  \<open>tty_update\<close> and visibly leaves every other part of the state alone.
\<close>

section \<open>Colours and entries\<close>

datatype vga_color =
    VGA_COLOR_BLACK | VGA_COLOR_BLUE | VGA_COLOR_GREEN | VGA_COLOR_CYAN
  | VGA_COLOR_RED | VGA_COLOR_MAGENTA | VGA_COLOR_BROWN | VGA_COLOR_LIGHT_GREY
  | VGA_COLOR_DARK_GREY | VGA_COLOR_LIGHT_BLUE | VGA_COLOR_LIGHT_GREEN | VGA_COLOR_LIGHT_CYAN
  | VGA_COLOR_LIGHT_RED | VGA_COLOR_LIGHT_MAGENTA | VGA_COLOR_LIGHT_BROWN | VGA_COLOR_WHITE

fun vga_code :: "vga_color \<Rightarrow> u8" where
  "vga_code VGA_COLOR_BLACK = 0"
| "vga_code VGA_COLOR_BLUE = 1"
| "vga_code VGA_COLOR_GREEN = 2"
| "vga_code VGA_COLOR_CYAN = 3"
| "vga_code VGA_COLOR_RED = 4"
| "vga_code VGA_COLOR_MAGENTA = 5"
| "vga_code VGA_COLOR_BROWN = 6"
| "vga_code VGA_COLOR_LIGHT_GREY = 7"
| "vga_code VGA_COLOR_DARK_GREY = 8"
| "vga_code VGA_COLOR_LIGHT_BLUE = 9"
| "vga_code VGA_COLOR_LIGHT_GREEN = 10"
| "vga_code VGA_COLOR_LIGHT_CYAN = 11"
| "vga_code VGA_COLOR_LIGHT_RED = 12"
| "vga_code VGA_COLOR_LIGHT_MAGENTA = 13"
| "vga_code VGA_COLOR_LIGHT_BROWN = 14"
| "vga_code VGA_COLOR_WHITE = 15"

definition vga_entry_color :: "u8 \<Rightarrow> u8 \<Rightarrow> u8" where
  "vga_entry_color fg bg = fg OR push_bit 4 bg"

definition vga_entry :: "u8 \<Rightarrow> u8 \<Rightarrow> u16" where
  "vga_entry uc color = ucast uc OR push_bit 8 (ucast color)"

definition VGA_WIDTH :: u32 where "VGA_WIDTH = 80"
definition VGA_HEIGHT :: u32 where "VGA_HEIGHT = 25"

section \<open>The console state\<close>

record terminal =
  terminal_row :: u32
  terminal_column :: u32
  terminal_color :: u8
  terminal_buffer :: "nat \<Rightarrow> u16"

record console = machine +
  tty :: terminal

section \<open>Operations\<close>

text \<open>The cell number of column \<open>x\<close> of row \<open>y\<close>, computed in 32 bits as the code does.\<close>

definition cell :: "u32 \<Rightarrow> u32 \<Rightarrow> nat" where
  "cell y x = unat (y * VGA_WIDTH + x)"

definition terminal_initialize :: "terminal \<Rightarrow> terminal" where
  "terminal_initialize t =
     (let color = vga_entry_color (vga_code VGA_COLOR_LIGHT_GREY) (vga_code VGA_COLOR_BLACK)
      in t\<lparr>terminal_row := 0, terminal_column := 0, terminal_color := color,
           terminal_buffer :=
             fold (\<lambda>y. fold (\<lambda>x b. b(cell (of_nat y) (of_nat x) := vga_entry 32 color))
                         [0..<unat VGA_WIDTH])
               [0..<unat VGA_HEIGHT] (terminal_buffer t)\<rparr>)"

definition terminal_setcolor :: "u8 \<Rightarrow> terminal \<Rightarrow> terminal" where
  "terminal_setcolor color t = t\<lparr>terminal_color := color\<rparr>"

definition terminal_putentryat :: "u8 \<Rightarrow> u8 \<Rightarrow> u32 \<Rightarrow> u32 \<Rightarrow> terminal \<Rightarrow> terminal" where
  "terminal_putentryat c color x y t =
     t\<lparr>terminal_buffer := (terminal_buffer t)(cell y x := vga_entry c color)\<rparr>"

text \<open>
  The scrolling loops at the end of \<^verbatim>\<open>terminal_putchar\<close>: every row but the last is
  overwritten by the row below it, then the last row is cleared. Both inner loops run up to and
  including column \<^verbatim>\<open>VGA_WIDTH\<close>.
\<close>

definition copy_row :: "nat \<Rightarrow> (nat \<Rightarrow> u16) \<Rightarrow> nat \<Rightarrow> u16" where
  "copy_row y = fold
     (\<lambda>x b. b(cell (of_nat y) (of_nat x) := b (cell (of_nat y + 1) (of_nat x))))
     [0..<Suc (unat VGA_WIDTH)]"

definition clear_row :: "nat \<Rightarrow> (nat \<Rightarrow> u16) \<Rightarrow> nat \<Rightarrow> u16" where
  "clear_row y = fold (\<lambda>x b. b(cell (of_nat y) (of_nat x) := 0)) [0..<Suc (unat VGA_WIDTH)]"

definition scroll :: "(nat \<Rightarrow> u16) \<Rightarrow> nat \<Rightarrow> u16" where
  "scroll b = (let last_row = unat (VGA_HEIGHT - 1)
               in clear_row last_row (fold copy_row [0..<last_row] b))"

definition put_advance :: "u8 \<Rightarrow> terminal \<Rightarrow> terminal" where
  "put_advance c t =
     (if c = 10
      then t\<lparr>terminal_row := terminal_row t + 1, terminal_column := 0\<rparr>
      else if c = 8
      then (if terminal_column t > 0
            then let col = terminal_column t - 1
                 in t\<lparr>terminal_column := col,
                      terminal_buffer := (terminal_buffer t)(cell (terminal_row t) col := 0)\<rparr>
            else t)
      else let t = terminal_putentryat c (terminal_color t) (terminal_column t) (terminal_row t) t;
               col = terminal_column t + 1
           in if col = VGA_WIDTH
              then t\<lparr>terminal_column := 0, terminal_row := terminal_row t + 1\<rparr>
              else t\<lparr>terminal_column := col\<rparr>)"

definition terminal_putchar :: "u8 \<Rightarrow> terminal \<Rightarrow> terminal" where
  "terminal_putchar c t =
     (let t = put_advance c t
      in if terminal_row t = VGA_HEIGHT
         then t\<lparr>terminal_buffer := scroll (terminal_buffer t),
                terminal_row := terminal_row t - 1, terminal_column := 0\<rparr>
         else t)"

definition hex_chars :: "u8 list" where
  "hex_chars = map of_char ''0123456789ABCDEF''"

definition terminal_printhex :: "u8 \<Rightarrow> terminal \<Rightarrow> terminal" where
  "terminal_printhex key t =
     (let v0 = hex_chars ! unat (drop_bit 4 (key AND 0xF0));
          v1 = hex_chars ! unat (key AND 0x0F)
      in terminal_putchar v1 (terminal_putchar v0 t))"

definition terminal_printhex16 :: "u16 \<Rightarrow> terminal \<Rightarrow> terminal" where
  "terminal_printhex16 key t =
     (let t = terminal_printhex (ucast (drop_bit 8 (key AND 0xFF00))) t
      in terminal_printhex (ucast (key AND 0x00FF)) t)"

definition terminal_printhex32 :: "u32 \<Rightarrow> terminal \<Rightarrow> terminal" where
  "terminal_printhex32 key t =
     (let t = terminal_printhex16 (ucast (drop_bit 16 (key AND 0xFFFF0000))) t
      in terminal_printhex16 (ucast (key AND 0x0000FFFF)) t)"

text \<open>
  \<^verbatim>\<open>terminal_write(data, size)\<close> prints \<open>size\<close> bytes; the bytes are passed as a list.
  \<^verbatim>\<open>terminal_writestring\<close> prints up to the terminating zero: of a string literal (a string
  without zero characters, written to the console as its codes), or of the memory at an address.
\<close>

fun terminal_write :: "u8 list \<Rightarrow> terminal \<Rightarrow> terminal" where
  "terminal_write [] t = t"
| "terminal_write (c # cs) t = terminal_write cs (terminal_putchar c t)"

definition terminal_writestring :: "string \<Rightarrow> terminal \<Rightarrow> terminal" where
  "terminal_writestring lit t = terminal_write (takeWhile (\<lambda>c. c \<noteq> 0) (map of_char lit)) t"

definition terminal_writestring_at ::
    "u32 \<Rightarrow> 'a console_scheme \<Rightarrow> ('a console_scheme, unit) outcome" where
  "terminal_writestring_at data s =
     (case strlen (mem s) data of
        None \<Rightarrow> Diverged
      | Some n \<Rightarrow> Done () (tty_update (terminal_write (load_bytes (mem s) data (unat n))) s))"

definition kpanic :: "string \<Rightarrow> 'a console_scheme \<Rightarrow> ('a console_scheme, 'b) outcome" where
  "kpanic msg s =
     (let s = tty_update (terminal_setcolor (vga_entry_color 4 1)) s;
          s = tty_update (terminal_writestring ''KERNEL PANIC: '') s;
          s = tty_update (terminal_writestring msg) s
      in Panicked msg (s\<lparr>iflag := False\<rparr>))"

section \<open>Cells and scrolling\<close>

lemma VGA_dims [simp]: "unat VGA_WIDTH = 80" "unat VGA_HEIGHT = 25" "unat (VGA_HEIGHT - 1) = 24"
  by (simp_all add: VGA_WIDTH_def VGA_HEIGHT_def)

lemma cell_of_nat [simp]: "y \<le> 25 \<Longrightarrow> x \<le> 80 \<Longrightarrow> cell (of_nat y) (of_nat x) = y * 80 + x"
  by (simp add: cell_def VGA_WIDTH_def unat_word_ariths unat_of_nat)

lemma cell_of_nat_Suc [simp]:
  "y < 25 \<Longrightarrow> x \<le> 80 \<Longrightarrow> cell (of_nat y + 1) (of_nat x) = (y + 1) * 80 + x"
  using cell_of_nat [of "Suc y" x] by (simp add: add.commute)

lemma cell_of_nat_Suc' [simp]:
  "y < 25 \<Longrightarrow> x \<le> 80 \<Longrightarrow> cell (1 + of_nat y) (of_nat x) = (y + 1) * 80 + x"
  using cell_of_nat_Suc [of y x] by (simp add: add.commute)

lemma cell_unat: "y < VGA_HEIGHT \<Longrightarrow> x \<le> VGA_WIDTH \<Longrightarrow> cell y x = unat y * 80 + unat x"
  using cell_of_nat [of "unat y" "unat x"] by (simp add: word_less_nat_alt word_le_nat_alt)

lemma copy_row_prefix:
  assumes "y < 24" and "n \<le> 81"
  shows "fold (\<lambda>x b. b(cell (of_nat y) (of_nat x) := b (cell (of_nat y + 1) (of_nat x)))) [0..<n] b =
    (\<lambda>i. if y * 80 \<le> i \<and> i < y * 80 + n then b (i + 80) else b i)"
  using assms(2)
proof (induction n)
  case 0
  then show ?case by (auto simp: fun_eq_iff)
next
  case (Suc n)
  with assms(1) show ?case by (auto simp: fun_eq_iff algebra_simps)
qed

lemma copy_row_eq:
  "y < 24 \<Longrightarrow> copy_row y b = (\<lambda>i. if y * 80 \<le> i \<and> i < y * 80 + 81 then b (i + 80) else b i)"
  using copy_row_prefix [of y 81 b] by (simp add: copy_row_def)

lemma copy_rows_eq:
  "n \<le> 24 \<Longrightarrow> 0 < n \<Longrightarrow>
    fold copy_row [0..<n] b = (\<lambda>i. if i \<le> n * 80 then b (i + 80) else b i)"
proof (induction n)
  case 0
  then show ?case by simp
next
  case (Suc n)
  show ?case
  proof (cases "n = 0")
    case True
    then show ?thesis by (auto simp: copy_row_eq fun_eq_iff)
  next
    case False
    with Suc show ?thesis by (auto simp: copy_row_eq fun_eq_iff)
  qed
qed

lemma clear_row_prefix:
  assumes "y < 25" and "n \<le> 81"
  shows "fold (\<lambda>x b. b(cell (of_nat y) (of_nat x) := 0)) [0..<n] b =
    (\<lambda>i. if y * 80 \<le> i \<and> i < y * 80 + n then 0 else b i)"
  using assms(2) by (induction n) (use assms(1) in \<open>auto simp: fun_eq_iff\<close>)

lemma clear_row_eq:
  "y < 25 \<Longrightarrow> clear_row y b = (\<lambda>i. if y * 80 \<le> i \<and> i < y * 80 + 81 then 0 else b i)"
  using clear_row_prefix [of y 81 b] by (simp add: clear_row_def)

lemma scroll_eq:
  "scroll b = (\<lambda>i. if i < 1920 then b (i + 80) else if i \<le> 2000 then 0 else b i)"
  by (auto simp: scroll_def clear_row_eq copy_rows_eq fun_eq_iff)

section \<open>The cursor invariant\<close>

definition term_inv :: "terminal \<Rightarrow> bool" where
  "term_inv t \<longleftrightarrow> terminal_row t < VGA_HEIGHT \<and> terminal_column t < VGA_WIDTH"

lemma term_inv_initialize: "term_inv (terminal_initialize t)"
  by (simp add: term_inv_def terminal_initialize_def VGA_WIDTH_def VGA_HEIGHT_def Let_def)

lemma term_inv_setcolor [simp]: "term_inv (terminal_setcolor c t) = term_inv t"
  by (simp add: term_inv_def terminal_setcolor_def)

lemma u32_step: "x < n \<Longrightarrow> x + 1 \<noteq> n \<Longrightarrow> x + 1 < (n::u32)"
  by unat_arith

lemma put_advance_inv:
  assumes "term_inv t"
  shows "terminal_row (put_advance c t) \<le> VGA_HEIGHT \<and> terminal_column (put_advance c t) < VGA_WIDTH"
proof -
  have r: "terminal_row t < VGA_HEIGHT" and c: "terminal_column t < VGA_WIDTH"
    using assms by (auto simp: term_inv_def)
  have "terminal_row t + 1 \<le> VGA_HEIGHT" "terminal_row t \<le> VGA_HEIGHT" "0 < VGA_WIDTH"
    using r by (unat_arith, simp, simp add: VGA_WIDTH_def)
  moreover have "terminal_column t - 1 < VGA_WIDTH" if "terminal_column t > 0"
    using that c by unat_arith
  ultimately show ?thesis
    using c u32_step [OF c] by (auto simp: put_advance_def terminal_putentryat_def Let_def)
qed

lemma term_inv_putchar: "term_inv t \<Longrightarrow> term_inv (terminal_putchar c t)"
  using put_advance_inv [of t c]
  by (auto simp: terminal_putchar_def term_inv_def Let_def VGA_WIDTH_def VGA_HEIGHT_def)

lemma term_inv_write: "term_inv t \<Longrightarrow> term_inv (terminal_write cs t)"
  by (induction cs arbitrary: t) (auto intro: term_inv_putchar)

lemma term_inv_writestring: "term_inv t \<Longrightarrow> term_inv (terminal_writestring lit t)"
  by (simp add: terminal_writestring_def term_inv_write)

section \<open>Hexadecimal output\<close>

text \<open>The number that a list of hexadecimal digit characters denotes.\<close>

definition digit_value :: "u8 \<Rightarrow> nat" where
  "digit_value c = (if unat c < 65 then unat c - 48 else unat c - 55)"

definition hex_value :: "u8 list \<Rightarrow> nat" where
  "hex_value ds = foldl (\<lambda>n c. 16 * n + digit_value c) 0 ds"

definition hex_byte :: "u8 \<Rightarrow> u8 list" where
  "hex_byte key = [hex_chars ! (unat key div 16), hex_chars ! (unat key mod 16)]"

lemma terminal_write_append: "terminal_write (xs @ ys) t = terminal_write ys (terminal_write xs t)"
  by (induction xs arbitrary: t) auto

lemma high_nibble: "drop_bit 4 (key AND 0xF0) = drop_bit 4 (key :: u8)"
  by (rule drop_bit_and_high) (simp add: mask_eq_exp_minus_1)

lemma low_nibble: "(key :: u8) AND 0x0F = take_bit 4 key"
  by (simp add: take_bit_eq_mask mask_eq_exp_minus_1)

lemma terminal_printhex_write: "terminal_printhex key t = terminal_write (hex_byte key) t"
  unfolding terminal_printhex_def hex_byte_def high_nibble low_nibble Let_def
  by (simp add: word_nat)

lemma hex_chars_codes:
  "hex_chars = [48, 49, 50, 51, 52, 53, 54, 55, 56, 57, 65, 66, 67, 68, 69, 70]"
  by (simp add: hex_chars_def)

lemma digit_value_hex: "n < 16 \<Longrightarrow> digit_value (hex_chars ! n) = n"
proof -
  have "map digit_value hex_chars = [0..<16]"
    by (simp add: hex_chars_codes digit_value_def upt_rec)
  moreover assume "n < 16"
  ultimately show ?thesis by (metis add_0 diff_zero length_map length_upt nth_map nth_upt)
qed

lemma hex_value_byte_append: "hex_value (ds @ hex_byte key) = 256 * hex_value ds + unat key"
proof -
  have "unat key < 256" using unsigned_less [of key, where 'a = nat] by simp
  then have "unat key div 16 < 16" by simp
  then show ?thesis by (simp add: hex_value_def hex_byte_def digit_value_hex)
qed

lemma terminal_printhex16_write:
  "terminal_printhex16 key t =
    terminal_write (hex_byte (ucast (drop_bit 8 key)) @ hex_byte (ucast (take_bit 8 key))) t"
proof -
  have "drop_bit 8 (key AND 0xFF00) = drop_bit 8 key"
    by (rule drop_bit_and_high) (simp add: mask_eq_exp_minus_1)
  moreover have "key AND 0x00FF = take_bit 8 key"
    by (simp add: take_bit_eq_mask mask_eq_exp_minus_1)
  ultimately show ?thesis
    by (simp add: terminal_printhex16_def terminal_printhex_write terminal_write_append)
qed

definition hex_dword :: "u32 \<Rightarrow> u8 list" where
  "hex_dword key = hex_byte (ucast (drop_bit 24 key)) @ hex_byte (ucast (drop_bit 16 key)) @
     hex_byte (ucast (drop_bit 8 key)) @ hex_byte (ucast key)"

lemma terminal_printhex32_write: "terminal_printhex32 key t = terminal_write (hex_dword key) t"
proof -
  have "drop_bit 16 (key AND 0xFFFF0000) = drop_bit 16 key"
    by (rule drop_bit_and_high) (simp add: mask_eq_exp_minus_1)
  moreover have "key AND 0x0000FFFF = take_bit 16 key"
    by (simp add: take_bit_eq_mask mask_eq_exp_minus_1)
  moreover have "ucast (drop_bit 8 (ucast (drop_bit 16 key) :: u16)) = (ucast (drop_bit 24 key) :: u8)"
    "ucast (take_bit 8 (ucast (drop_bit 16 key) :: u16)) = (ucast (drop_bit 16 key) :: u8)"
    "ucast (drop_bit 8 (ucast (take_bit 16 key) :: u16)) = (ucast (drop_bit 8 key) :: u8)"
    "ucast (take_bit 8 (ucast (take_bit 16 key) :: u16)) = (ucast key :: u8)"
    by (rule bit_word_eqI; auto simp: bit_simps ac_simps)+
  ultimately show ?thesis
    by (simp add: terminal_printhex32_def terminal_printhex16_write hex_dword_def
        terminal_write_append)
qed

lemma hex_value_dword: "hex_value (hex_dword key) = unat key"
proof -
  have "hex_value (hex_dword key) =
      256 * (256 * (256 * (256 * hex_value [] + unat (ucast (drop_bit 24 key) :: u8)) +
        unat (ucast (drop_bit 16 key) :: u8)) + unat (ucast (drop_bit 8 key) :: u8)) +
      unat (ucast key :: u8)"
    using hex_value_byte_append [of "[]" "ucast (drop_bit 24 key)"]
    by (simp only: hex_dword_def append_assoc [symmetric] hex_value_byte_append append_Nil)
  moreover have "unat key < 2 ^ 32" by (rule unat_u32_less)
  ultimately show ?thesis by (simp add: word_nat hex_value_def nat_bytes)
qed

lemma length_hex_dword [simp]: "length (hex_dword key) = 8"
  by (simp add: hex_dword_def hex_byte_def)

lemma term_inv_printhex [simp, intro]:
  assumes "term_inv t"
  shows "term_inv (terminal_printhex k8 t)" "term_inv (terminal_printhex16 k16 t)"
    "term_inv (terminal_printhex32 k32 t)"
  using assms by (simp_all add: terminal_printhex_write terminal_printhex16_write
      terminal_printhex32_write term_inv_write)

section \<open>What a character writes\<close>

text \<open>A character leaves video memory beyond the cell after the last one of the screen alone.\<close>

lemma putchar_frame:
  assumes "term_inv t" and "2000 < i"
  shows "terminal_buffer (terminal_putchar c t) i = terminal_buffer t i"
proof -
  have r: "terminal_row t < VGA_HEIGHT" and col: "terminal_column t < VGA_WIDTH"
    using assms(1) by (auto simp: term_inv_def)
  have "cell (terminal_row t) x \<le> 2000" if "x \<le> VGA_WIDTH" for x
  proof -
    have "unat (terminal_row t) < 25" "unat x \<le> 80"
      using r that by (simp_all add: word_less_nat_alt word_le_nat_alt)
    then show ?thesis using cell_unat [OF r that] by simp
  qed
  moreover have "terminal_column t - 1 \<le> VGA_WIDTH" if "0 < terminal_column t"
    using that col by unat_arith
  ultimately have "cell (terminal_row t) (terminal_column t) \<noteq> i"
    "0 < terminal_column t \<Longrightarrow> cell (terminal_row t) (terminal_column t - 1) \<noteq> i"
    using assms(2) col by (metis leD less_imp_le, metis leD)
  then show ?thesis using assms(2)
    by (auto simp: terminal_putchar_def put_advance_def terminal_putentryat_def scroll_eq Let_def)
qed

lemma write_frame:
  "term_inv t \<Longrightarrow> 2000 < i \<Longrightarrow> terminal_buffer (terminal_write cs t) i = terminal_buffer t i"
  by (induction cs arbitrary: t) (simp_all add: putchar_frame term_inv_putchar)

section \<open>Properties\<close>

text \<open>C33: however many characters are written to an initialised console, the cursor stays on
  the 25 by 80 screen and no video-memory cell after number 2000 (one past the screen) changes.\<close>

theorem console_stays_on_screen:
  fixes t :: terminal and cs :: "u8 list"
  defines "t0 \<equiv> terminal_initialize t"
  shows "terminal_row (terminal_write cs t0) < 25 \<and> terminal_column (terminal_write cs t0) < 80 \<and>
    (\<forall>i. 2000 < i \<longrightarrow> terminal_buffer (terminal_write cs t0) i = terminal_buffer t0 i)"
proof -
  have "term_inv t0" by (simp add: t0_def term_inv_initialize)
  with term_inv_write [of t0 cs] write_frame [of t0] show ?thesis
    by (simp add: term_inv_def VGA_WIDTH_def VGA_HEIGHT_def)
qed

theorem console_stays_on_screen_witness:
  "terminal_buffer (terminal_write [65, 66] (terminal_initialize \<lparr>terminal_row = 7,
     terminal_column = 5, terminal_color = 7, terminal_buffer = of_nat\<rparr>)) 2001 =
   terminal_buffer (terminal_initialize \<lparr>terminal_row = 7,
     terminal_column = 5, terminal_color = 7, terminal_buffer = of_nat\<rparr>) 2001"
proof -
  have "(2000 :: nat) < 2001" by simp
  with console_stays_on_screen [of "[65, 66]" "\<lparr>terminal_row = 7, terminal_column = 5,
    terminal_color = 7, terminal_buffer = of_nat\<rparr>"] show ?thesis by blast
qed

text \<open>A line feed on the last row scrolls the screen: each row takes the contents of the row
  below it, the last row is blanked, the cursor goes to the start of the last row. The loops'
  inclusive bound \<^verbatim>\<open>x <= VGA_WIDTH\<close> has one effect beyond that: cell 2000, the one after
  the screen, is zeroed as well.\<close>

theorem newline_scrolls:
  assumes "terminal_row t = 24"
  shows "terminal_putchar 10 t = t\<lparr>terminal_row := 24, terminal_column := 0,
    terminal_buffer := (\<lambda>i. if i < 1920 then terminal_buffer t (i + 80)
                           else if i \<le> 2000 then 0 else terminal_buffer t i)\<rparr>"
  using assms by (simp add: terminal_putchar_def put_advance_def VGA_HEIGHT_def scroll_eq Let_def)

theorem newline_scrolls_witness:
  "terminal_buffer (terminal_putchar 10 \<lparr>terminal_row = 24, terminal_column = 5,
     terminal_color = 7, terminal_buffer = of_nat\<rparr>) 3 = 83"
  using newline_scrolls [of "\<lparr>terminal_row = 24, terminal_column = 5, terminal_color = 7,
    terminal_buffer = of_nat\<rparr>"] by simp

text \<open>\<^verbatim>\<open>terminal_printhex32\<close> writes exactly eight characters, and read as a hexadecimal
  number they denote the printed value.\<close>

theorem printhex32_round_trip:
  "\<exists>ds. terminal_printhex32 key t = terminal_write ds t \<and> length ds = 8 \<and>
    set ds \<subseteq> set hex_chars \<and> hex_value ds = unat key"
proof (intro exI conjI)
  have "set (hex_byte b) \<subseteq> set hex_chars" for b
  proof -
    have "unat b < 256" using unsigned_less [of b, where 'a = nat] by simp
    then have "unat b div 16 < length hex_chars" "unat b mod 16 < length hex_chars"
      by (simp_all add: hex_chars_def)
    then show ?thesis by (simp add: hex_byte_def)
  qed
  then show "set (hex_dword key) \<subseteq> set hex_chars" by (simp add: hex_dword_def)
qed (simp_all add: terminal_printhex32_write hex_value_dword)

end
