(* ===== verification/Frame.thy ===== *)
theory Frame
  imports Terminal
begin

unbundle bit_operations_syntax

text \<open>
  The physical page frame allocator, \<^verbatim>\<open>src/mm/frame.c\<close>: a bitmap of 0x2000 words, one bit
  per 4 KiB frame. The array is a function from word numbers; an access to a word number outside
  the array is \<open>Faulted\<close>. The contract a client of the allocator relies on is the locale
  \<open>frame_provider\<close>, interpreted on \<^verbatim>\<open>kalloc_frame\<close>.
\<close>

section \<open>State and operations\<close>

record frames = console +
  frame_map :: "u32 \<Rightarrow> u32"
  nframes :: u32

definition FRAME_MAP_WORDS :: u32 where "FRAME_MAP_WORDS = 0x2000"

function kalloc_scan :: "u32 \<Rightarrow> 'a frames_scheme \<Rightarrow> ('a frames_scheme, u32) outcome" where
  "kalloc_scan i s =
     (if \<not> i div 32 < FRAME_MAP_WORDS then Faulted s
      else if drop_bit (unat (i mod 32)) (frame_map s (i div 32)) \<noteq> 0
      then (if i = nframes s - 1
            then kpanic ''Ran out of page frames'' (tty_update (terminal_printhex32 i) s)
            else kalloc_scan (i + 1) s)
      else Done i s)"
  by pat_completeness auto
termination
proof (relation "measure (\<lambda>(i, s). 0x40000 - unat i)")
  fix i :: u32 and s :: "'a frames_scheme"
  assume "\<not> \<not> i div 32 < FRAME_MAP_WORDS"
  then have "unat i < 0x40000"
    by (simp add: FRAME_MAP_WORDS_def word_less_nat_alt unat_div)
  then have "i < 0x40000" by (simp add: word_less_nat_alt)
  from unat_Suc_less [OF this] \<open>unat i < 0x40000\<close>
  show "((i + 1, s), i, s) \<in> measure (\<lambda>(i, s). 0x40000 - unat i)" by simp
qed simp

declare kalloc_scan.simps [simp del]

definition set_frame :: "u32 \<Rightarrow> 'a frames_scheme \<Rightarrow> 'a frames_scheme" where
  "set_frame i s = s\<lparr>frame_map := (frame_map s)
     (i div 32 := frame_map s (i div 32) OR push_bit (unat (i mod 32)) 1)\<rparr>"

definition kalloc_frame :: "'a frames_scheme \<Rightarrow> ('a frames_scheme, u32) outcome" where
  "kalloc_frame s = obind (kalloc_scan 0 s) (\<lambda>i s. Done (i * 0x1000) (set_frame i s))"

definition kfree_frame :: "u32 \<Rightarrow> 'a frames_scheme \<Rightarrow> ('a frames_scheme, unit) outcome" where
  "kfree_frame frame s =
     (let frame = frame div 0x1000
      in if frame \<ge> nframes s
         then kpanic ''Tried to free a non-existant frame''
                (tty_update (terminal_printhex32 (nframes s)) s)
         else if \<not> frame div 32 < FRAME_MAP_WORDS then Faulted s
         else Done () (s\<lparr>frame_map := (frame_map s)
                (frame div 32 := frame_map s (frame div 32) AND push_bit (unat frame) 0)\<rparr>))"

text \<open>\<^verbatim>\<open>memset(frame_map, 0, n)\<close> seen on the words: the first \<open>n\<close> bytes become zero.\<close>

definition zero_bytes :: "u32 \<Rightarrow> (u32 \<Rightarrow> u32) \<Rightarrow> u32 \<Rightarrow> u32" where
  "zero_bytes n fm w =
     (let k = 8 * (unat n - 4 * unat w) in push_bit k (drop_bit k (fm w)))"

definition init_frames ::
    "u32 \<Rightarrow> u32 \<Rightarrow> 'a frames_scheme \<Rightarrow> ('a frames_scheme, unit) outcome" where
  "init_frames end_kernel mem_size s =
     (let first_free_frame = (end_kernel AND 0x00FFF000) + 0x1000;
          s = s\<lparr>nframes := mem_size div 4\<rparr>;
          n = nframes s div 8
      in if n > 4 * FRAME_MAP_WORDS then Faulted s
         else obind (repeat_alloc kalloc_frame (unat (first_free_frame div 0x1000))
                      (s\<lparr>frame_map := zero_bytes n (frame_map s)\<rparr>))
                (\<lambda>_ s. Done () s))"

section \<open>The allocator's view of a frame\<close>

text \<open>
  \<open>frame_used s i\<close>: the bit of frame \<open>i\<close> is set. \<open>scan_free s i\<close>: the test of the scan
  loop accepts frame \<open>i\<close>, that is, no bit at or above \<open>i\<close>'s is set in its word.
\<close>

definition frame_used :: "'a frames_scheme \<Rightarrow> u32 \<Rightarrow> bool" where
  "frame_used s i \<longleftrightarrow> bit (frame_map s (i div 32)) (unat (i mod 32))"

definition scan_free :: "'a frames_scheme \<Rightarrow> u32 \<Rightarrow> bool" where
  "scan_free s i \<longleftrightarrow> drop_bit (unat (i mod 32)) (frame_map s (i div 32)) = 0"

definition frames_ok :: "'a frames_scheme \<Rightarrow> bool" where
  "frames_ok s \<longleftrightarrow> 0 < nframes s \<and> nframes s \<le> 0x40000"

lemma scan_free_not_used: "scan_free s i \<Longrightarrow> \<not> frame_used s i"
  using bit_drop_bit_eq [of "unat (i mod 32)" "frame_map s (i div 32)"]
  by (auto simp: scan_free_def frame_used_def fun_eq_iff dest: spec [of _ 0])

lemma frames_ok_index: "frames_ok s \<Longrightarrow> i < nframes s \<Longrightarrow> i div 32 < FRAME_MAP_WORDS"
  by (simp add: frames_ok_def FRAME_MAP_WORDS_def word_less_nat_alt word_le_nat_alt unat_div)

lemma bit_word_split: "(i :: u32) div 32 = j div 32 \<and> unat (i mod 32) = unat (j mod 32) \<longleftrightarrow> i = j"
  by (metis word_mod_div_equality word_unat_eq_iff)

lemma frame_used_set_frame: "frame_used (set_frame i s) j \<longleftrightarrow> j = i \<or> frame_used s j"
proof -
  have "unat (j mod 32) < 32" by (simp add: unat_mod)
  then show ?thesis using bit_word_split [of j i]
    by (auto simp: frame_used_def set_frame_def bit_simps)
qed

lemma set_frame_ok [simp]: "frames_ok (set_frame i s) = frames_ok s" "nframes (set_frame i s) = nframes s"
  by (simp_all add: frames_ok_def set_frame_def)

lemma kalloc_scan_cases:
  assumes "frames_ok s" and "i < nframes s"
  shows "(\<exists>j. kalloc_scan i s = Done j s \<and> i \<le> j \<and> j < nframes s \<and> scan_free s j \<and>
            (\<forall>k. i \<le> k \<and> k < j \<longrightarrow> \<not> scan_free s k)) \<or>
    (\<forall>k. i \<le> k \<and> k < nframes s \<longrightarrow> \<not> scan_free s k) \<and>
      (\<exists>t. kalloc_scan i s = Panicked ''Ran out of page frames'' t)"
  using assms(2)
proof (induction "unat (nframes s) - unat i" arbitrary: i rule: less_induct)
  case less
  have idx: "i div 32 < FRAME_MAP_WORDS" using frames_ok_index [OF assms(1) less.prems] .
  have range: "i \<le> k \<longleftrightarrow> k = i \<or> i + 1 \<le> k" for k
    using unat_Suc_less [OF less.prems] by (auto simp: word_le_nat_alt word_unat_eq_iff)
  consider (free) "scan_free s i" | (last) "\<not> scan_free s i" "i = nframes s - 1"
    | (more) "\<not> scan_free s i" "i \<noteq> nframes s - 1" by blast
  then show ?case
  proof cases
    case free
    then show ?thesis using idx less.prems
      by (intro disjI1 exI [of _ i]) (auto simp: kalloc_scan.simps [of i] scan_free_def)
  next
    case last
    have "k = i" if "i \<le> k" "k < nframes s" for k
      using that last(2) by unat_arith
    moreover have "\<exists>t. kalloc_scan i s = Panicked ''Ran out of page frames'' t"
      unfolding kalloc_scan.simps [of i s] using last idx
      by (simp add: scan_free_def kpanic_def Let_def)
    ultimately show ?thesis using last(1) by blast
  next
    case more
    have nxt: "i + 1 < nframes s" using less.prems more(2) by unat_arith
    have "kalloc_scan i s = kalloc_scan (i + 1) s"
      using more idx by (simp add: kalloc_scan.simps [of i] scan_free_def)
    moreover have "unat (nframes s) - unat (i + 1) < unat (nframes s) - unat i"
      using unat_Suc_less [OF less.prems] less.prems by (simp add: word_less_nat_alt)
    ultimately show ?thesis using less.hyps [OF _ nxt] more(1) by (auto simp: range)
  qed
qed

lemma kalloc_frame_cases:
  assumes "frames_ok s"
  shows "(\<exists>j. kalloc_frame s = Done (j * 0x1000) (set_frame j s) \<and> j < nframes s \<and> scan_free s j \<and>
            (\<forall>k < j. \<not> scan_free s k)) \<or>
    (\<forall>k < nframes s. \<not> scan_free s k) \<and>
      (\<exists>t. kalloc_frame s = Panicked ''Ran out of page frames'' t)"
  using kalloc_scan_cases [OF assms, of 0] assms
  by (auto simp: kalloc_frame_def frames_ok_def)

section \<open>The contract of a frame allocator\<close>

text \<open>
  What the paging code relies on: an allocation returns a page-aligned address that was not in
  use, and adds it and nothing else to the set of addresses in use.
\<close>

locale frame_provider =
  fixes alloc :: "'s \<Rightarrow> ('s, u32) outcome"
    and used :: "'s \<Rightarrow> u32 set"
    and ok :: "'s \<Rightarrow> bool"
  assumes alloc_fresh: "ok s \<Longrightarrow> alloc s = Done f t \<Longrightarrow> f \<notin> used s"
    and alloc_used: "ok s \<Longrightarrow> alloc s = Done f t \<Longrightarrow> used t = insert f (used s)"
    and alloc_ok: "ok s \<Longrightarrow> alloc s = Done f t \<Longrightarrow> ok t"
    and alloc_aligned: "ok s \<Longrightarrow> alloc s = Done f t \<Longrightarrow> f AND 0xFFF = 0"
begin

lemma repeat_alloc_fresh:
  "ok s \<Longrightarrow> repeat_alloc alloc n s = Done fs t \<Longrightarrow>
    length fs = n \<and> distinct fs \<and> set fs \<inter> used s = {} \<and> used t = used s \<union> set fs \<and> ok t \<and>
    (\<forall>f \<in> set fs. f AND 0xFFF = 0)"
proof (induction n arbitrary: s fs)
  case 0
  then show ?case by simp
next
  case (Suc n)
  then obtain f s' fs' where a: "alloc s = Done f s'"
    and r: "repeat_alloc alloc n s' = Done fs' t" and fs: "fs = f # fs'"
    by (auto simp: obind_Done_iff)
  have "ok s'" using alloc_ok Suc.prems(1) a .
  from Suc.IH [OF this r] alloc_fresh [OF Suc.prems(1) a] alloc_used [OF Suc.prems(1) a]
    alloc_aligned [OF Suc.prems(1) a]
  show ?case by (auto simp: fs)
qed

end

definition used_frames :: "'a frames_scheme \<Rightarrow> u32 set" where
  "used_frames s = {i * 0x1000 | i. i < nframes s \<and> frame_used s i}"

lemma unat_frame_addr: "(k :: u32) < 0x100000 \<Longrightarrow> unat (k * 0x1000) = unat k * 4096"
  by (simp add: unat_word_ariths word_less_nat_alt)

lemma frame_addr_div: "(k :: u32) < 0x100000 \<Longrightarrow> k * 0x1000 div 0x1000 = k"
  by (simp add: word_unat_eq_iff unat_div unat_frame_addr)

lemma frame_addr_inj:
  "i * 0x1000 = j * 0x1000 \<Longrightarrow> i < 0x100000 \<Longrightarrow> j < (0x100000 :: u32) \<Longrightarrow> i = j"
  by (metis frame_addr_div)

lemma used_frames_set_frame:
  assumes "j < nframes s"
  shows "used_frames (set_frame j s) = insert (j * 0x1000) (used_frames s)"
  using assms by (auto simp: used_frames_def frame_used_set_frame)

lemma scan_free_not_in_used:
  assumes "frames_ok s" and "j < nframes s" and "scan_free s j"
  shows "j * 0x1000 \<notin> used_frames s"
proof
  assume "j * 0x1000 \<in> used_frames s"
  then obtain i where i: "j * 0x1000 = i * 0x1000" "i < nframes s" "frame_used s i"
    by (auto simp: used_frames_def)
  have small: "k < 0x100000" if "k < nframes s" for k
    using that assms(1) by (simp add: frames_ok_def word_less_nat_alt word_le_nat_alt)
  have "i = j" using frame_addr_inj [OF i(1) small small] i(2) assms(2) by simp
  with i(3) scan_free_not_used [OF assms(3)] show False by simp
qed

lemma frame_addr_aligned: "(j * 0x1000) AND 0xFFF = (0 :: u32)"
proof -
  have "j * 0x1000 = push_bit 12 j" by (simp add: push_bit_eq_mult)
  moreover have "push_bit 12 j AND 0xFFF = (0 :: u32)"
    using take_bit_push_bit [of 12 12 j] by (simp add: take_bit_eq_mask mask_eq_exp_minus_1)
  ultimately show ?thesis by simp
qed

interpretation kframes: frame_provider kalloc_frame used_frames frames_ok
proof
  fix s t :: "'a frames_scheme" and f
  assume ok: "frames_ok s" and "kalloc_frame s = Done f t"
  with kalloc_frame_cases [OF ok] obtain j
    where j: "f = j * 0x1000" "t = set_frame j s" "j < nframes s" "scan_free s j" by auto
  show "f \<notin> used_frames s" using scan_free_not_in_used [OF ok j(3,4)] j(1) by simp
  show "used_frames t = insert f (used_frames s)" using used_frames_set_frame [OF j(3)] j by simp
  show "frames_ok t" using ok j(2) by simp
  show "f AND 0xFFF = 0" using j(1) by (simp add: frame_addr_aligned)
qed

section \<open>Boot: the frames of the kernel image\<close>

lemma scan_freeI:
  assumes "\<And>j. j div 32 = i div 32 \<Longrightarrow> i \<le> j \<Longrightarrow> \<not> frame_used s j"
  shows "scan_free s i"
proof (rule ccontr)
  let ?w = "frame_map s (i div 32)" and ?k = "unat (i mod 32)"
  assume "\<not> scan_free s i"
  then obtain n where n: "bit ?w (?k + n)"
    by (auto simp: scan_free_def bit_eq_iff bit_simps)
  then have kn: "?k + n < 32" by (auto dest: bit_imp_le_length)
  have lt: "unat i + n < 2 ^ 32"
    using slot_add(3) [of "unat i" n "2 ^ 27"] kn unat_u32_less [of i] by (simp add: unat_mod)
  then have uj: "unat (i + of_nat n) = unat i + n" by (simp add: unat_word_ariths unat_of_nat)
  have "(i + of_nat n) div 32 = i div 32" "unat ((i + of_nat n) mod 32) = ?k + n"
    using slot_add [of "unat i" n] kn by (simp_all add: word_unat_eq_iff unat_div unat_mod uj)
  moreover have "i \<le> i + of_nat n" using uj by (simp add: word_le_nat_alt)
  ultimately show False using assms [of "i + of_nat n"] n by (simp add: frame_used_def)
qed

text \<open>Exactly the frames below \<open>k\<close> are in use.\<close>

definition prefix_used :: "u32 \<Rightarrow> 'a frames_scheme \<Rightarrow> bool" where
  "prefix_used k s \<longleftrightarrow> (\<forall>i < 0x40000. frame_used s i \<longleftrightarrow> i < k)"

lemma same_word_in_map:
  assumes "(j :: u32) div 32 = i div 32" and "i < 0x40000"
  shows "j < 0x40000"
proof -
  have "unat j div 32 = unat i div 32" using arg_cong [OF assms(1), of unat] by (simp add: unat_div)
  from same_slot_less [OF this, of "0x2000"] show ?thesis
    using assms(2) by (simp add: word_less_nat_alt)
qed

lemma scan_free_prefix:
  assumes "prefix_used k s" and "i < 0x40000"
  shows "scan_free s i \<longleftrightarrow> k \<le> i"
proof
  assume "scan_free s i"
  with scan_free_not_used assms show "k \<le> i" by (force simp: prefix_used_def)
next
  assume "k \<le> i"
  show "scan_free s i"
  proof (rule scan_freeI)
    fix j assume "j div 32 = i div 32" "i \<le> j"
    then show "\<not> frame_used s j"
      using same_word_in_map [OF _ assms(2)] assms(1) \<open>k \<le> i\<close> by (force simp: prefix_used_def)
  qed
qed

lemma kalloc_frame_prefix:
  assumes ok: "frames_ok s" and pre: "prefix_used k s" and k: "k < nframes s"
  shows "kalloc_frame s = Done (k * 0x1000) (set_frame k s)" and "prefix_used (k + 1) (set_frame k s)"
proof -
  have lt: "k < 0x40000" using ok k by (auto simp: frames_ok_def)
  have free: "scan_free s j \<longleftrightarrow> k \<le> j" if "j < nframes s" for j
    using scan_free_prefix [OF pre, of j] that ok by (auto simp: frames_ok_def)
  from kalloc_frame_cases [OF ok] show "kalloc_frame s = Done (k * 0x1000) (set_frame k s)"
    using free k by (metis linorder_neqE order_refl leD)
  have "i < k + 1 \<longleftrightarrow> i = k \<or> i < k" for i
    using unat_Suc_less [OF lt] by (auto simp: word_less_nat_alt word_unat_eq_iff)
  with pre lt show "prefix_used (k + 1) (set_frame k s)"
    by (auto simp: prefix_used_def frame_used_set_frame)
qed

lemma repeat_alloc_prefix:
  assumes "frames_ok s" and "prefix_used k s" and "unat k + n \<le> unat (nframes s)"
  shows "\<exists>fs t. repeat_alloc kalloc_frame n s = Done fs t \<and> prefix_used (k + of_nat n) t \<and>
    (\<exists>fm. t = s\<lparr>frame_map := fm\<rparr>)"
  using assms
proof (induction n arbitrary: k s)
  case 0
  then show ?case by (auto intro!: exI [of _ "frame_map s"])
next
  case (Suc n)
  have k: "k < nframes s" using Suc.prems(3) by (simp add: word_less_nat_alt)
  note step = kalloc_frame_prefix [OF Suc.prems(1,2) k]
  have "unat (k + 1) + n \<le> unat (nframes (set_frame k s))"
    using Suc.prems(3) unat_Suc_less [OF k] by simp
  moreover have "frames_ok (set_frame k s)" using Suc.prems(1) by (simp add: frames_ok_def set_frame_def)
  ultimately obtain fs t fm where "repeat_alloc kalloc_frame n (set_frame k s) = Done fs t" "prefix_used (k + 1 + of_nat n) t"
    "t = (set_frame k s)\<lparr>frame_map := fm\<rparr>"
    using Suc.IH [OF _ step(2)] by blast
  then show ?case by (auto simp: step(1) algebra_simps) (auto simp: set_frame_def)
qed

lemma frame_used_zero_bytes:
  assumes "unat n \<le> 0x8000" and "i < 0x40000"
  shows "frame_used (s\<lparr>frame_map := zero_bytes n fm\<rparr>) i \<longleftrightarrow>
    8 * unat n \<le> unat i \<and> frame_used (s\<lparr>frame_map := fm\<rparr>) i"
proof -
  have b: "unat (i mod 32) < 32" by (simp add: unat_mod)
  have "8 * (unat n - 4 * unat (i div 32)) \<le> unat (i mod 32) \<longleftrightarrow> 8 * unat n \<le> unat i"
    by (simp add: unat_div unat_mod slot_le)
  then show ?thesis using b
    by (auto simp: frame_used_def zero_bytes_def bit_simps Let_def)
qed

section \<open>Properties\<close>

text \<open>C19: on a frame map that fits its array, any number of \<^verbatim>\<open>kalloc_frame\<close> calls hand out
  pairwise distinct page-aligned frames that were all free before, and mark exactly these as
  used in addition.\<close>

theorem kalloc_frame_distinct:
  assumes "frames_ok s" and "repeat_alloc kalloc_frame n s = Done fs t"
  shows "length fs = n \<and> distinct fs \<and> set fs \<inter> used_frames s = {} \<and>
    used_frames t = used_frames s \<union> set fs \<and> (\<forall>f \<in> set fs. f AND 0xFFF = 0)"
  using kframes.repeat_alloc_fresh [OF assms] by blast

definition boot_frames :: "u32 \<Rightarrow> frames" where
  "boot_frames n = \<lparr>mem = (\<lambda>_. 0), hw = (\<lambda>_ _. 0), io_log = [], iflag = False,
     tty = \<lparr>terminal_row = 0, terminal_column = 0, terminal_color = 7, terminal_buffer = (\<lambda>_. 0)\<rparr>,
     frame_map = (\<lambda>_. 0), nframes = n\<rparr>"

lemma kalloc_frame_boot:
  "kalloc_frame (boot_frames 64) = Done 0 (set_frame 0 (boot_frames 64))"
  "kalloc_frame (set_frame 0 (boot_frames 64)) =
     Done 0x1000 (set_frame 1 (set_frame 0 (boot_frames 64)))"
proof -
  have ok: "frames_ok (boot_frames 64)" by (simp add: frames_ok_def boot_frames_def)
  have "prefix_used 0 (boot_frames 64)"
    by (simp add: prefix_used_def frame_used_def boot_frames_def)
  note first = kalloc_frame_prefix [OF ok this]
  have "0 < nframes (boot_frames 64)" by (simp add: boot_frames_def)
  note first = first [OF this]
  from first(1) show "kalloc_frame (boot_frames 64) = Done 0 (set_frame 0 (boot_frames 64))"
    by simp
  from kalloc_frame_prefix [OF _ first(2)] ok
  show "kalloc_frame (set_frame 0 (boot_frames 64)) =
     Done 0x1000 (set_frame 1 (set_frame 0 (boot_frames 64)))"
    by (simp add: boot_frames_def)
qed

theorem kalloc_frame_distinct_witness:
  "\<exists>fs t. repeat_alloc kalloc_frame 2 (boot_frames 64) = Done fs t \<and>
     length fs = 2 \<and> distinct fs \<and> set fs \<inter> used_frames (boot_frames 64) = {}"
proof -
  have ok: "frames_ok (boot_frames 64)" by (simp add: frames_ok_def boot_frames_def)
  have run: "repeat_alloc kalloc_frame 2 (boot_frames 64) =
      Done [0, 0x1000] (set_frame 1 (set_frame 0 (boot_frames 64)))"
    by (simp add: numeral_2_eq_2 kalloc_frame_boot)
  from kalloc_frame_distinct [OF ok run] run show ?thesis by blast
qed

text \<open>\<^verbatim>\<open>kalloc_frame\<close> returns the first frame whose word has no bit set from that frame's
  position upwards; it panics exactly when no frame below \<^verbatim>\<open>nframes\<close> passes this test, and
  never reads the map out of its bounds.\<close>

theorem kalloc_frame_first_fit:
  assumes "frames_ok s"
  shows "(\<exists>i < nframes s. scan_free s i \<and> (\<forall>k < i. \<not> scan_free s k) \<and>
            kalloc_frame s = Done (i * 0x1000) (set_frame i s)) \<or>
    (\<forall>k < nframes s. \<not> scan_free s k) \<and>
      (\<exists>t. kalloc_frame s = Panicked ''Ran out of page frames'' t)"
  using kalloc_frame_cases [OF assms] by blast

theorem kalloc_frame_first_fit_witness:
  "\<exists>i < 64. kalloc_frame (boot_frames 64) = Done (i * 0x1000) (set_frame i (boot_frames 64))"
proof -
  have ok: "frames_ok (boot_frames 64)" by (simp add: frames_ok_def boot_frames_def)
  have "nframes (boot_frames 64) = 64" by (simp add: boot_frames_def)
  with kalloc_frame_first_fit [OF ok] show ?thesis using kalloc_frame_boot(1) by force
qed

text \<open>\<^verbatim>\<open>init_frames\<close> on a memory that holds the kernel leaves a prefix of the frames in use.\<close>

lemma init_frames_prefix:
  assumes fits: "unat (((end_kernel AND 0x00FFF000) + 0x1000) div 0x1000) \<le> unat (mem_size div 4)"
    and map: "mem_size div 4 \<le> 0x40000" "0 < mem_size div 4"
    and clear: "\<forall>i < 0x40000. 8 * (unat (mem_size div 4) div 8) \<le> unat i \<longrightarrow> \<not> frame_used s i"
  shows "\<exists>fm. let t = s\<lparr>nframes := mem_size div 4, frame_map := fm\<rparr>
    in init_frames end_kernel mem_size s = Done () t \<and> prefix_used (((end_kernel AND 0x00FFF000) + 0x1000) div 0x1000) t \<and>
       frames_ok t"
proof -
  let ?N = "mem_size div 4" and ?k = "((end_kernel AND 0x00FFF000) + 0x1000) div 0x1000"
  let ?n = "?N div 8" and ?s = "s\<lparr>nframes := ?N\<rparr>"
  let ?z = "?s\<lparr>frame_map := zero_bytes ?n (frame_map ?s)\<rparr>"
  have N: "unat ?N \<le> 0x40000" using map(1) by (simp add: word_le_nat_alt)
  then have n: "unat ?n \<le> 0x8000" by (simp add: unat_div [of "mem_size div 4"])
  have "frame_used ?s i = frame_used s i" for i by (simp add: frame_used_def)
  then have "prefix_used 0 ?z"
    using frame_used_zero_bytes [OF n, where s = ?s and fm = "frame_map ?s"] clear
    by (auto simp: prefix_used_def unat_div [of "mem_size div 4"] frame_used_def)
  moreover have "frames_ok ?z" using map by (simp add: frames_ok_def)
  ultimately obtain fs t where t: "repeat_alloc kalloc_frame (unat ?k) ?z = Done fs t"
    "prefix_used (0 + of_nat (unat ?k)) t" "\<exists>fm. t = ?z\<lparr>frame_map := fm\<rparr>"
    using repeat_alloc_prefix [of ?z 0 "unat ?k"] fits by auto
  obtain fm where fm: "t = s\<lparr>nframes := ?N, frame_map := fm\<rparr>" using t(3) by auto
  have "init_frames end_kernel mem_size s = Done () t"
    using t(1) n by (simp add: init_frames_def FRAME_MAP_WORDS_def word_less_nat_alt Let_def)
  then show ?thesis using t(2) map unfolding fm by (intro exI [of _ fm]) (simp add: frames_ok_def Let_def)
qed



lemma kfree_frame_word:
  assumes "frames_ok s" and "frame div 0x1000 < nframes s"
  shows "kfree_frame frame s =
    Done () (s\<lparr>frame_map := (frame_map s)(frame div 0x1000 div 32 := 0)\<rparr>)"
  using assms frames_ok_index [OF assms] by (auto simp: kfree_frame_def Let_def)

text \<open>\<^verbatim>\<open>kfree_frame\<close> panics on a frame number outside memory; otherwise it clears the
  whole map word of the frame, so it frees the given frame together with the 31 frames that share
  its word, and no other.\<close>

theorem kfree_frame_frees_its_word:
  assumes "frames_ok s"
  shows "if nframes s \<le> frame div 0x1000
    then \<exists>t. kfree_frame frame s = Panicked ''Tried to free a non-existant frame'' t
    else \<exists>t. kfree_frame frame s = Done () t \<and> nframes t = nframes s \<and>
      (\<forall>i. frame_used t i \<longleftrightarrow> frame_used s i \<and> i div 32 \<noteq> frame div 0x1000 div 32)"
proof (cases "nframes s \<le> frame div 0x1000")
  case True
  then show ?thesis by (simp add: kfree_frame_def kpanic_def Let_def)
next
  case False
  then show ?thesis using kfree_frame_word [OF assms, of frame] by (auto simp: frame_used_def)
qed

theorem kfree_frame_frees_its_word_witness:
  "\<exists>t. kfree_frame 0x3000 ((boot_frames 64)\<lparr>frame_map := (\<lambda>_. - 1)\<rparr>) = Done () t \<and>
     \<not> frame_used t 0 \<and> \<not> frame_used t 3 \<and> frame_used t 32"
proof -
  let ?s = "(boot_frames 64)\<lparr>frame_map := (\<lambda>_. - 1)\<rparr>"
  have "frames_ok ?s" by (simp add: frames_ok_def boot_frames_def)
  moreover have "\<not> nframes ?s \<le> 0x3000 div 0x1000" by (simp add: boot_frames_def)
  moreover have "frame_used ?s 32" by (simp add: frame_used_def bit_minus_1_iff)
  ultimately show ?thesis using kfree_frame_frees_its_word [of ?s "0x3000"] by auto
qed

text \<open>The first frame of a map word.\<close>

lemma first_of_word:
  fixes f k :: u32
  shows "32 * (f div 32) div 32 = f div 32" "32 * (f div 32) \<le> f" "f mod 32 \<noteq> 0 \<Longrightarrow> 32 * (f div 32) \<noteq> f"
    "k < 32 * (f div 32) \<Longrightarrow> k div 32 \<noteq> f div 32"
proof -
  have u: "unat (32 * (f div 32)) = 32 * (unat f div 32)"
  proof -
    have "32 * (unat f div 32) < 2 ^ 32" using unat_u32_less [of f] by (metis le_less_trans mult.commute div_times_less_eq_dividend)
    then show ?thesis by (simp add: unat_word_ariths unat_div)
  qed
  show "32 * (f div 32) div 32 = f div 32" by (simp add: word_unat_eq_iff unat_div u)
  show "32 * (f div 32) \<le> f" by (simp add: word_le_nat_alt u)
  show "32 * (f div 32) \<noteq> f" if "f mod 32 \<noteq> 0"
  proof
    assume "32 * (f div 32) = f"
    then have "unat f = 32 * (unat f div 32)" using u by simp
    then have "unat f mod 32 = 0" by presburger
    with that show False by (simp add: word_unat_eq_iff unat_mod)
  qed
  show "k div 32 \<noteq> f div 32" if "k < 32 * (f div 32)"
  proof
    assume "k div 32 = f div 32"
    from arg_cong [OF this, of unat] have "unat k div 32 = unat f div 32" by (simp add: unat_div)
    moreover have "unat k < 32 * (unat f div 32)" using that by (simp only: word_less_nat_alt u)
    ultimately show False using div_less_iff_less_mult [of 32 "unat k" "unat f div 32"] by simp
  qed
qed

text \<open>C36: freeing one frame lets the allocator hand out a frame that is still in use: when a frame is freed that is not the first of its word of
  the map, and that first frame and every frame below it are allocated, the next
  \<^verbatim>\<open>kalloc_frame\<close> returns the first frame of the word, which was in use and never freed.\<close>

theorem kfree_frame_double_allocation:
  assumes ok: "frames_ok s" and f: "f < nframes s" "f mod 32 \<noteq> 0" and used: "\<forall>i \<le> 32 * (f div 32). frame_used s i"
  shows "\<exists>t u. kfree_frame (f * 0x1000) s = Done () t \<and> kalloc_frame t = Done (32 * (f div 32) * 0x1000) u \<and>
    frame_used s (32 * (f div 32)) \<and> 32 * (f div 32) \<noteq> f"
proof -
  let ?g = "32 * (f div 32)" and ?t = "s\<lparr>frame_map := (frame_map s)(f div 32 := 0)\<rparr>"
  have "f < 0x100000" using ok f(1) by (auto simp: frames_ok_def word_less_nat_alt word_le_nat_alt)
  then have fd: "f * 0x1000 div 0x1000 = f" by (rule frame_addr_div)
  then have free: "kfree_frame (f * 0x1000) s = Done () ?t" using kfree_frame_word [OF ok, of "f * 0x1000"] f(1) by simp
  have g: "scan_free ?t ?g" "?g < nframes ?t" using first_of_word(1,2) [of f] f(1) by (auto simp: scan_free_def)
  have low: "\<not> scan_free ?t k" if "k < ?g" for k
  proof -
    have "frame_used ?t k" using used that first_of_word(4) [OF that] by (auto simp: frame_used_def)
    then show ?thesis using scan_free_not_used by blast
  qed
  have "frames_ok ?t" using ok by (simp add: frames_ok_def)
  from kalloc_frame_cases [OF this] obtain j where "kalloc_frame ?t = Done (j * 0x1000) (set_frame j ?t)" "scan_free ?t j" "\<forall>k < j. \<not> scan_free ?t k"
    using g by blast
  moreover from this have "j = ?g" using g(1) low by (metis linorder_neqE)
  ultimately show ?thesis using free used first_of_word(3) [OF f(2)] by blast
qed

theorem kfree_frame_double_allocation_witness:
  "\<exists>t u. kfree_frame 0x1000 (set_frame 1 (set_frame 0 (boot_frames 64))) = Done () t \<and>
     kalloc_frame t = Done 0 u"
proof -
  let ?s = "set_frame 1 (set_frame 0 (boot_frames 64))"
  have "frames_ok ?s" "(1 :: u32) < nframes ?s" by (simp_all add: frames_ok_def boot_frames_def)
  moreover have "\<forall>i \<le> 32 * (1 div 32). frame_used ?s i" by (simp add: frame_used_set_frame)
  ultimately show ?thesis using kfree_frame_double_allocation [of ?s 1] by auto
qed

end
