(* ===== verification/Paging.thy ===== *)
theory Paging
  imports Frame
begin

unbundle bit_operations_syntax

text \<open>
  Page tables, \<^verbatim>\<open>src/mm/paging.c\<close>. The page directory and the first page table are arrays
  of 1024 32-bit entries in memory, at the addresses the linker gives to \<^verbatim>\<open>kernel_page_dir\<close>
  and \<^verbatim>\<open>first_page_table\<close>; these addresses are parameters, kept in fields that no operation
  writes. Because the tables live in memory, the write through the pointer \<^verbatim>\<open>pt\<close> in
  \<^verbatim>\<open>kfree_page\<close> and the direct accesses to \<^verbatim>\<open>first_page_table\<close> alias as in the C code.
\<close>

section \<open>State and operations\<close>

record paging = frames +
  kernel_page_dir :: u32
  first_page_table :: u32
  cur_page_table :: u32
  next_free_page :: u32
  cr3 :: u32

definition KERNEL_VIRTUAL_BASE :: u32 where "KERNEL_VIRTUAL_BASE = 0xC0000000"
definition KERNEL_PAGE_NUMBER :: u32 where "KERNEL_PAGE_NUMBER = drop_bit 22 KERNEL_VIRTUAL_BASE"

definition PAGE_PRESENT :: "u32 \<Rightarrow> bool" where
  "PAGE_PRESENT page \<longleftrightarrow> page AND 0x01 \<noteq> 0"

text \<open>Entry \<open>i\<close> of the table at address \<open>t\<close>.\<close>

definition entry :: "memory \<Rightarrow> u32 \<Rightarrow> u32 \<Rightarrow> u32" where
  "entry m t i = rd32 m (t + 4 * i)"

definition set_entry :: "u32 \<Rightarrow> u32 \<Rightarrow> u32 \<Rightarrow> memory \<Rightarrow> memory" where
  "set_entry t i v m = wr32 m (t + 4 * i) v"

definition loadPageDir :: "u32 \<Rightarrow> 'a paging_scheme \<Rightarrow> 'a paging_scheme" where
  "loadPageDir dir s = s\<lparr>cr3 := dir\<rparr>"

definition init_paging :: "u32 \<Rightarrow> 'a paging_scheme \<Rightarrow> ('a paging_scheme, unit) outcome" where
  "init_paging end_kernel s =
     (let first_free_page = (end_kernel AND 0x00FFF000) + 0x1000;
          pd = kernel_page_dir s; pt = first_page_table s; n = unat (first_free_page div 0x1000);
          m = fold (\<lambda>i. set_entry pd (of_nat i) 0x00000002) [0..<1024] (mem s)
      in if n > 1024 then Faulted (s\<lparr>mem := m\<rparr>)
         else let m = fold (\<lambda>i. set_entry pt (of_nat i) ((of_nat i * 0x1000) OR 3 OR 4)) [0..<n] m;
                  m = set_entry pd KERNEL_PAGE_NUMBER ((pt - KERNEL_VIRTUAL_BASE) OR 3 OR 4) m;
                  s = s\<lparr>mem := m, cur_page_table := KERNEL_PAGE_NUMBER\<rparr>;
                  s = loadPageDir (pd - KERNEL_VIRTUAL_BASE) s
              in Done () (s\<lparr>next_free_page := first_free_page + KERNEL_VIRTUAL_BASE\<rparr>))"

function find_free_from :: "u32 \<Rightarrow> u32 \<Rightarrow> 'a paging_scheme \<Rightarrow> ('a paging_scheme, u32) outcome" where
  "find_free_from i table s =
     (if i < 1024
      then (if \<not> PAGE_PRESENT (entry (mem s) table i) then Done ((i * 0x1000) + KERNEL_VIRTUAL_BASE) s
            else find_free_from (i + 1) table s)
      else kpanic ''Ran out of free pages'' s)"
  by pat_completeness auto
termination
proof (relation "measure (\<lambda>(i, table, s). 1024 - unat i)")
  fix i table :: u32 and s :: "'a paging_scheme"
  assume "i < 1024"
  from unat_Suc_less [OF this] this
  show "((i + 1, table, s), i, table, s) \<in> measure (\<lambda>(i, table, s). 1024 - unat i)"
    by (simp add: word_less_nat_alt)
qed simp

declare find_free_from.simps [simp del]

definition find_free_page :: "u32 \<Rightarrow> 'a paging_scheme \<Rightarrow> ('a paging_scheme, u32) outcome" where
  "find_free_page table s = find_free_from 0 table s"

definition kalloc_page :: "'a paging_scheme \<Rightarrow> ('a paging_scheme, u32) outcome" where
  "kalloc_page s =
     obind (kalloc_frame s) (\<lambda>frame s.
       let i = (next_free_page s - KERNEL_VIRTUAL_BASE) div 0x1000; pt = first_page_table s
       in if \<not> i < 1024 then Faulted s
          else let s = s\<lparr>mem := set_entry pt i (frame OR 3 OR 4) (mem s)\<rparr>;
                   ret = next_free_page s
               in obind (find_free_page pt s) (\<lambda>p s. Done ret (s\<lparr>next_free_page := p\<rparr>)))"

definition get_phys_addr ::
    "u32 \<Rightarrow> u32 \<Rightarrow> 'a paging_scheme \<Rightarrow> ('a paging_scheme, u32) outcome" where
  "get_phys_addr dir virtual_addr s =
     (let pd_index = drop_bit 22 virtual_addr; pt_index = drop_bit 12 virtual_addr AND 0x03FF;
          pde = entry (mem s) dir pd_index
      in if \<not> PAGE_PRESENT pde then kpanic ''Page table not present'' s
         else let pt = (pde AND 0xFFFFF000) + KERNEL_VIRTUAL_BASE; pte = entry (mem s) pt pt_index
              in if \<not> PAGE_PRESENT pte then kpanic ''Page table entry not present'' s
                 else Done ((pte AND NOT 0xFFF) + (virtual_addr AND 0xFFF)) s)"

definition kfree_page :: "u32 \<Rightarrow> u32 \<Rightarrow> 'a paging_scheme \<Rightarrow> ('a paging_scheme, unit) outcome" where
  "kfree_page dir virtual_addr s =
     obind (get_phys_addr dir virtual_addr s) (\<lambda>phys_addr s.
     obind (kfree_frame phys_addr s) (\<lambda>_ s.
       let pd_index = drop_bit 22 virtual_addr; pt_index = drop_bit 12 virtual_addr AND 0x03FF;
           pt = (entry (mem s) dir pd_index AND 0xFFFFF000) + KERNEL_VIRTUAL_BASE
       in Done () (s\<lparr>mem := set_entry pt pt_index 0 (mem s), next_free_page := virtual_addr\<rparr>)))"

definition alloc_page_table ::
    "u32 \<Rightarrow> u32 \<Rightarrow> u32 \<Rightarrow> 'a paging_scheme \<Rightarrow> ('a paging_scheme, u32) outcome" where
  "alloc_page_table dir virtual_addr flags s =
     (if entry (mem s) dir (drop_bit 22 virtual_addr) = 0
      then obind (kalloc_frame s) (\<lambda>frame s.
             let m = set_entry dir (drop_bit 22 virtual_addr) (frame OR flags) (mem s)
             in Done virtual_addr (s\<lparr>mem := memset m (frame OR KERNEL_VIRTUAL_BASE) 0 4096\<rparr>))
      else Done virtual_addr s)"

section \<open>Table entries\<close>

definition page_aligned :: "u32 \<Rightarrow> bool" where
  "page_aligned a \<longleftrightarrow> a AND 0xFFF = 0"

lemma mask12: "(0xFFF :: u32) = mask 12"
  by (simp add: mask_eq_exp_minus_1)

lemma page_aligned_unat: "page_aligned a \<longleftrightarrow> unat a mod 4096 = 0"
proof -
  have "a AND 0xFFF = take_bit 12 a" by (simp add: take_bit_eq_mask mask12)
  then show ?thesis by (simp add: page_aligned_def word_unat_eq_iff word_nat)
qed

lemma entry_addr_unat:
  assumes "page_aligned t" and "i < 1024"
  shows "unat (t + 4 * i) = unat t + 4 * unat i" and "unat t + 4096 \<le> 2 ^ 32"
proof -
  have t: "unat t mod 4096 = 0" and i: "unat i < 1024"
    using assms by (simp_all add: page_aligned_unat word_less_nat_alt)
  from t obtain p where p: "unat t = 4096 * p" by (auto simp: mod_eq_0_iff_dvd elim: dvdE)
  then have "p < 2 ^ 20" using unat_u32_less [of t] by simp
  with p show bound: "unat t + 4096 \<le> 2 ^ 32" by simp
  have "unat (4 * i) = 4 * unat i" using i by (simp add: unat_word_ariths)
  then show "unat (t + 4 * i) = unat t + 4 * unat i"
    using bound i by (simp add: unat_word_ariths)
qed

lemma pages_apart:
  assumes "page_aligned t" "page_aligned u" "t \<noteq> u" "i < 1024" "j < 1024"
  shows "apart 4 (t + 4 * i) (u + 4 * j)"
proof -
  have ij: "unat i < 1024" "unat j < 1024" using assms(4,5) by (simp_all add: word_less_nat_alt)
  have "unat t mod 4096 = 0" "unat u mod 4096 = 0" "unat t \<noteq> unat u"
    using assms by (simp_all add: page_aligned_unat word_unat_eq_iff)
  then have sep: "unat t + 4096 \<le> unat u \<or> unat u + 4096 \<le> unat t"
    by (auto simp: mod_eq_0_iff_dvd elim!: dvdE)
  show ?thesis
    using apart_unat [of "t + 4 * i" 4 "u + 4 * j"] apart_unat [of "u + 4 * j" 4 "t + 4 * i"]
      entry_addr_unat [OF assms(1,4)] entry_addr_unat [OF assms(2,5)] sep ij by auto
qed

lemma entry_set_entry [simp]:
  "i < 1024 \<Longrightarrow> j < 1024 \<Longrightarrow> entry (set_entry t i v m) t j = (if i = j then v else entry m t j)"
  using u32_array.get_put [of i j m t v] by (simp add: entry_def set_entry_def)

lemma entry_set_entry_other [simp]:
  "page_aligned t \<Longrightarrow> page_aligned u \<Longrightarrow> t \<noteq> u \<Longrightarrow> i < 1024 \<Longrightarrow> j < 1024 \<Longrightarrow>
    entry (set_entry t i v m) u j = entry m u j"
  by (simp add: entry_def set_entry_def rd32_wr32_apart pages_apart)

lemma fill_entries:
  assumes "n \<le> 1024" and "j < 1024"
  shows "entry (fold (\<lambda>i. set_entry t (of_nat i) (f i)) [0..<n] m) t j =
    (if unat j < n then f (unat j) else entry m t j)"
  using assms(1)
proof (induction n)
  case 0
  then show ?case by simp
next
  case (Suc n)
  have n: "of_nat n < (1024 :: u32)" "unat (of_nat n :: u32) = n"
    using Suc.prems by (simp_all add: word_less_nat_alt unat_of_nat)
  then have "of_nat n = j \<longleftrightarrow> unat j = n" by auto
  with Suc n assms(2) show ?case by auto
qed

lemma fill_entries_other:
  assumes "page_aligned t" "page_aligned u" "t \<noteq> u" "n \<le> 1024" "j < 1024"
  shows "entry (fold (\<lambda>i. set_entry t (of_nat i) (f i)) [0..<n] m) u j = entry m u j"
  using assms(4)
proof (induction n)
  case (Suc n)
  have "of_nat n < (1024 :: u32)" using Suc.prems by (simp add: word_less_nat_alt unat_of_nat)
  with Suc assms show ?case by simp
qed simp

section \<open>Translation of kernel addresses\<close>

lemma mask12_compl: "(0xFFFFF000 :: u32) = NOT 0xFFF"
  by simp

lemma page_flags:
  assumes "page_aligned a"
  shows "(a OR 3 OR 4) AND NOT 0xFFF = a" and "PAGE_PRESENT (a OR 3 OR 4)"
proof -
  have bits: "\<not> bit a n" if "n < 12" for n
  proof -
    have "bit (a AND mask 12) n = bit (0 :: u32) n"
      using assms unfolding page_aligned_def mask12 by simp
    then show ?thesis using that by (simp add: bit_simps)
  qed
  have seven: "3 OR 4 = (mask 3 :: u32)" by (simp add: mask_eq_exp_minus_1)
  show "(a OR 3 OR 4) AND NOT 0xFFF = a"
    unfolding mask12 seven by (rule bit_word_eqI) (use bits in \<open>auto simp: bit_simps\<close>)
  have "bit ((a OR 3 OR 4) AND 1) 0" by (simp add: bit_simps)
  then show "PAGE_PRESENT (a OR 3 OR 4)"
    unfolding PAGE_PRESENT_def by (auto dest: arg_cong [of _ _ "\<lambda>w. bit w 0"])
qed

lemma kernel_addr_split:
  assumes "d < 0x400000"
  shows "drop_bit 22 (KERNEL_VIRTUAL_BASE + d) = KERNEL_PAGE_NUMBER"
    and "drop_bit 12 (KERNEL_VIRTUAL_BASE + d) AND 0x03FF = d div 0x1000"
    and "(KERNEL_VIRTUAL_BASE + d) AND 0xFFF = d AND 0xFFF"
proof -
  have d: "unat d < 4194304" using assms by (simp add: word_less_nat_alt)
  then have u: "unat (KERNEL_VIRTUAL_BASE + d) = 3221225472 + unat d"
    by (simp add: KERNEL_VIRTUAL_BASE_def unat_word_ariths)
  have "(3221225472 + unat d) div 4194304 = 768" using d by simp
  then show "drop_bit 22 (KERNEL_VIRTUAL_BASE + d) = KERNEL_PAGE_NUMBER"
    by (simp only: word_unat_eq_iff KERNEL_PAGE_NUMBER_def unat_drop_bit_div u)
      (simp add: KERNEL_VIRTUAL_BASE_def)
  have m10: "x AND 0x03FF = take_bit 10 x" for x :: u32
    by (simp add: take_bit_eq_mask mask_eq_exp_minus_1)
  have m12: "x AND 0xFFF = take_bit 12 x" for x :: u32
    by (simp add: take_bit_eq_mask mask12)
  have "unat d div 4096 < 1024" using d by (simp add: less_mult_imp_div_less)
  moreover have "(unat d + 786432 * 4096) div 4096 = 786432 + unat d div 4096"
    by (rule div_mult_self1) simp
  moreover have "(unat d div 4096 + 768 * 1024) mod 1024 = unat d div 4096 mod 1024"
    by (rule mod_mult_self1)
  ultimately have "(3221225472 + unat d) div 4096 mod 1024 = unat d div 4096"
    by (simp add: add.commute)
  then show "drop_bit 12 (KERNEL_VIRTUAL_BASE + d) AND 0x03FF = d div 0x1000"
    by (simp add: m10 word_unat_eq_iff unat_take_bit_mod unat_drop_bit_div u unat_div)
  have "(unat d + 786432 * 4096) mod 4096 = unat d mod 4096" by (rule mod_mult_self1)
  then have "(3221225472 + unat d) mod 4096 = unat d mod 4096" by (simp add: add.commute)
  then show "(KERNEL_VIRTUAL_BASE + d) AND 0xFFF = d AND 0xFFF"
    by (simp only: m12 word_unat_eq_iff unat_take_bit_mod u) simp
qed

text \<open>The two tables are page-aligned and different; the directory maps the kernel's 4 MiB.\<close>

definition tables_ok :: "'a paging_scheme \<Rightarrow> bool" where
  "tables_ok s \<longleftrightarrow> page_aligned (kernel_page_dir s) \<and> page_aligned (first_page_table s) \<and>
     kernel_page_dir s \<noteq> first_page_table s"

definition kernel_mapped :: "'a paging_scheme \<Rightarrow> bool" where
  "kernel_mapped s \<longleftrightarrow>
     entry (mem s) (kernel_page_dir s) KERNEL_PAGE_NUMBER =
       (first_page_table s - KERNEL_VIRTUAL_BASE) OR 3 OR 4"

lemma page_aligned_base:
  assumes "page_aligned t"
  shows "page_aligned (t - KERNEL_VIRTUAL_BASE)"
proof -
  obtain p where p: "unat t = 4096 * p"
    using assms by (auto simp: page_aligned_unat mod_eq_0_iff_dvd elim: dvdE)
  have "unat (t - KERNEL_VIRTUAL_BASE) = 4096 * (p - 786432) \<or>
      unat (t - KERNEL_VIRTUAL_BASE) = 4096 * (p + 262144)"
    by (simp add: unat_sub_if' p KERNEL_VIRTUAL_BASE_def diff_mult_distrib2)
  then show ?thesis by (auto simp: page_aligned_unat)
qed

lemma get_phys_addr_kernel:
  assumes "tables_ok s" and "kernel_mapped s" and "d < 0x400000"
  shows "get_phys_addr (kernel_page_dir s) (KERNEL_VIRTUAL_BASE + d) s =
    (let pte = entry (mem s) (first_page_table s) (d div 0x1000)
     in if PAGE_PRESENT pte then Done ((pte AND NOT 0xFFF) + (d AND 0xFFF)) s
        else kpanic ''Page table entry not present'' s)"
proof -
  have al: "page_aligned (first_page_table s - KERNEL_VIRTUAL_BASE)"
    using assms(1) by (simp add: tables_ok_def page_aligned_base)
  show ?thesis
    using assms(2) page_flags [OF al]
    unfolding get_phys_addr_def kernel_addr_split [OF assms(3)] kernel_mapped_def mask12_compl Let_def
    by simp
qed

text \<open>The physical address a kernel page maps to, if it is mapped.\<close>

definition phys :: "'a paging_scheme \<Rightarrow> u32 \<Rightarrow> u32 option" where
  "phys s va = (case get_phys_addr (kernel_page_dir s) va s of Done a _ \<Rightarrow> Some a | _ \<Rightarrow> None)"

lemma phys_kernel:
  assumes "tables_ok s" and "kernel_mapped s" and "d < 0x400000"
  shows "phys s (KERNEL_VIRTUAL_BASE + d) =
    (let pte = entry (mem s) (first_page_table s) (d div 0x1000)
     in if PAGE_PRESENT pte then Some ((pte AND NOT 0xFFF) + (d AND 0xFFF)) else None)"
  by (simp add: phys_def get_phys_addr_kernel [OF assms] kpanic_def Let_def)

lemma page_parts: "(d div 0x1000) * 0x1000 + (d AND 0xFFF) = (d :: u32)"
proof -
  have "d AND 0xFFF = d mod 0x1000"
    by (simp add: mask12 flip: take_bit_eq_mask) (simp add: take_bit_eq_mod)
  then show ?thesis by (simp add: word_mod_div_equality)
qed

lemma page_index_less: "d < 0x400000 \<Longrightarrow> d div 0x1000 < (1024 :: u32)"
  by (simp add: word_less_nat_alt unat_div)

section \<open>Boot\<close>

lemma init_paging_Done:
  assumes tabs: "tables_ok s" and fits: "(end_kernel AND 0x00FFF000) + 0x1000 \<le> 0x400000"
  defines "n \<equiv> unat (((end_kernel AND 0x00FFF000) + 0x1000) div 0x1000)"
  obtains t where "init_paging end_kernel s = Done () t" "tables_ok t" "kernel_mapped t"
    "kernel_page_dir t = kernel_page_dir s"
    "\<And>j. j < 1024 \<Longrightarrow> entry (mem t) (kernel_page_dir s) j =
       (if j = KERNEL_PAGE_NUMBER then (first_page_table s - KERNEL_VIRTUAL_BASE) OR 3 OR 4 else 2)"
    "\<And>j. j < 1024 \<Longrightarrow> entry (mem t) (first_page_table s) j =
       (if unat j < n then (j * 0x1000) OR 3 OR 4 else entry (mem s) (first_page_table s) j)"
    "first_page_table t = first_page_table s"
    "next_free_page t = (end_kernel AND 0x00FFF000) + 0x1000 + KERNEL_VIRTUAL_BASE"
    "frame_map t = frame_map s" "nframes t = nframes s"
proof -
  let ?pd = "kernel_page_dir s" and ?pt = "first_page_table s"
  let ?ff = "(end_kernel AND 0x00FFF000) + 0x1000"
  let ?m1 = "fold (\<lambda>i. set_entry ?pd (of_nat i) 0x00000002) [0..<1024] (mem s)"
  let ?m2 = "fold (\<lambda>i. set_entry ?pt (of_nat i) ((of_nat i * 0x1000) OR 3 OR 4)) [0..<n] ?m1"
  let ?m3 = "set_entry ?pd KERNEL_PAGE_NUMBER ((?pt - KERNEL_VIRTUAL_BASE) OR 3 OR 4) ?m2"
  let ?t = "loadPageDir (?pd - KERNEL_VIRTUAL_BASE)
    (s\<lparr>mem := ?m3, cur_page_table := KERNEL_PAGE_NUMBER\<rparr>)
      \<lparr>next_free_page := ?ff + KERNEL_VIRTUAL_BASE\<rparr>"
  have n: "n \<le> 1024" using fits by (simp add: n_def word_le_nat_alt unat_div div_le_mono)
  have kp: "KERNEL_PAGE_NUMBER < 1024"
    by (simp add: KERNEL_PAGE_NUMBER_def KERNEL_VIRTUAL_BASE_def)
  have run: "init_paging end_kernel s = Done () ?t"
    using n by (simp add: init_paging_def n_def Let_def)
  have mem_t: "mem ?t = ?m3" by (simp add: loadPageDir_def)
  have al: "page_aligned ?pd" "page_aligned ?pt" "?pd \<noteq> ?pt" "?pt \<noteq> ?pd"
    using tabs by (auto simp: tables_ok_def)
  have dir: "entry ?m3 ?pd j =
      (if j = KERNEL_PAGE_NUMBER then (?pt - KERNEL_VIRTUAL_BASE) OR 3 OR 4 else 2)"
    if "j < 1024" for j
    using that kp al n
    by (simp add: fill_entries fill_entries_other word_less_nat_alt)
  have tab: "entry ?m3 ?pt j = (if unat j < n then (j * 0x1000) OR 3 OR 4 else entry (mem s) ?pt j)"
    if "j < 1024" for j
    using that kp al n by (simp add: fill_entries fill_entries_other)
  show thesis
    by (rule that [of ?t])
      (use run dir tab tabs kp mem_t in
        \<open>simp_all add: tables_ok_def kernel_mapped_def loadPageDir_def\<close>)
qed

section \<open>Allocating pages\<close>

lemma find_free_from_cases:
  assumes "i \<le> 1024"
  shows "(\<exists>k. find_free_from i t s = Done (k * 0x1000 + KERNEL_VIRTUAL_BASE) s \<and> i \<le> k \<and> k < 1024 \<and>
            \<not> PAGE_PRESENT (entry (mem s) t k) \<and>
            (\<forall>j. i \<le> j \<and> j < k \<longrightarrow> PAGE_PRESENT (entry (mem s) t j))) \<or>
    (\<forall>k. i \<le> k \<and> k < 1024 \<longrightarrow> PAGE_PRESENT (entry (mem s) t k)) \<and>
      (\<exists>u. find_free_from i t s = Panicked ''Ran out of free pages'' u)"
  using assms
proof (induction i t s rule: find_free_from.induct)
  case (1 i t s)
  show ?case
  proof (cases "i < 1024")
    case False
    then show ?thesis by (auto simp: find_free_from.simps [of i] kpanic_def Let_def)
  next
    case lt: True
    have le: "i + 1 \<le> 1024" using lt unat_Suc_less [OF lt]
      by (simp add: word_le_nat_alt word_less_nat_alt)
    have range: "i \<le> k \<longleftrightarrow> k = i \<or> i + 1 \<le> k" for k
      using unat_Suc_less [OF lt] by (auto simp: word_le_nat_alt word_unat_eq_iff)
    show ?thesis
    proof (cases "PAGE_PRESENT (entry (mem s) t i)")
      case True
      then have "find_free_from i t s = find_free_from (i + 1) t s"
        using lt by (simp add: find_free_from.simps [of i])
      with "1.IH" [OF lt _ le] True show ?thesis by (auto simp: range)
    next
      case False
      then show ?thesis using lt by (auto simp: find_free_from.simps [of i])
    qed
  qed
qed

text \<open>The invariant of the page allocator: the next free page is an unmapped kernel page.\<close>

definition paging_ok :: "'a paging_scheme \<Rightarrow> bool" where
  "paging_ok s \<longleftrightarrow> frames_ok s \<and> tables_ok s \<and> kernel_mapped s \<and>
     (\<exists>i < 1024. next_free_page s = KERNEL_VIRTUAL_BASE + i * 0x1000 \<and>
        \<not> PAGE_PRESENT (entry (mem s) (first_page_table s) i))"

lemma page_addr_div: "i < 1024 \<Longrightarrow> (i * 0x1000) div 0x1000 = (i :: u32)"
  by (rule frame_addr_div) (simp add: word_less_nat_alt)

lemma kalloc_page_Done:
  assumes "paging_ok s" and "kalloc_page s = Done p t"
  obtains i f k where "i < 1024" "p = KERNEL_VIRTUAL_BASE + i * 0x1000"
    "\<not> PAGE_PRESENT (entry (mem s) (first_page_table s) i)"
    "f \<notin> used_frames s" "page_aligned f" "used_frames t = insert f (used_frames s)"
    "frames_ok t" "kernel_page_dir t = kernel_page_dir s" "first_page_table t = first_page_table s"
    "mem t = set_entry (first_page_table s) i (f OR 3 OR 4) (mem s)"
    "k < 1024" "next_free_page t = KERNEL_VIRTUAL_BASE + k * 0x1000"
    "\<not> PAGE_PRESENT (entry (mem t) (first_page_table t) k)"
proof -
  from assms(1) obtain i where i: "i < 1024" "next_free_page s = KERNEL_VIRTUAL_BASE + i * 0x1000"
    "\<not> PAGE_PRESENT (entry (mem s) (first_page_table s) i)" and ok: "frames_ok s"
    by (auto simp: paging_ok_def)
  have idx: "(next_free_page s - KERNEL_VIRTUAL_BASE) div 0x1000 = i"
    using i(1,2) by (simp add: page_addr_div)
  from assms(2) obtain f s1 where f: "kalloc_frame s = Done f s1"
    by (auto simp: kalloc_page_def obind_Done_iff)
  from kalloc_frame_cases [OF ok] f obtain j where s1: "s1 = set_frame j s" by auto
  let ?m = "set_entry (first_page_table s) i (f OR 3 OR 4) (mem s)"
  have same: "next_free_page s1 = next_free_page s" "first_page_table s1 = first_page_table s"
    "kernel_page_dir s1 = kernel_page_dir s" "mem s1 = mem s"
    by (simp_all add: s1 set_frame_def)
  from assms(2) f i(1) idx same obtain q where
    q: "find_free_page (first_page_table s) (s1\<lparr>mem := ?m\<rparr>) = Done q (s1\<lparr>mem := ?m\<rparr>)"
    and p: "p = next_free_page s" and t: "t = s1\<lparr>mem := ?m, next_free_page := q\<rparr>"
    using find_free_from_cases [of 0 "first_page_table s" "s1\<lparr>mem := ?m\<rparr>"]
    by (auto simp: kalloc_page_def obind_Done_iff find_free_page_def Let_def)
  from q find_free_from_cases [of 0 "first_page_table s" "s1\<lparr>mem := ?m\<rparr>"] obtain k
    where k: "k < 1024" "q = k * 0x1000 + KERNEL_VIRTUAL_BASE"
      "\<not> PAGE_PRESENT (entry ?m (first_page_table s) k)"
    by (auto simp: find_free_page_def)
  have used: "used_frames t = used_frames s1" "frames_ok t = frames_ok s1"
    by (simp_all add: t used_frames_def frame_used_def frames_ok_def)
  show thesis
    by (rule that [of i f k])
      (use i p k used same kframes.alloc_fresh [OF ok f] kframes.alloc_used [OF ok f]
        kframes.alloc_ok [OF ok f] kframes.alloc_aligned [OF ok f] in
        \<open>simp_all add: t page_aligned_def add.commute\<close>)
qed

text \<open>The whole effect of a successful allocation on the state.\<close>

lemma kalloc_page_shape:
  assumes "frames_ok s" and "kalloc_page s = Done p t"
  shows "p = next_free_page s \<and> (\<exists>j i v q. i < 1024 \<and>
    t = (set_frame j s)\<lparr>mem := set_entry (first_page_table s) i v (mem s), next_free_page := q\<rparr>)"
proof -
  from assms(2) obtain f s1 where f: "kalloc_frame s = Done f s1"
    by (auto simp: kalloc_page_def obind_Done_iff)
  from kalloc_frame_cases [OF assms(1)] f obtain j where s1: "s1 = set_frame j s" by auto
  define i where "i = (next_free_page s - KERNEL_VIRTUAL_BASE) div 0x1000"
  have i: "i < 1024" using assms(2) f by (auto simp: kalloc_page_def obind_Done_iff s1 set_frame_def i_def Let_def split: if_splits)
  let ?u = "s1\<lparr>mem := set_entry (first_page_table s) i (f OR 3 OR 4) (mem s)\<rparr>"
  have "obind (find_free_page (first_page_table s) ?u) (\<lambda>p u. Done (next_free_page s) (u\<lparr>next_free_page := p\<rparr>)) = Done p t"
    using assms(2) f i by (simp add: kalloc_page_def s1 set_frame_def Let_def flip: i_def)
  then obtain q where "p = next_free_page s" "t = ?u\<lparr>next_free_page := q\<rparr>"
    using find_free_from_cases [of 0 "first_page_table s" ?u] by (auto simp: obind_Done_iff find_free_page_def)
  then show ?thesis using i s1 by auto
qed

lemma kalloc_page_succeeds:
  assumes "frames_ok s" and "j < nframes s" "scan_free s j"
    and "(next_free_page s - KERNEL_VIRTUAL_BASE) div 0x1000 < 1024"
    and "k < 1024" "k \<noteq> (next_free_page s - KERNEL_VIRTUAL_BASE) div 0x1000"
      "\<not> PAGE_PRESENT (entry (mem s) (first_page_table s) k)"
  shows "\<exists>t. kalloc_page s = Done (next_free_page s) t"
proof -
  obtain i where i: "kalloc_frame s = Done (i * 0x1000) (set_frame i s)"
    using kalloc_frame_cases [OF assms(1)] assms(2,3) by blast
  let ?u = "(set_frame i s)\<lparr>mem := set_entry (first_page_table s) ((next_free_page s - KERNEL_VIRTUAL_BASE) div 0x1000)
    (i * 0x1000 OR 3 OR 4) (mem s)\<rparr>"
  have "\<not> PAGE_PRESENT (entry (mem ?u) (first_page_table s) k)" using assms(4-7) by simp
  then obtain q where "find_free_page (first_page_table s) ?u = Done q ?u"
    using find_free_from_cases [of 0 "first_page_table s" ?u] assms(5) by (auto simp: find_free_page_def)
  then show ?thesis using i assms(4) by (simp add: kalloc_page_def set_frame_def Let_def)
qed

lemma kalloc_page_ok:
  assumes "paging_ok s" and "kalloc_page s = Done p t"
  shows "paging_ok t"
  by (rule kalloc_page_Done [OF assms])
    (use assms(1) in \<open>auto simp: paging_ok_def tables_ok_def kernel_mapped_def
      KERNEL_PAGE_NUMBER_def KERNEL_VIRTUAL_BASE_def\<close>)

lemma page_offset:
  fixes i off :: u32
  assumes "i < 1024" and "off < 0x1000"
  shows "i * 0x1000 + off < 0x400000" and "(i * 0x1000 + off) div 0x1000 = i"
    and "(i * 0x1000 + off) AND 0xFFF = off"
proof -
  have i: "unat i < 1024" and off: "unat off < 4096" using assms by (simp_all add: word_less_nat_alt)
  have "unat (i * 0x1000) = unat i * 4096" using i by (simp add: unat_word_ariths)
  then have u: "unat (i * 0x1000 + off) = unat i * 4096 + unat off"
    using i off by (simp add: unat_word_ariths)
  show "i * 0x1000 + off < 0x400000" using u i off by (simp add: word_less_nat_alt)
  show d: "(i * 0x1000 + off) div 0x1000 = i"
    using u off by (simp add: word_unat_eq_iff unat_div)
  have "(i * 0x1000 + off) div 0x1000 * 0x1000 + ((i * 0x1000 + off) AND 0xFFF) = i * 0x1000 + off"
    by (rule page_parts)
  then show "(i * 0x1000 + off) AND 0xFFF = off" unfolding d by (rule add_left_imp_eq)
qed

text \<open>
  Boot leaves the page table and the frame map filled from the bottom. In that situation the
  allocator hands out the next page and the next frame.
\<close>

definition pages_prefix :: "u32 \<Rightarrow> 'a paging_scheme \<Rightarrow> bool" where
  "pages_prefix k s \<longleftrightarrow> next_free_page s = KERNEL_VIRTUAL_BASE + k * 0x1000 \<and>
     (\<forall>j < 1024. PAGE_PRESENT (entry (mem s) (first_page_table s) j) \<longleftrightarrow> j < k)"

lemma present_prefix:
  assumes "pages_prefix k s" and "k < 1024" and "j < 1024"
  shows "PAGE_PRESENT (entry (set_entry (first_page_table s) k ((f * 0x1000) OR 3 OR 4) (mem s)) (first_page_table s) j) \<longleftrightarrow> j < k + 1"
proof -
  have "j < k + 1 \<longleftrightarrow> j = k \<or> j < k"
    using unat_Suc_less [OF assms(2)] by (auto simp: word_less_nat_alt word_unat_eq_iff)
  then show ?thesis
    using assms page_flags(2) [of "f * 0x1000"]
    by (auto simp: pages_prefix_def page_aligned_def frame_addr_aligned)
qed

lemma kalloc_page_prefix_eq:
  assumes ok: "frames_ok s" and pages: "pages_prefix k s" and k: "k + 1 < 1024" "k < 1024"
    and fr: "prefix_used f s" "f < nframes s"
  shows "kalloc_page s = Done (KERNEL_VIRTUAL_BASE + k * 0x1000) ((set_frame f s)
    \<lparr>mem := set_entry (first_page_table s) k ((f * 0x1000) OR 3 OR 4) (mem s), next_free_page := KERNEL_VIRTUAL_BASE + (k + 1) * 0x1000\<rparr>)"
proof -
  let ?pt = "first_page_table s" and ?s1 = "set_frame f s"
  let ?m = "set_entry ?pt k ((f * 0x1000) OR 3 OR 4) (mem s)"
  note alloc = kalloc_frame_prefix [OF ok fr]
  have idx: "(next_free_page s - KERNEL_VIRTUAL_BASE) div 0x1000 = k"
    using pages k(2) by (simp add: pages_prefix_def page_addr_div)
  have same: "next_free_page ?s1 = next_free_page s" "first_page_table ?s1 = ?pt" "mem ?s1 = mem s"
    by (simp_all add: set_frame_def)
  note present = present_prefix [OF pages k(2)]
  obtain q where q: "find_free_from 0 ?pt (?s1\<lparr>mem := ?m\<rparr>) =
      Done (q * 0x1000 + KERNEL_VIRTUAL_BASE) (?s1\<lparr>mem := ?m\<rparr>)"
    "q < 1024" "\<not> PAGE_PRESENT (entry ?m ?pt q)" "\<forall>j < q. PAGE_PRESENT (entry ?m ?pt j)"
    using find_free_from_cases [of 0 ?pt "?s1\<lparr>mem := ?m\<rparr>"] present [OF k(1)] k(1) by auto
  have "q = k + 1"
  proof (rule linorder_cases [of q "k + 1"])
    assume "q < k + 1" then show ?thesis using q(2,3) present by blast
  next
    assume "k + 1 < q" then show ?thesis using q(4) present [OF k(1)] by blast
  qed
  then show ?thesis
    using alloc(1) idx same k(2) q(1) pages
    by (simp add: kalloc_page_def find_free_page_def pages_prefix_def Let_def add.commute)
qed

lemma kalloc_page_prefix:
  assumes ok: "frames_ok s" and pages: "pages_prefix k s" and k: "k + 1 < 1024" "k < 1024"
    and fr: "prefix_used f s" "f < nframes s"
  shows "\<exists>t. kalloc_page s = Done (KERNEL_VIRTUAL_BASE + k * 0x1000) t \<and> pages_prefix (k + 1) t \<and>
    prefix_used (f + 1) t \<and> frames_ok t \<and> nframes t = nframes s"
  using kalloc_page_prefix_eq [OF assms] kalloc_frame_prefix(2) [OF ok fr] present_prefix [OF pages k(2)] ok
  by (auto simp: pages_prefix_def prefix_used_def frame_used_def frames_ok_def set_frame_def)

lemma kalloc_pages_contiguous:
  assumes "frames_ok s" and "pages_prefix k s" and "prefix_used f s"
    and "unat k + n < 1024" and "unat f + n \<le> unat (nframes s)"
  shows "\<exists>t. repeat_alloc kalloc_page n s =
      Done (map (\<lambda>i. KERNEL_VIRTUAL_BASE + (k + of_nat i) * 0x1000) [0..<n]) t \<and>
    pages_prefix (k + of_nat n) t \<and> prefix_used (f + of_nat n) t"
  using assms
proof (induction n arbitrary: k f s)
  case 0
  then show ?case by simp
next
  case (Suc n)
  have k: "k < 1024" using Suc.prems(4) by (simp add: word_less_nat_alt)
  have k1: "k + 1 < 1024" using Suc.prems(4) unat_Suc_less [OF k] by (simp add: word_less_nat_alt)
  have f: "f < nframes s" using Suc.prems(5) by (simp add: word_less_nat_alt)
  from kalloc_page_prefix [OF Suc.prems(1,2) k1 k Suc.prems(3) f] obtain u
    where u: "kalloc_page s = Done (KERNEL_VIRTUAL_BASE + k * 0x1000) u" "pages_prefix (k + 1) u"
      "prefix_used (f + 1) u" "frames_ok u" "nframes u = nframes s" by blast
  from Suc.IH [OF u(4,2,3)] Suc.prems(4,5) u(5) unat_Suc_less [OF k] unat_Suc_less [OF f]
  obtain t where t: "repeat_alloc kalloc_page n u =
      Done (map (\<lambda>i. KERNEL_VIRTUAL_BASE + (k + 1 + of_nat i) * 0x1000) [0..<n]) t"
    "pages_prefix (k + 1 + of_nat n) t" "prefix_used (f + 1 + of_nat n) t" by auto
  have "map (\<lambda>i. KERNEL_VIRTUAL_BASE + (k + of_nat i) * 0x1000) [0..<Suc n] =
      (KERNEL_VIRTUAL_BASE + k * 0x1000) #
        map (\<lambda>i. KERNEL_VIRTUAL_BASE + (k + 1 + of_nat i) * 0x1000) [0..<n]"
    by (simp add: map_upt_Suc add.assoc del: upt_Suc)
  then show ?case using u(1) t by (simp add: add.assoc del: upt_Suc)
qed

lemma init_paging_prefix:
  assumes "tables_ok s" and "frames_ok s" and "prefix_used f s"
    and k: "k = ((end_kernel AND 0x00FFF000) + 0x1000) div 0x1000"
      "(end_kernel AND 0x00FFF000) + 0x1000 \<le> 0x400000"
    and clear: "\<forall>j < 1024. k \<le> j \<longrightarrow> \<not> PAGE_PRESENT (entry (mem s) (first_page_table s) j)"
  obtains t where "init_paging end_kernel s = Done () t" "pages_prefix k t" "prefix_used f t"
    "frames_ok t" "nframes t = nframes s" "tables_ok t" "kernel_mapped t"
    "kernel_page_dir t = kernel_page_dir s" "first_page_table t = first_page_table s"
proof -
  let ?ff = "(end_kernel AND 0x00FFF000) + 0x1000"
  from assms(1) k(2) obtain t where run: "init_paging end_kernel s = Done () t"
    and tabs: "tables_ok t" "kernel_mapped t"
    and tab: "\<And>j. j < 1024 \<Longrightarrow> entry (mem t) (first_page_table s) j =
       (if unat j < unat (?ff div 0x1000) then (j * 0x1000) OR 3 OR 4
        else entry (mem s) (first_page_table s) j)"
    and same: "first_page_table t = first_page_table s"
      "next_free_page t = ?ff + KERNEL_VIRTUAL_BASE"
      "frame_map t = frame_map s" "nframes t = nframes s" "kernel_page_dir t = kernel_page_dir s"
    by (rule init_paging_Done) blast
  have "(end_kernel AND 0x00FFF000) AND 0xFFF = 0" by (simp add: and.assoc)
  then have "?ff AND 0xFFF = 0"
    using page_parts [of "end_kernel AND 0x00FFF000"]
      frame_addr_aligned [of "(end_kernel AND 0x00FFF000) div 0x1000 + 1"]
    by (simp add: distrib_right)
  then have ff: "k * 0x1000 = ?ff" using page_parts [of ?ff] k(1) by simp
  have "pages_prefix k t"
    using tab clear same ff page_flags(2) [of "j * 0x1000" for j] k(1)
    by (auto simp: pages_prefix_def page_aligned_def frame_addr_aligned word_less_nat_alt
        word_le_nat_alt add.commute not_less)
  moreover have "prefix_used f t" "frames_ok t"
    using assms(2,3) same by (simp_all add: prefix_used_def frame_used_def frames_ok_def)
  ultimately show thesis by (intro that [OF run _ _ _ same(4) tabs same(5,1)])
qed

text \<open>A concrete boot state: 4 MiB of memory, all tables clear.\<close>

definition boot_paging :: "u32 \<Rightarrow> paging" where
  "boot_paging n = frames.extend (boot_frames n)
     (paging.fields 0xC0101000 0xC0102000 0 0 0)"

lemma boot_paging_ok:
  "tables_ok (boot_paging 1024)" "frames_ok (boot_paging 1024)" "prefix_used 0 (boot_paging 1024)"
  "nframes (boot_paging 1024) = 1024"
  "\<not> PAGE_PRESENT (entry (mem (boot_paging 1024)) (first_page_table (boot_paging 1024)) j)"
  by (simp_all add: tables_ok_def page_aligned_def frames_ok_def prefix_used_def frame_used_def
      PAGE_PRESENT_def entry_def rd32_def boot_paging_def frames.extend_def paging.fields_def
      boot_frames_def)

lemma boot_kernel_end:
  "0x113 = ((0xC0112345 AND 0x00FFF000) + 0x1000) div (0x1000 :: u32)"
  "(0xC0112345 AND 0x00FFF000) + 0x1000 \<le> (0x400000 :: u32)"
  by simp_all

lemma boot_paging_run:
  obtains t where "init_paging 0xC0112345 (boot_paging 1024) = Done () t" "pages_prefix 0x113 t"
    "prefix_used 0 t" "frames_ok t" "nframes t = 1024" "paging_ok t"
proof -
  have "\<forall>j < 1024. 0x113 \<le> j \<longrightarrow>
      \<not> PAGE_PRESENT (entry (mem (boot_paging 1024)) (first_page_table (boot_paging 1024)) j)"
    using boot_paging_ok(5) by blast
  then obtain t where t: "init_paging 0xC0112345 (boot_paging 1024) = Done () t"
    "pages_prefix 0x113 t" "prefix_used 0 t" "frames_ok t" "nframes t = nframes (boot_paging 1024)"
    "tables_ok t" "kernel_mapped t"
    by (rule init_paging_prefix [OF boot_paging_ok(1-3) boot_kernel_end])
  moreover from t(2) have "\<exists>i < 1024. next_free_page t = KERNEL_VIRTUAL_BASE + i * 0x1000 \<and>
      \<not> PAGE_PRESENT (entry (mem t) (first_page_table t) i)"
    by (intro exI [of _ "0x113"]) (simp add: pages_prefix_def)
  ultimately show thesis using that by (simp add: paging_ok_def boot_paging_ok(4))
qed

section \<open>Properties\<close>

text \<open>C20: when the kernel ends below 4 MiB, \<^verbatim>\<open>init_paging\<close> maps every kernel address up to
  the first free page to the physical address 0xC0000000 below it, marks every other directory
  entry not present, and sets the next free page to the first unmapped one.\<close>

theorem init_paging_maps_kernel:
  assumes "tables_ok s" and "(end_kernel AND 0x00FFF000) + 0x1000 \<le> 0x400000"
  shows "\<exists>t. init_paging end_kernel s = Done () t \<and>
    (\<forall>d < (end_kernel AND 0x00FFF000) + 0x1000. phys t (KERNEL_VIRTUAL_BASE + d) = Some d) \<and>
    (\<forall>j < 1024. j \<noteq> 768 \<longrightarrow> \<not> PAGE_PRESENT (entry (mem t) (kernel_page_dir s) j)) \<and>
    next_free_page t = KERNEL_VIRTUAL_BASE + ((end_kernel AND 0x00FFF000) + 0x1000)"
proof -
  let ?ff = "(end_kernel AND 0x00FFF000) + 0x1000"
  from assms obtain t where run: "init_paging end_kernel s = Done () t"
    and ok: "tables_ok t" "kernel_mapped t"
    and dir: "\<And>j. j < 1024 \<Longrightarrow> entry (mem t) (kernel_page_dir s) j =
       (if j = KERNEL_PAGE_NUMBER then (first_page_table s - KERNEL_VIRTUAL_BASE) OR 3 OR 4 else 2)"
    and tab: "\<And>j. j < 1024 \<Longrightarrow> entry (mem t) (first_page_table s) j =
       (if unat j < unat (?ff div 0x1000) then (j * 0x1000) OR 3 OR 4
        else entry (mem s) (first_page_table s) j)"
    and same: "first_page_table t = first_page_table s"
      "next_free_page t = ?ff + KERNEL_VIRTUAL_BASE"
    by (rule init_paging_Done) blast
  have "phys t (KERNEL_VIRTUAL_BASE + d) = Some d" if d: "d < ?ff" for d
  proof -
    have d4: "d < 0x400000" using d assms(2) by simp
    have "unat d < unat ?ff" using d by (simp add: word_less_nat_alt)
    moreover have "unat ?ff mod 4096 = 0"
    proof -
      have "(end_kernel AND 0x00FFF000) AND 0xFFF = 0"
        by (simp add: and.assoc)
      then have "unat (end_kernel AND 0x00FFF000) mod 4096 = 0"
        by (simp flip: page_aligned_unat add: page_aligned_def)
      then show ?thesis by (simp add: unat_word_ariths mod_mod_cancel mod_add_eq)
    qed
    ultimately have "unat d div 4096 < unat ?ff div 4096"
      by (metis div_less_iff_less_mult mod_0_imp_dvd dvd_div_mult_self zero_less_numeral)
    then have "entry (mem t) (first_page_table s) (d div 0x1000) = ((d div 0x1000) * 0x1000) OR 3 OR 4"
      using tab [OF page_index_less [OF d4]] by (simp add: unat_div)
    then show ?thesis
      using phys_kernel [OF ok d4] page_flags [of "(d div 0x1000) * 0x1000"]
      by (simp add: same page_aligned_def frame_addr_aligned page_parts)
  qed
  moreover have "\<not> PAGE_PRESENT (entry (mem t) (kernel_page_dir s) j)" if "j < 1024" "j \<noteq> 768" for j
    using dir [OF that(1)] that(2)
    by (simp add: KERNEL_PAGE_NUMBER_def KERNEL_VIRTUAL_BASE_def PAGE_PRESENT_def)
  ultimately show ?thesis using run same by (auto simp: add.commute)
qed

theorem init_paging_maps_kernel_witness:
  "\<exists>t. init_paging 0xC0112345 (boot_paging 1024) = Done () t \<and>
     phys t 0xC0112345 = Some 0x112345 \<and> next_free_page t = 0xC0113000"
  using init_paging_maps_kernel [OF boot_paging_ok(1) boot_kernel_end(2)]
  by (auto simp: KERNEL_VIRTUAL_BASE_def dest: spec [of _ "0x112345"])

text \<open>C11: a page returned by \<^verbatim>\<open>kalloc_page\<close> was unmapped before and is mapped, at every
  offset, to a frame that was free before and is now the only newly used one; no other kernel
  page changes its translation, and the allocator's invariant still holds.\<close>

theorem kalloc_page_maps_fresh_frame:
  assumes "paging_ok s" and "kalloc_page s = Done p t"
  shows "paging_ok t \<and> (\<exists>f. f \<notin> used_frames s \<and> used_frames t = insert f (used_frames s) \<and>
    (\<forall>off < 0x1000. phys s (p + off) = None \<and> phys t (p + off) = Some (f + off)) \<and>
    (\<forall>d < 0x400000. d div 0x1000 \<noteq> (p - KERNEL_VIRTUAL_BASE) div 0x1000 \<longrightarrow>
       phys t (KERNEL_VIRTUAL_BASE + d) = phys s (KERNEL_VIRTUAL_BASE + d)))"
proof -
  obtain i f k where i: "i < 1024" "p = KERNEL_VIRTUAL_BASE + i * 0x1000"
      "\<not> PAGE_PRESENT (entry (mem s) (first_page_table s) i)"
    and f: "f \<notin> used_frames s" "page_aligned f" "used_frames t = insert f (used_frames s)"
    and t: "first_page_table t = first_page_table s"
      "mem t = set_entry (first_page_table s) i (f OR 3 OR 4) (mem s)"
    by (rule kalloc_page_Done [OF assms]) blast
  have ok: "paging_ok t" by (rule kalloc_page_ok [OF assms])
  have tr: "tables_ok s" "kernel_mapped s" "tables_ok t" "kernel_mapped t"
    using assms(1) ok by (simp_all add: paging_ok_def)
  have "phys s (p + off) = None \<and> phys t (p + off) = Some (f + off)" if "off < 0x1000" for off
  proof -
    note o = page_offset [OF i(1) that]
    show ?thesis
      using phys_kernel [OF tr(1,2) o(1)] phys_kernel [OF tr(3,4) o(1)] i t page_flags [OF f(2)]
      by (simp add: o(2,3) add.assoc)
  qed
  moreover have "phys t (KERNEL_VIRTUAL_BASE + d) = phys s (KERNEL_VIRTUAL_BASE + d)"
    if "d < 0x400000" "d div 0x1000 \<noteq> (p - KERNEL_VIRTUAL_BASE) div 0x1000" for d
    using that phys_kernel [OF tr(1,2) that(1)] phys_kernel [OF tr(3,4) that(1)] i t
      page_index_less [OF that(1)] by (auto simp: page_addr_div)
  ultimately show ?thesis using ok f by blast
qed

theorem kalloc_page_maps_fresh_frame_witness:
  "\<exists>s p t f. init_paging 0xC0112345 (boot_paging 1024) = Done () s \<and> kalloc_page s = Done p t \<and>
     paging_ok t \<and> f \<notin> used_frames s \<and> phys s p = None \<and> phys t p = Some f"
proof -
  obtain s where s: "init_paging 0xC0112345 (boot_paging 1024) = Done () s" "pages_prefix 0x113 s"
    "prefix_used 0 s" "frames_ok s" "nframes s = 1024" "paging_ok s"
    by (rule boot_paging_run)
  then obtain p t where t: "kalloc_page s = Done p t"
    using kalloc_page_prefix [OF s(4,2) _ _ s(3)] by auto
  have "(0 :: u32) < 0x1000" by simp
  with kalloc_page_maps_fresh_frame [OF s(6) t] s(1) t show ?thesis by (metis add_0_right)
qed

text \<open>From the state \<^verbatim>\<open>init_paging\<close> leaves (on a page table and frame map that were
  clear above the kernel), successive \<^verbatim>\<open>kalloc_page\<close> calls succeed and return consecutive
  pages starting right after the kernel: the contiguous region that \<^verbatim>\<open>kernel_main\<close> passes to
  \<^verbatim>\<open>kheap_init\<close>.\<close>

theorem boot_pages_contiguous:
  assumes "tables_ok s" and "frames_ok s" and "prefix_used f s"
    and k: "k = ((end_kernel AND 0x00FFF000) + 0x1000) div 0x1000"
      "(end_kernel AND 0x00FFF000) + 0x1000 \<le> 0x400000"
    and clear: "\<forall>j < 1024. k \<le> j \<longrightarrow> \<not> PAGE_PRESENT (entry (mem s) (first_page_table s) j)"
    and room: "unat k + n < 1024" "unat f + n \<le> unat (nframes s)"
  shows "\<exists>t u. init_paging end_kernel s = Done () t \<and> repeat_alloc kalloc_page n t =
    Done (map (\<lambda>i. KERNEL_VIRTUAL_BASE + (k + of_nat i) * 0x1000) [0..<n]) u"
proof -
  obtain t where t: "init_paging end_kernel s = Done () t" "pages_prefix k t" "prefix_used f t"
    "frames_ok t" "nframes t = nframes s"
    by (rule init_paging_prefix [OF assms(1-6)])
  with kalloc_pages_contiguous [of t k f n] room show ?thesis by auto
qed

theorem boot_pages_contiguous_witness:
  "\<exists>t u. init_paging 0xC0112345 (boot_paging 1024) = Done () t \<and>
     repeat_alloc kalloc_page 2 t = Done [0xC0113000, 0xC0114000] u"
proof -
  have clear: "\<forall>j < 1024. 0x113 \<le> j \<longrightarrow>
      \<not> PAGE_PRESENT (entry (mem (boot_paging 1024)) (first_page_table (boot_paging 1024)) j)"
    using boot_paging_ok(5) by blast
  have room: "unat (0x113 :: u32) + 2 < 1024"
    "unat (0 :: u32) + 2 \<le> unat (nframes (boot_paging 1024))"
    by (simp_all add: boot_paging_ok(4))
  have "map (\<lambda>i. KERNEL_VIRTUAL_BASE + (0x113 + of_nat i) * 0x1000) [0..<2] =
      [0xC0113000, 0xC0114000]"
    by (simp add: upt_rec KERNEL_VIRTUAL_BASE_def)
  with boot_pages_contiguous [OF boot_paging_ok(1-3) boot_kernel_end clear room]
  show ?thesis by metis
qed

text \<open>On any page directory prepared by \<^verbatim>\<open>init_paging\<close>, \<^verbatim>\<open>alloc_page_table\<close> does
  nothing: it tests a directory entry for 0, but the entries without a page table hold 2.\<close>

theorem alloc_page_table_never_allocates:
  assumes "tables_ok s" and "(end_kernel AND 0x00FFF000) + 0x1000 \<le> 0x400000"
    and "init_paging end_kernel s = Done () t"
  shows "alloc_page_table (kernel_page_dir s) virtual_addr flags t = Done virtual_addr t"
proof -
  have i: "drop_bit 22 virtual_addr < 1024"
    using unat_u32_less [of virtual_addr] by (simp add: word_less_nat_alt word_nat)
  have "PAGE_PRESENT ((first_page_table s - KERNEL_VIRTUAL_BASE) OR 3 OR 4)"
    using assms(1) by (intro page_flags(2) page_aligned_base) (simp add: tables_ok_def)
  then have "(first_page_table s - KERNEL_VIRTUAL_BASE) OR 3 OR 4 \<noteq> 0"
    by (auto simp: PAGE_PRESENT_def)
  moreover obtain u where "init_paging end_kernel s = Done () u"
    and "\<And>j. j < 1024 \<Longrightarrow> entry (mem u) (kernel_page_dir s) j =
       (if j = KERNEL_PAGE_NUMBER then (first_page_table s - KERNEL_VIRTUAL_BASE) OR 3 OR 4 else 2)"
    by (rule init_paging_Done [OF assms(1,2)]) blast
  ultimately have "entry (mem t) (kernel_page_dir s) (drop_bit 22 virtual_addr) \<noteq> 0"
    using assms(3) i by simp
  then show ?thesis by (simp add: alloc_page_table_def)
qed

theorem alloc_page_table_never_allocates_witness:
  "\<exists>t. init_paging 0xC0112345 (boot_paging 1024) = Done () t \<and>
     alloc_page_table (kernel_page_dir (boot_paging 1024)) 0x400000 7 t = Done 0x400000 t"
proof -
  obtain t where t: "init_paging 0xC0112345 (boot_paging 1024) = Done () t"
    by (rule boot_paging_run)
  with alloc_page_table_never_allocates [OF boot_paging_ok(1) boot_kernel_end(2) t]
  show ?thesis by blast
qed

end
