(* ===== verification/Heap.thy ===== *)
theory Heap
  imports Paging
begin

unbundle bit_operations_syntax

text \<open>
  The kernel heap, \<^verbatim>\<open>src/mm/heap.c\<close>. Block headers (\<^verbatim>\<open>struct mem_block\<close>: \<^verbatim>\<open>used\<close> at
  offset 0, \<^verbatim>\<open>prev\<close> at 4, \<^verbatim>\<open>next\<close> at 8, \<^verbatim>\<open>size\<close> at 12) live in byte memory, so headers
  that the code places over payload bytes or over other headers really overlap. The abstract view
  of the heap is the list of its blocks in address order; the lemmas show that \<^verbatim>\<open>kmalloc\<close> and
  \<^verbatim>\<open>kfree\<close> implement first-fit allocation and coalescing release on that list.
\<close>

section \<open>Block headers\<close>

definition mb_prev :: "memory \<Rightarrow> u32 \<Rightarrow> u32" where "mb_prev m b = rd32 m (b + 4)"
definition mb_next :: "memory \<Rightarrow> u32 \<Rightarrow> u32" where "mb_next m b = rd32 m (b + 8)"
definition mb_size :: "memory \<Rightarrow> u32 \<Rightarrow> u32" where "mb_size m b = rd32 m (b + 12)"

definition set_used :: "u32 \<Rightarrow> u8 \<Rightarrow> memory \<Rightarrow> memory" where "set_used b v m = m(b := v)"
definition set_prev :: "u32 \<Rightarrow> u32 \<Rightarrow> memory \<Rightarrow> memory" where "set_prev b v m = wr32 m (b + 4) v"
definition set_next :: "u32 \<Rightarrow> u32 \<Rightarrow> memory \<Rightarrow> memory" where "set_next b v m = wr32 m (b + 8) v"
definition set_size :: "u32 \<Rightarrow> u32 \<Rightarrow> memory \<Rightarrow> memory" where "set_size b v m = wr32 m (b + 12) v"

lemmas header_defs = mb_prev_def mb_next_def mb_size_def set_used_def set_prev_def set_next_def
  set_size_def

section \<open>State and operations\<close>

record heap = paging +
  heap_start :: u32
  heap_end :: u32
  heap_size :: u32
  first :: u32

text \<open>\<^verbatim>\<open>sizeof(struct mem_block)\<close>\<close>

definition MB :: u32 where "MB = 16"

definition kheap_init :: "u32 \<Rightarrow> u32 \<Rightarrow> 'a heap_scheme \<Rightarrow> ('a heap_scheme, unit) outcome" where
  "kheap_init start end s =
     (let s = s\<lparr>heap_start := start, heap_end := end\<rparr>;
          s = s\<lparr>heap_size := heap_end s - heap_start s\<rparr>;
          m = memset (mem s) (heap_start s) 0 (heap_size s);
          f = heap_start s;
          m = set_used f 0 m; m = set_prev f 0 m; m = set_next f 0 m;
          m = set_size f (heap_size s - MB) m
      in Done () (s\<lparr>first := f, mem := m\<rparr>))"

text \<open>The search loop of \<^verbatim>\<open>kmalloc\<close>; \<open>None\<close> when the block list is cyclic and nothing fits.\<close>

partial_function (option) find_fit :: "u32 \<Rightarrow> u32 \<Rightarrow> memory \<Rightarrow> u32 option" where
  "find_fit sz block m =
     (if block = 0 then Some 0
      else if mb_size m block > sz \<and> m block = 0 then Some block
      else find_fit sz (mb_next m block) m)"

text \<open>The common tail of \<^verbatim>\<open>kmalloc\<close> and \<^verbatim>\<open>kmalloc_alligned\<close>: split the block found and
  mark it used.\<close>

definition take_block :: "u32 \<Rightarrow> u32 \<Rightarrow> memory \<Rightarrow> memory" where
  "take_block sz result m =
     set_used result 1
       (if mb_size m result \<ge> sz + MB + 1
        then let tmp = result + MB + sz;
                 m = set_used tmp 0 m;
                 m = set_size tmp (mb_size m result - sz - MB) m;
                 m = set_prev tmp result m;
                 m = set_next tmp (mb_next m result) m;
                 m = (if mb_next m tmp \<noteq> 0 then set_prev (mb_next m tmp) tmp m else m);
                 m = set_size result sz m
             in set_next result tmp m
        else m)"

text \<open>
  The branch of \<^verbatim>\<open>kmalloc_alligned\<close> for a free block whose payload is not aligned but has
  room for an aligned one: a new header is placed in front of the aligned address and replaces
  the block (the gap goes to the previous block). Its \<^verbatim>\<open>sz\<close> field is not written.
\<close>

definition place_aligned :: "u32 \<Rightarrow> u32 \<Rightarrow> memory \<Rightarrow> u32 \<times> memory" where
  "place_aligned alligned_addr block m =
     (let old_next = mb_next m block;
          m = set_next block (alligned_addr - MB) m;
          m = set_size block (mb_next m block - block - MB) m;
          (block, m) = (if mb_prev m block \<noteq> 0
            then let m = set_size (mb_prev m block)
                           (mb_size m (mb_prev m block) + (mb_size m block + MB)) m;
                     m = set_next (mb_prev m block) (mb_next m block) m
                 in (mb_prev m block, m)
            else (block, m));
          m = set_prev (mb_next m block) block m;
          block = mb_next m block;
          m = set_next block old_next m;
          m = (if old_next \<noteq> 0 then set_prev old_next block m else m)
      in (block, m))"

text \<open>
  The search loop of \<^verbatim>\<open>kmalloc_alligned\<close>. \<open>Inl ()\<close> stands for the division fault of
  \<^verbatim>\<open>% allignment\<close> with alignment 0; \<open>Inr (result, m)\<close> for the loop's end.
\<close>

partial_function (option) alligned_scan ::
    "u32 \<Rightarrow> u32 \<Rightarrow> u32 \<Rightarrow> memory \<Rightarrow> (unit + u32 \<times> memory) option" where
  "alligned_scan sz allignment block m =
     (if block = 0 then Some (Inr (0, m))
      else if m block \<noteq> 0 then alligned_scan sz allignment (mb_next m block) m
      else if allignment = 0 then Some (Inl ())
      else if (block + MB) mod allignment \<noteq> 0
      then let alligned_addr = CEILING_DIV (block + MB) allignment * allignment
           in if alligned_addr + sz > block + MB + mb_size m block
              then alligned_scan sz allignment (mb_next m block) m
              else if block + MB + mb_size m block - alligned_addr \<ge> sz + MB
              then Some (Inr (place_aligned alligned_addr block m))
              else alligned_scan sz allignment (mb_next m block) m
      else if mb_size m block > sz then Some (Inr (block, m))
      else alligned_scan sz allignment (mb_next m block) m)"

definition kmalloc_alligned ::
    "u32 \<Rightarrow> u32 \<Rightarrow> 'a heap_scheme \<Rightarrow> ('a heap_scheme, u32) outcome" where
  "kmalloc_alligned sz allignment s =
     (case alligned_scan sz allignment (first s) (mem s) of
        None \<Rightarrow> Diverged
      | Some (Inl _) \<Rightarrow> Faulted s
      | Some (Inr (result, m)) \<Rightarrow>
          if result = 0 then kpanic ''can't allocate memory'' (s\<lparr>mem := m\<rparr>)
          else Done (result + MB) (s\<lparr>mem := take_block sz result m\<rparr>))"

definition kmalloc :: "u32 \<Rightarrow> 'a heap_scheme \<Rightarrow> ('a heap_scheme, u32) outcome" where
  "kmalloc sz s =
     (if sz \<noteq> 1 then kmalloc_alligned sz 4 s
      else case find_fit sz (first s) (mem s) of
             None \<Rightarrow> Diverged
           | Some result \<Rightarrow>
               if result = 0 then Done 0 s
               else Done (result + MB) (s\<lparr>mem := take_block sz result (mem s)\<rparr>))"

text \<open>The two merging steps of \<^verbatim>\<open>kfree\<close> and \<^verbatim>\<open>kfree_block\<close>.\<close>

definition merge_prev :: "u32 \<Rightarrow> memory \<Rightarrow> u32 \<times> memory" where
  "merge_prev block m =
     (if mb_prev m block \<noteq> 0 \<and> m (mb_prev m block) = 0
      then let m = set_size (mb_prev m block) (mb_size m (mb_prev m block) + (MB + mb_size m block)) m;
               m = set_next (mb_prev m block) (mb_next m block) m;
               m = (if mb_next m block \<noteq> 0
                    then set_prev (mb_next m block) (mb_prev m block) m else m)
           in (mb_prev m block, m)
      else (block, m))"

definition merge_next :: "u32 \<Rightarrow> memory \<Rightarrow> memory" where
  "merge_next block m =
     (if mb_next m block \<noteq> 0 \<and> m (mb_next m block) = 0
      then let m = set_size block (mb_size m block + (MB + mb_size m (mb_next m block))) m;
               m = set_next block (mb_next m (mb_next m block)) m
           in if mb_next m block \<noteq> 0 then set_prev (mb_next m block) block m else m
      else m)"

definition kfree_block :: "u32 \<Rightarrow> 'a heap_scheme \<Rightarrow> ('a heap_scheme, unit) outcome" where
  "kfree_block block s =
     (let (block, m) = merge_prev block (set_used block 0 (mem s))
      in Done () (s\<lparr>mem := merge_next block m\<rparr>))"

definition kfree :: "u32 \<Rightarrow> 'a heap_scheme \<Rightarrow> ('a heap_scheme, unit) outcome" where
  "kfree ptr s =
     (let tmp = ptr - MB;
          (tmp, m) = merge_prev tmp (set_used tmp 0 (mem s))
      in Done () (s\<lparr>mem := merge_next tmp m\<rparr>))"

definition krealloc :: "u32 \<Rightarrow> u32 \<Rightarrow> 'a heap_scheme \<Rightarrow> ('a heap_scheme, u32) outcome" where
  "krealloc ptr sz s =
     (if ptr = 0 then kmalloc sz s
      else if sz = 0 then obind (kfree ptr s) (\<lambda>_ s. Done 0 s)
      else let old_block = ptr - MB; old_size = mb_size (mem s) old_block
           in obind (kfree_block old_block s) (\<lambda>_ s.
              obind (kmalloc sz s) (\<lambda>p s.
                let new_block = p + MB
                in Done new_block (s\<lparr>mem := memcpy (mem s) new_block ptr old_size\<rparr>))))"

definition kcalloc :: "u32 \<Rightarrow> u32 \<Rightarrow> 'a heap_scheme \<Rightarrow> ('a heap_scheme, u32) outcome" where
  "kcalloc nmemb sz s =
     (if nmemb = 0 \<or> sz = 0 then Done 0 s
      else obind (kmalloc (sz * nmemb) s) (\<lambda>p s. Done (p + MB) s))"

section \<open>Header fields under writes\<close>

text \<open>Writes to the header at \<open>b\<close> and reads of the header at the same address.\<close>

lemma set_used_fields [simp]:
  "set_used b v m b = v"
  "mb_prev (set_used b v m) b = mb_prev m b"
  "mb_next (set_used b v m) b = mb_next m b"
  "mb_size (set_used b v m) b = mb_size m b"
  by (simp_all add: header_defs rd32_def)

lemma header_self [simp]:
  "mb_prev (set_prev b v m) b = v" "mb_next (set_next b v m) b = v" "mb_size (set_size b v m) b = v"
  by (simp_all add: header_defs)

lemma header_same [simp]:
  "mb_next (set_prev b v m) b = mb_next m b" "mb_size (set_prev b v m) b = mb_size m b"
  "mb_prev (set_next b v m) b = mb_prev m b" "mb_size (set_next b v m) b = mb_size m b"
  "mb_prev (set_size b v m) b = mb_prev m b" "mb_next (set_size b v m) b = mb_next m b"
  by (simp_all add: header_defs rd32_wr32_apart apart_def)

lemma used_same [simp]:
  "set_prev b v m b = m b" "set_next b v m b = m b" "set_size b v m b = m b"
  by (simp_all add: header_defs wr32_other)

text \<open>Writes to the header at \<open>b\<close> and reads outside it.\<close>

lemma set_outside:
  assumes "16 \<le> x - b"
  shows "set_used b w m x = m x" "set_prev b v m x = m x" "set_next b v m x = m x"
    "set_size b v m x = m x"
proof -
  have "x \<noteq> b" "4 \<le> x - (b + 4)" "4 \<le> x - (b + 8)" "4 \<le> x - (b + 12)"
    using assms by (auto simp: diff_diff_add [symmetric] simp del: diff_diff_add) (uint_arith+)
  then show "set_used b w m x = m x" "set_prev b v m x = m x" "set_next b v m x = m x"
    "set_size b v m x = m x"
    by (simp_all add: header_defs wr32_other)
qed

text \<open>The same with addresses as natural numbers below the end of the address space.\<close>

lemma far_from_header:
  assumes "h + 16 \<le> x \<or> x < h" and "h + 16 \<le> 2 ^ 32" and "x < 2 ^ 32"
  shows "16 \<le> (of_nat x :: u32) - of_nat h"
proof -
  have u: "unat (of_nat x :: u32) = x" "unat (of_nat h :: u32) = h"
    using assms by (simp_all add: unat_of_nat)
  show ?thesis using assms u by (auto simp: word_le_nat_alt unat_sub_if')
qed

lemma set_byte_outside [layout]:
  assumes "h + 16 \<le> x \<or> x < h" and "h + 16 \<le> 2 ^ 32" and "x < 2 ^ 32"
  shows "set_used (of_nat h) w m (of_nat x) = m (of_nat x)"
    "set_prev (of_nat h) v m (of_nat x) = m (of_nat x)"
    "set_next (of_nat h) v m (of_nat x) = m (of_nat x)"
    "set_size (of_nat h) v m (of_nat x) = m (of_nat x)"
  using set_outside [OF far_from_header [OF assms]] by simp_all

text \<open>A header is determined by its sixteen bytes.\<close>

lemma header_cong:
  assumes "\<forall>x \<in> {b..<b + 16}. m' (of_nat x) = m (of_nat x)"
  shows "mb_prev m' (of_nat b) = mb_prev m (of_nat b)" "mb_next m' (of_nat b) = mb_next m (of_nat b)"
    "mb_size m' (of_nat b) = mb_size m (of_nat b)" "m' (of_nat b) = m (of_nat b)"
proof -
  have eq: "m' (of_nat b + of_nat k) = m (of_nat b + of_nat k)" if "k < 16" for k
    using that bspec [OF assms, of "b + k"] by simp
  have "m' (of_nat b + 4) = m (of_nat b + 4)" "m' (of_nat b + 5) = m (of_nat b + 5)"
    "m' (of_nat b + 6) = m (of_nat b + 6)" "m' (of_nat b + 7) = m (of_nat b + 7)"
    "m' (of_nat b + 8) = m (of_nat b + 8)" "m' (of_nat b + 9) = m (of_nat b + 9)"
    "m' (of_nat b + 10) = m (of_nat b + 10)" "m' (of_nat b + 11) = m (of_nat b + 11)"
    "m' (of_nat b + 12) = m (of_nat b + 12)" "m' (of_nat b + 13) = m (of_nat b + 13)"
    "m' (of_nat b + 14) = m (of_nat b + 14)" "m' (of_nat b + 15) = m (of_nat b + 15)"
    using eq [of 4] eq [of 5] eq [of 6] eq [of 7] eq [of 8] eq [of 9] eq [of 10] eq [of 11]
      eq [of 12] eq [of 13] eq [of 14] eq [of 15] by simp_all
  then show "mb_prev m' (of_nat b) = mb_prev m (of_nat b)" "mb_next m' (of_nat b) = mb_next m (of_nat b)"
    "mb_size m' (of_nat b) = mb_size m (of_nat b)"
    by (simp_all add: header_defs rd32_def add.assoc)
  show "m' (of_nat b) = m (of_nat b)" using eq [of 0] by simp
qed

section \<open>The block list\<close>

text \<open>
  The abstract heap is the list of its blocks in address order, each with its status (used or
  free) and its payload size. \<open>hdr m b u p nx n\<close>: the header at \<open>b\<close> has these field values.
  \<open>seg m p b bs nx\<close>: from address \<open>b\<close> on, memory holds the headers of the blocks \<open>bs\<close>, each
  right behind the payload of the one before; the first one's \<^verbatim>\<open>prev\<close> is \<open>p\<close>, the last one's
  \<^verbatim>\<open>next\<close> is \<open>nx\<close>.
\<close>

type_synonym blocks = "(bool \<times> nat) list"

definition hdr :: "memory \<Rightarrow> nat \<Rightarrow> bool \<Rightarrow> nat \<Rightarrow> nat \<Rightarrow> nat \<Rightarrow> bool" where
  "hdr m b u p nx n \<longleftrightarrow> (m (of_nat b) \<noteq> 0) = u \<and> mb_prev m (of_nat b) = of_nat p \<and>
     mb_next m (of_nat b) = of_nat nx \<and> mb_size m (of_nat b) = of_nat n"

fun seg :: "memory \<Rightarrow> nat \<Rightarrow> nat \<Rightarrow> blocks \<Rightarrow> nat \<Rightarrow> bool" where
  "seg m p b [] nx = True"
| "seg m p b ((u, n) # bs) nx =
     (hdr m b u p (if bs = [] then nx else b + 16 + n) n \<and> seg m b (b + 16 + n) bs nx)"

fun extent :: "blocks \<Rightarrow> nat" where
  "extent [] = 0"
| "extent ((u, n) # bs) = 16 + n + extent bs"

text \<open>The addresses of the header bytes of the blocks \<open>bs\<close> laid out from \<open>b\<close>.\<close>

fun hbytes :: "nat \<Rightarrow> blocks \<Rightarrow> nat set" where
  "hbytes b [] = {}"
| "hbytes b ((u, n) # bs) = {b..<b + 16} \<union> hbytes (b + 16 + n) bs"

text \<open>The address of the last of the blocks laid out from \<open>b\<close>, \<open>p\<close> if there is none.\<close>

fun last_block :: "nat \<Rightarrow> nat \<Rightarrow> blocks \<Rightarrow> nat" where
  "last_block p b [] = p"
| "last_block p b ((u, n) # bs) = last_block b (b + 16 + n) bs"

lemma extent_append [simp]: "extent (xs @ ys) = extent xs + extent ys"
  by (induction xs rule: extent.induct) simp_all

lemma hbytes_append: "hbytes b (xs @ ys) = hbytes b xs \<union> hbytes (b + extent xs) ys"
  by (induction xs arbitrary: b rule: extent.induct) (simp_all add: Un_assoc add.assoc)

lemma hbytes_range: "x \<in> hbytes b bs \<Longrightarrow> b \<le> x \<and> x < b + extent bs"
  by (induction b bs rule: hbytes.induct) fastforce+

lemma last_block_append [simp]:
  "last_block p b (xs @ ys) = last_block (last_block p b xs) (b + extent xs) ys"
  by (induction xs arbitrary: p b rule: extent.induct) (simp_all add: add.assoc)

lemma seg_append:
  "seg m p b (xs @ ys) nx \<longleftrightarrow> seg m p b xs (if ys = [] then nx else b + extent xs) \<and>
     seg m (last_block p b xs) (b + extent xs) ys nx"
  by (induction xs arbitrary: p b rule: extent.induct) (auto simp: add.assoc)

lemma hdr_cong:
  "\<forall>x \<in> {b..<b + 16}. m' (of_nat x) = m (of_nat x) \<Longrightarrow> hdr m' b u p nx n = hdr m b u p nx n"
  by (simp add: hdr_def header_cong [of b m' m] del: atLeastLessThan_iff)

lemma seg_cong:
  "\<forall>x \<in> hbytes b bs. m' (of_nat x) = m (of_nat x) \<Longrightarrow> seg m' p b bs nx = seg m p b bs nx"
proof (induction m p b bs nx rule: seg.induct)
  case (2 m p b u n bs nx)
  then have "\<forall>x \<in> {b..<b + 16}. m' (of_nat x) = m (of_nat x)" by simp
  from hdr_cong [OF this] 2 show ?case by simp
qed simp

lemma seg_set_outside [layout]:
  assumes "h + 16 \<le> b \<or> b + extent bs \<le> h" and "h + 16 \<le> 2 ^ 32" and "b + extent bs \<le> 2 ^ 32"
  shows "seg (set_used (of_nat h) w m) p b bs nx = seg m p b bs nx"
    "seg (set_prev (of_nat h) v m) p b bs nx = seg m p b bs nx"
    "seg (set_next (of_nat h) v m) p b bs nx = seg m p b bs nx"
    "seg (set_size (of_nat h) v m) p b bs nx = seg m p b bs nx"
  using assms by (auto intro!: seg_cong set_byte_outside dest!: hbytes_range)

lemma header_set_outside [layout]:
  assumes "h + 16 \<le> b \<or> b + 16 \<le> h" and "h + 16 \<le> 2 ^ 32" and "b + 16 \<le> 2 ^ 32"
  shows "mb_prev (set_used (of_nat h) w m) (of_nat b) = mb_prev m (of_nat b)"
    "mb_prev (set_prev (of_nat h) v m) (of_nat b) = mb_prev m (of_nat b)"
    "mb_prev (set_next (of_nat h) v m) (of_nat b) = mb_prev m (of_nat b)"
    "mb_prev (set_size (of_nat h) v m) (of_nat b) = mb_prev m (of_nat b)"
    "mb_next (set_used (of_nat h) w m) (of_nat b) = mb_next m (of_nat b)"
    "mb_next (set_prev (of_nat h) v m) (of_nat b) = mb_next m (of_nat b)"
    "mb_next (set_next (of_nat h) v m) (of_nat b) = mb_next m (of_nat b)"
    "mb_next (set_size (of_nat h) v m) (of_nat b) = mb_next m (of_nat b)"
    "mb_size (set_used (of_nat h) w m) (of_nat b) = mb_size m (of_nat b)"
    "mb_size (set_prev (of_nat h) v m) (of_nat b) = mb_size m (of_nat b)"
    "mb_size (set_next (of_nat h) v m) (of_nat b) = mb_size m (of_nat b)"
    "mb_size (set_size (of_nat h) v m) (of_nat b) = mb_size m (of_nat b)"
proof -
  have "h + 16 \<le> x \<or> x < h" "x < 2 ^ 32" if "x \<in> {b..<b + 16}" for x
    using that assms by auto
  note same = ballI [where A = "{b..<b + 16}", OF set_byte_outside(1) [OF this(1) assms(2) this(2)]]
    ballI [where A = "{b..<b + 16}", OF set_byte_outside(2) [OF this(1) assms(2) this(2)]]
    ballI [where A = "{b..<b + 16}", OF set_byte_outside(3) [OF this(1) assms(2) this(2)]]
    ballI [where A = "{b..<b + 16}", OF set_byte_outside(4) [OF this(1) assms(2) this(2)]]
  show "mb_prev (set_used (of_nat h) w m) (of_nat b) = mb_prev m (of_nat b)"
    "mb_next (set_used (of_nat h) w m) (of_nat b) = mb_next m (of_nat b)"
    "mb_size (set_used (of_nat h) w m) (of_nat b) = mb_size m (of_nat b)"
    by (rule header_cong same(1); assumption?)+
  show "mb_prev (set_prev (of_nat h) v m) (of_nat b) = mb_prev m (of_nat b)"
    "mb_next (set_prev (of_nat h) v m) (of_nat b) = mb_next m (of_nat b)"
    "mb_size (set_prev (of_nat h) v m) (of_nat b) = mb_size m (of_nat b)"
    by (rule header_cong same(2); assumption?)+
  show "mb_prev (set_next (of_nat h) v m) (of_nat b) = mb_prev m (of_nat b)"
    "mb_next (set_next (of_nat h) v m) (of_nat b) = mb_next m (of_nat b)"
    "mb_size (set_next (of_nat h) v m) (of_nat b) = mb_size m (of_nat b)"
    by (rule header_cong same(3); assumption?)+
  show "mb_prev (set_size (of_nat h) v m) (of_nat b) = mb_prev m (of_nat b)"
    "mb_next (set_size (of_nat h) v m) (of_nat b) = mb_next m (of_nat b)"
    "mb_size (set_size (of_nat h) v m) (of_nat b) = mb_size m (of_nat b)"
    by (rule header_cong same(4); assumption?)+
qed

lemma seg_set_prev [layout]:
  assumes "bs \<noteq> []" and "b + extent bs \<le> 2 ^ 32" and "seg m p b bs nx"
  shows "seg (set_prev (of_nat b) (of_nat q) m) q b bs nx"
proof -
  obtain u n cs where "bs = (u, n) # cs" using assms(1) by (cases bs) auto
  then show ?thesis using assms by (simp add: hdr_def seg_set_outside)
qed

section \<open>Splitting and merging blocks in memory\<close>

text \<open>A memory operation writes only header bytes of the layout before and after it.\<close>

definition only_headers :: "nat set \<Rightarrow> memory \<Rightarrow> memory \<Rightarrow> bool" where
  "only_headers H m m' \<longleftrightarrow> (\<forall>x < 2 ^ 32. x \<notin> H \<longrightarrow> m' (of_nat x) = m (of_nat x))"

lemma only_headers_trans:
  "only_headers H m m' \<Longrightarrow> only_headers H' m' m'' \<Longrightarrow> H \<union> H' \<subseteq> H'' \<Longrightarrow> only_headers H'' m m''"
  unfolding only_headers_def by (metis UnI1 UnI2 subsetD)

lemma only_headers_mono: "only_headers H m m' \<Longrightarrow> H \<subseteq> H' \<Longrightarrow> only_headers H' m m'"
  by (auto simp: only_headers_def)

lemma only_headers_set:
  assumes "only_headers H m m'" and "{h..<h + 16} \<subseteq> H" and "h + 16 \<le> 2 ^ 32"
  shows "only_headers H m (set_used (of_nat h) w m')" "only_headers H m (set_prev (of_nat h) v m')"
    "only_headers H m (set_next (of_nat h) v m')" "only_headers H m (set_size (of_nat h) v m')"
proof -
  have "h + 16 \<le> x \<or> x < h" if "x \<notin> H" for x
    using that assms(2) by (metis atLeastLessThan_iff linorder_not_le subsetD)
  then show "only_headers H m (set_used (of_nat h) w m')" "only_headers H m (set_prev (of_nat h) v m')"
    "only_headers H m (set_next (of_nat h) v m')" "only_headers H m (set_size (of_nat h) v m')"
    using assms(1,3) set_byte_outside by (simp_all add: only_headers_def)
qed

lemma only_headers_refl [simp]: "only_headers H m m"
  by (simp add: only_headers_def)

lemma of_nat_u32_eq [simp]:
  "a < 2 ^ 32 \<Longrightarrow> b < 2 ^ 32 \<Longrightarrow> ((of_nat a :: u32) = of_nat b) = (a = b)"
  by (auto simp: word_unat_eq_iff unat_of_nat)

lemma of_nat_u32_0 [simp]: "0 < a \<Longrightarrow> a < 2 ^ 32 \<Longrightarrow> (of_nat a :: u32) \<noteq> 0"
  by (auto simp: word_unat_eq_iff unat_of_nat)

lemma of_nat_u32_less:
  "a < 2 ^ 32 \<Longrightarrow> b < 2 ^ 32 \<Longrightarrow> ((of_nat a :: u32) < of_nat b) = (a < b)"
  "a < 2 ^ 32 \<Longrightarrow> b < 2 ^ 32 \<Longrightarrow> ((of_nat a :: u32) \<le> of_nat b) = (a \<le> b)"
  by (simp_all add: word_less_nat_alt word_le_nat_alt unat_of_nat)

text \<open>The header fields of a block followed by \<open>ys\<close>, the last block of the heap at the end.\<close>

lemma seg_head:
  assumes "seg m p b ((u, n) # ys) 0"
  shows "(m (of_nat b) \<noteq> 0) = u" "mb_prev m (of_nat b) = of_nat p" "mb_size m (of_nat b) = of_nat n"
    "mb_next m (of_nat b) = of_nat (if ys = [] then 0 else b + 16 + n)" "seg m b (b + 16 + n) ys 0"
  using assms by (simp_all add: hdr_def)

lemma first_header_bytes: "bs \<noteq> [] \<Longrightarrow> {b..<b + 16} \<subseteq> hbytes b bs \<and> 16 \<le> extent bs"
  by (cases bs) auto

lemma take_block_whole:
  assumes "seg m p b ((False, n) # ys) 0" and "sz < n" and "n < sz + 17" and "0 < b" and "b + 16 + n + extent ys \<le> 2 ^ 32"
  shows "seg (take_block (of_nat sz) (of_nat b) m) p b ((True, n) # ys) 0"
    "only_headers {b..<b + 16} m (take_block (of_nat sz) (of_nat b) m)"
proof -
  have "(of_nat sz + MB + 1 :: u32) = of_nat (sz + 17)" by (simp add: MB_def)
  then have "\<not> (of_nat sz + MB + 1 :: u32) \<le> of_nat n"
    using assms(2-5) by (simp add: of_nat_u32_less(2) del: of_nat_add)
  then have eq: "take_block (of_nat sz) (of_nat b) m = set_used (of_nat b) 1 m"
    using seg_head(3) [OF assms(1)] by (simp add: take_block_def)
  show "seg (take_block (of_nat sz) (of_nat b) m) p b ((True, n) # ys) 0"
    using assms by (simp add: eq hdr_def seg_set_outside)
  show "only_headers {b..<b + 16} m (take_block (of_nat sz) (of_nat b) m)"
    unfolding eq using assms(5) by (intro only_headers_set) simp_all
qed

lemma take_block_split:
  assumes seg: "seg m p b ((False, n) # ys) 0" and n: "sz + 17 \<le> n" and b: "0 < b"
    and lim: "b + 16 + n + extent ys \<le> 2 ^ 32"
  shows "seg (take_block (of_nat sz) (of_nat b) m) p b ((True, sz) # (False, n - sz - 16) # ys) 0"
    "only_headers ({b..<b + 16} \<union> {b + 16 + sz..<b + 16 + sz + 16} \<union> hbytes (b + 16 + n) ys) m
       (take_block (of_nat sz) (of_nat b) m)" (is "only_headers ?H m _")
proof -
  define t e r nx where "t = b + 16 + sz" and "e = b + 16 + n" and "r = n - sz - 16"
    and "nx = (if ys = [] then 0 else e)"
  have tmp: "(of_nat b + MB + of_nat sz :: u32) = of_nat t" by (simp add: t_def MB_def)
  have "(of_nat sz + MB + 1 :: u32) = of_nat (sz + 17)" by (simp add: MB_def)
  then have fits: "(of_nat sz + MB + 1 :: u32) \<le> of_nat n"
    using n lim by (simp add: of_nat_u32_less(2) del: of_nat_add)
  have rest: "(of_nat n - of_nat sz - MB :: u32) = of_nat r"
    using n by (simp add: MB_def r_def)
  note h = seg_head [OF seg, folded e_def, folded nx_def]
  have far: "b + 16 \<le> t" "t + 16 < e" "b + 16 \<le> 2 ^ 32" "t + 16 \<le> 2 ^ 32" "t + 16 + r = e"
      "e + extent ys \<le> 2 ^ 32"
    using n lim by (simp_all add: t_def e_def r_def)
  have e: "e + 16 \<le> 2 ^ 32" "0 < e" if "ys \<noteq> []"
    using that far first_header_bytes [of ys 0] by simp_all
  have nx0: "(of_nat nx :: u32) \<noteq> 0 \<longleftrightarrow> ys \<noteq> []"
    using e by (auto simp: nx_def)
  define m1 where "m1 = set_next (of_nat t) (of_nat nx) (set_prev (of_nat t) (of_nat b)
    (set_size (of_nat t) (of_nat r) (set_used (of_nat t) 0 m)))"
  define m2 where "m2 = (if ys \<noteq> [] then set_prev (of_nat e) (of_nat t) m1 else m1)"
  have eq: "take_block (of_nat sz) (of_nat b) m =
      set_used (of_nat b) 1 (set_next (of_nat b) (of_nat t) (set_size (of_nat b) (of_nat sz) m2))"
    using h fits far nx0
    by (simp add: take_block_def Let_def tmp rest header_set_outside m1_def m2_def) (simp add: nx_def)
  have m1: "seg m1 b e ys 0" "hdr m1 t False b nx r" "mb_prev m1 (of_nat b) = of_nat p"
    using h far by (simp_all add: seg_set_outside header_set_outside hdr_def m1_def)
  have m2: "seg m2 t e ys 0" "hdr m2 t False b nx r" "mb_prev m2 (of_nat b) = of_nat p"
    using m1 far e by (auto simp: m2_def seg_set_prev hdr_def header_set_outside set_byte_outside)
  have form: "seg M p b ((True, sz) # (False, r) # ys) 0 \<longleftrightarrow>
      hdr M b True p t sz \<and> hdr M t False b nx r \<and> seg M t e ys 0" for M
    using far(5) by (auto simp: t_def nx_def)
  show "seg (take_block (of_nat sz) (of_nat b) m) p b ((True, sz) # (False, n - sz - 16) # ys) 0"
    using m2 far unfolding eq r_def [symmetric] form
    by (simp add: hdr_def seg_set_outside header_set_outside set_byte_outside)
  have H: "{b..<b + 16} \<subseteq> ?H" "{t..<t + 16} \<subseteq> ?H" "ys \<noteq> [] \<Longrightarrow> {e..<e + 16} \<subseteq> ?H"
    using first_header_bytes [of ys e] by (auto simp: t_def e_def)
  have "only_headers ?H m m2"
    unfolding m2_def m1_def using far e H by (auto intro!: only_headers_set)
  then show "only_headers ?H m (take_block (of_nat sz) (of_nat b) m)"
    unfolding eq using far H(1) by (intro only_headers_set) auto
qed

lemma merge_next_free:
  assumes seg: "seg m p b ((u, n) # (False, k) # ys) 0" and b: "0 < b"
    and lim: "b + 32 + n + k + extent ys \<le> 2 ^ 32"
  shows "seg (merge_next (of_nat b) m) p b ((u, n + 16 + k) # ys) 0"
    "only_headers (hbytes b ((u, n) # (False, k) # ys)) m (merge_next (of_nat b) m)"
    (is "only_headers ?H _ _")
proof -
  define t e nx where "t = b + 16 + n" and "e = t + 16 + k" and "nx = (if ys = [] then 0 else e)"
  have h: "(m (of_nat b) \<noteq> 0) = u" "mb_prev m (of_nat b) = of_nat p" "mb_next m (of_nat b) = of_nat t"
    "mb_size m (of_nat b) = of_nat n" "m (of_nat t) = 0" "mb_next m (of_nat t) = of_nat nx"
    "mb_size m (of_nat t) = of_nat k" "seg m t e ys 0"
    using seg by (simp_all add: hdr_def t_def e_def nx_def)
  have far: "b + 16 \<le> t" "t + 16 \<le> e" "b + 16 \<le> 2 ^ 32" "t + 16 \<le> 2 ^ 32" "e + extent ys \<le> 2 ^ 32" "0 < t"
    using lim b by (simp_all add: t_def e_def)
  have e: "e + 16 \<le> 2 ^ 32" "0 < e" if "ys \<noteq> []"
    using that far first_header_bytes [of ys 0] by simp_all
  have nx0: "(of_nat nx :: u32) \<noteq> 0 \<longleftrightarrow> ys \<noteq> []" using e by (auto simp: nx_def)
  have t0: "(of_nat t :: u32) \<noteq> 0" using far by simp
  have sum: "(of_nat n + (MB + of_nat k) :: u32) = of_nat (n + 16 + k)" by (simp add: MB_def)
  define m1 where "m1 = set_next (of_nat b) (of_nat nx) (set_size (of_nat b) (of_nat (n + 16 + k)) m)"
  have eq: "merge_next (of_nat b) m = (if ys \<noteq> [] then set_prev (of_nat e) (of_nat b) m1 else m1)"
    using h far t0 nx0 by (simp add: merge_next_def Let_def sum header_set_outside m1_def del: of_nat_add)
      (simp add: nx_def)
  have m1: "seg m1 t e ys 0" "hdr m1 b u p nx (n + 16 + k)"
    using h far by (simp_all add: m1_def hdr_def seg_set_outside del: of_nat_add)
  have form: "seg M p b ((u, n + 16 + k) # ys) 0 \<longleftrightarrow> hdr M b u p nx (n + 16 + k) \<and> seg M b e ys 0" for M
    by (auto simp: nx_def e_def t_def algebra_simps)
  show "seg (merge_next (of_nat b) m) p b ((u, n + 16 + k) # ys) 0"
    using m1 far e unfolding eq form
    by (auto simp: seg_set_prev hdr_def header_set_outside set_byte_outside simp del: of_nat_add)
  have "{b..<b + 16} \<subseteq> ?H" "ys \<noteq> [] \<Longrightarrow> {e..<e + 16} \<subseteq> ?H"
    using first_header_bytes [of ys e] by (auto simp: t_def e_def)
  then show "only_headers ?H m (merge_next (of_nat b) m)"
    unfolding eq m1_def using far e by (auto intro!: only_headers_set simp del: hbytes.simps of_nat_add)
qed

lemma merge_next_none:
  assumes "seg m p b ((u, n) # ys) 0" and "ys = [] \<or> fst (hd ys)"
  shows "merge_next (of_nat b) m = m"
proof (cases ys)
  case Nil
  then show ?thesis using assms(1) by (simp add: merge_next_def hdr_def)
next
  case (Cons y zs)
  obtain u' n' where y: "y = (u', n')" by (cases y)
  have "m (mb_next m (of_nat b)) \<noteq> 0"
    using assms seg_head(4) [OF assms(1)] seg_head(1) [of m b "b + 16 + n" u' n' zs]
    by (simp add: Cons y)
  then show ?thesis by (simp add: merge_next_def)
qed

lemma merge_prev_free:
  assumes seg: "seg m p b ((False, n) # (False, k) # ys) 0" and b: "0 < b"
    and lim: "b + 32 + n + k + extent ys \<le> 2 ^ 32"
  shows "\<exists>m'. merge_prev (of_nat (b + 16 + n)) m = (of_nat b, m') \<and>
    seg m' p b ((False, n + 16 + k) # ys) 0 \<and>
    only_headers (hbytes b ((False, n) # (False, k) # ys)) m m'"
    (is "\<exists>m'. _ \<and> _ \<and> only_headers ?H _ _")
proof -
  define t e nx where "t = b + 16 + n" and "e = t + 16 + k" and "nx = (if ys = [] then 0 else e)"
  have h: "m (of_nat b) = 0" "mb_prev m (of_nat b) = of_nat p"
    "mb_size m (of_nat b) = of_nat n" "mb_prev m (of_nat t) = of_nat b" "mb_next m (of_nat t) = of_nat nx"
    "mb_size m (of_nat t) = of_nat k" "seg m t e ys 0"
    using seg by (simp_all add: hdr_def t_def e_def nx_def)
  have far: "b + 16 \<le> t" "t + 16 \<le> e" "b + 16 \<le> 2 ^ 32" "t + 16 \<le> 2 ^ 32" "e + extent ys \<le> 2 ^ 32"
    using lim by (simp_all add: t_def e_def)
  have e: "e + 16 \<le> 2 ^ 32" "0 < e" if "ys \<noteq> []"
    using that far first_header_bytes [of ys 0] by simp_all
  have nx0: "(of_nat nx :: u32) \<noteq> 0 \<longleftrightarrow> ys \<noteq> []" using e by (auto simp: nx_def)
  have b0: "(of_nat b :: u32) \<noteq> 0" using b far by simp
  have sum: "(of_nat n + (MB + of_nat k) :: u32) = of_nat (n + 16 + k)" by (simp add: MB_def)
  define m1 where "m1 = set_next (of_nat b) (of_nat nx) (set_size (of_nat b) (of_nat (n + 16 + k)) m)"
  define m2 where "m2 = (if ys \<noteq> [] then set_prev (of_nat e) (of_nat b) m1 else m1)"
  have eq: "merge_prev (of_nat t) m = (of_nat b, m2)"
    using h far e b0 nx0
    by (simp add: merge_prev_def Let_def sum header_set_outside m1_def m2_def del: of_nat_add)
      (auto simp: nx_def header_set_outside)
  have m1: "seg m1 t e ys 0" "hdr m1 b False p nx (n + 16 + k)"
    using h far by (simp_all add: m1_def hdr_def seg_set_outside del: of_nat_add)
  have form: "seg M p b ((False, n + 16 + k) # ys) 0 \<longleftrightarrow>
      hdr M b False p nx (n + 16 + k) \<and> seg M b e ys 0" for M
    by (auto simp: nx_def e_def t_def algebra_simps)
  have "seg m2 p b ((False, n + 16 + k) # ys) 0"
    using m1 far e unfolding m2_def form
    by (auto simp: seg_set_prev hdr_def header_set_outside set_byte_outside simp del: of_nat_add)
  moreover have "{b..<b + 16} \<subseteq> ?H" "ys \<noteq> [] \<Longrightarrow> {e..<e + 16} \<subseteq> ?H"
    using first_header_bytes [of ys e] by (auto simp: t_def e_def)
  then have "only_headers ?H m m2"
    unfolding m2_def m1_def using far e by (auto intro!: only_headers_set simp del: hbytes.simps of_nat_add)
  ultimately show ?thesis using eq unfolding t_def by blast
qed

lemma merge_prev_none:
  assumes "mb_prev m b = 0 \<or> m (mb_prev m b) \<noteq> 0"
  shows "merge_prev b m = (b, m)"
  using assms by (auto simp: merge_prev_def)

section \<open>The abstract allocator\<close>

text \<open>
  First fit: the first free block with more than \<open>sz\<close> bytes is taken; when it has room for
  another header and at least one byte, the rest becomes a free block. The result is the offset
  of the block from the start of the heap and the new list.
\<close>

fun alloc_list :: "nat \<Rightarrow> blocks \<Rightarrow> (nat \<times> blocks) option" where
  "alloc_list sz [] = None"
| "alloc_list sz ((u, n) # bs) =
     (if \<not> u \<and> sz < n
      then Some (0, if sz + 17 \<le> n then (True, sz) # (False, n - sz - 16) # bs else (True, n) # bs)
      else map_option (\<lambda>(k, bs'). (16 + n + k, (u, n) # bs')) (alloc_list sz bs))"

text \<open>Merge every run of adjacent free blocks.\<close>

fun coalesce :: "blocks \<Rightarrow> blocks" where
  "coalesce ((False, a) # (False, b) # bs) = coalesce ((False, a + 16 + b) # bs)"
| "coalesce (x # bs) = x # coalesce bs"
| "coalesce [] = []"

fun merged :: "blocks \<Rightarrow> bool" where
  "merged ((u, a) # (v, b) # bs) = ((u \<or> v) \<and> merged ((v, b) # bs))"
| "merged bs = True"

text \<open>Mark the block at an offset as free.\<close>

fun mark_free :: "nat \<Rightarrow> blocks \<Rightarrow> blocks" where
  "mark_free k [] = []"
| "mark_free k ((u, n) # bs) = (if k = 0 then (False, n) # bs else (u, n) # mark_free (k - (16 + n)) bs)"

text \<open>The payloads of the used blocks, as address and size.\<close>

fun regions :: "nat \<Rightarrow> blocks \<Rightarrow> (nat \<times> nat) set" where
  "regions b [] = {}"
| "regions b ((u, n) # bs) = (if u then {(b + 16, n)} else {}) \<union> regions (b + 16 + n) bs"

lemma alloc_list_split:
  "alloc_list sz bs = Some (k, bs') \<Longrightarrow> \<exists>xs n ys. bs = xs @ (False, n) # ys \<and> k = extent xs \<and> sz < n \<and>
     (\<forall>(u, n) \<in> set xs. u \<or> n \<le> sz) \<and>
     bs' = xs @ (if sz + 17 \<le> n then (True, sz) # (False, n - sz - 16) # ys else (True, n) # ys)"
proof (induction sz bs arbitrary: k bs' rule: alloc_list.induct)
  case (2 sz u n bs)
  show ?case
  proof (cases "\<not> u \<and> sz < n")
    case True
    then show ?thesis using 2(2) by (intro exI [of _ "[]"] exI [of _ n] exI [of _ bs]) auto
  next
    case False
    then obtain k0 bs0 where 0: "alloc_list sz bs = Some (k0, bs0)" "k = 16 + n + k0" "bs' = (u, n) # bs0"
      using 2(2) by auto
    from 2(1) [OF False 0(1)] obtain xs n0 ys where
      "bs = xs @ (False, n0) # ys \<and> k0 = extent xs \<and> sz < n0 \<and> (\<forall>(u, n) \<in> set xs. u \<or> n \<le> sz) \<and>
       bs0 = xs @ (if sz + 17 \<le> n0 then (True, sz) # (False, n0 - sz - 16) # ys else (True, n0) # ys)"
      by blast
    moreover have "u \<or> n \<le> sz" using False by (metis not_le)
    ultimately show ?thesis
      unfolding 0(2,3) by (intro exI [of _ "(u, n) # xs"] exI [of _ n0] exI [of _ ys]) simp
  qed
qed simp

lemma alloc_list_None: "alloc_list sz bs = None \<longleftrightarrow> (\<forall>(u, n) \<in> set bs. u \<or> n \<le> sz)"
  by (induction sz bs rule: alloc_list.induct) auto

lemma alloc_list_append:
  assumes "\<forall>(u, n) \<in> set xs. u \<or> n \<le> sz" and "sz < n"
  shows "alloc_list sz (xs @ (False, n) # ys) = Some (extent xs,
    xs @ (if sz + 17 \<le> n then (True, sz) # (False, n - sz - 16) # ys else (True, n) # ys))"
  using assms by (induction xs) auto

lemma mark_free_append [simp]: "mark_free (extent xs) (xs @ (u, n) # ys) = xs @ (False, n) # ys"
  by (induction xs rule: extent.induct) simp_all

lemma merged_Cons: "merged (x # bs) \<longleftrightarrow> merged bs \<and> (bs = [] \<or> fst x \<or> fst (hd bs))"
  by (cases x; cases bs) auto

lemma coalesce_merged [simp]: "merged bs \<Longrightarrow> coalesce bs = bs"
  by (induction bs rule: coalesce.induct) (auto simp: merged_Cons)

lemma merged_append: "merged (xs @ ys) \<longleftrightarrow>
    merged xs \<and> merged ys \<and> (xs = [] \<or> ys = [] \<or> fst (last xs) \<or> fst (hd ys))"
  by (induction xs) (auto simp: merged_Cons)

lemma merged_coalesce: "merged (coalesce bs) \<and> (bs \<noteq> [] \<longrightarrow> fst (hd (coalesce bs)) = fst (hd bs) \<and> coalesce bs \<noteq> [])"
  by (induction bs rule: coalesce.induct) (auto simp: merged_Cons)

text \<open>Coalescing after a used block and after one merge.\<close>

lemma coalesce_append:
  "merged xs \<Longrightarrow> xs = [] \<or> fst (last xs) \<Longrightarrow> coalesce (xs @ ys) = xs @ coalesce ys"
proof (induction xs)
  case (Cons x xs)
  show ?case
  proof (cases xs)
    case Nil
    then show ?thesis using Cons.prems by (cases x) auto
  next
    case (Cons x' xs')
    then show ?thesis using Cons.IH Cons.prems by (cases x; cases x'; cases "fst x") (auto simp: merged_Cons)
  qed
qed simp

section \<open>The heap invariant and the search\<close>

definition heap_rep :: "'a heap_scheme \<Rightarrow> blocks \<Rightarrow> bool" where
  "heap_rep s bs \<longleftrightarrow> bs \<noteq> [] \<and> 0 < unat (first s) \<and> unat (first s) + extent bs \<le> 2 ^ 32 \<and>
     seg (mem s) 0 (unat (first s)) bs 0"

text \<open>Every block starts at a multiple of four.\<close>

definition word_sized :: "nat \<Rightarrow> blocks \<Rightarrow> bool" where
  "word_sized b bs \<longleftrightarrow> 4 dvd b \<and> (\<forall>(u, n) \<in> set bs. 4 dvd n)"

lemma word_sized_simps [simp]:
  "word_sized b [] \<longleftrightarrow> 4 dvd b"
  "word_sized b ((u, n) # bs) \<longleftrightarrow> 4 dvd b \<and> 4 dvd n \<and> word_sized (b + 16 + n) bs"
proof -
  have "4 dvd b \<Longrightarrow> 4 dvd n \<Longrightarrow> 4 dvd b + 16 + n" by (auto intro: dvd_add)
  then show "word_sized b [] \<longleftrightarrow> 4 dvd b"
    "word_sized b ((u, n) # bs) \<longleftrightarrow> 4 dvd b \<and> 4 dvd n \<and> word_sized (b + 16 + n) bs"
    by (auto simp: word_sized_def)
qed

lemma payload_word_aligned:
  assumes "4 dvd b"
  shows "((of_nat b :: u32) + MB) mod 4 = 0"
proof -
  have "4 dvd b + 16" using assms by simp
  then have "(b + 16) mod 2 ^ 32 mod 4 = 0" by (simp add: mod_mod_cancel)
  then have "unat ((of_nat (b + 16) :: u32) mod 4) = 0" by (simp add: unat_mod unat_of_nat del: of_nat_add)
  then show ?thesis by (simp add: MB_def unat_eq_0)
qed

definition found :: "nat \<Rightarrow> u32 \<Rightarrow> blocks \<Rightarrow> u32" where
  "found b sz bs = (case alloc_list (unat sz) bs of None \<Rightarrow> 0 | Some (k, _) \<Rightarrow> of_nat (b + k))"

lemma found_Cons:
  "found b sz ((u, n) # bs) = (if \<not> u \<and> unat sz < n then of_nat b else found (b + 16 + n) sz bs)"
  by (auto simp: found_def split: option.splits)

lemma seg_step:
  assumes "seg m p b ((u, n) # bs) 0" and "0 < b" and "b + 16 + n + extent bs \<le> 2 ^ 32"
  shows "(of_nat b :: u32) \<noteq> 0" "(mb_size m (of_nat b) > sz) = (unat sz < n)" "(m (of_nat b) = 0) = (\<not> u)"
    "mb_next m (of_nat b) = (if bs = [] then 0 else of_nat (b + 16 + n))"
  using seg_head [OF assms(1)] assms(2,3) by (auto simp: word_less_nat_alt unat_of_nat simp del: of_nat_add)

lemma find_fit_seg:
  assumes "seg m p b bs 0" and "0 < b" and "b + extent bs \<le> 2 ^ 32"
  shows "find_fit sz (if bs = [] then 0 else of_nat b) m = Some (found b sz bs)"
  using assms
proof (induction m p b bs "0::nat" rule: seg.induct)
  case (1 m p b)
  then show ?case by (subst find_fit.simps) (simp add: found_def)
next
  case (2 m p b u n bs)
  note step = seg_step [OF 2(2,3)]
  have "find_fit sz (if bs = [] then 0 else of_nat (b + 16 + n)) m = Some (found (b + 16 + n) sz bs)"
    using 2 by simp
  then show ?case
    using step 2(4) by (subst find_fit.simps) (simp add: found_Cons del: of_nat_add)
qed

lemma alligned_scan_seg:
  assumes "seg m p b bs 0" and "0 < b" and "b + extent bs \<le> 2 ^ 32" and "word_sized b bs"
  shows "alligned_scan sz 4 (if bs = [] then 0 else of_nat b) m = Some (Inr (found b sz bs, m))"
  using assms
proof (induction m p b bs "0::nat" rule: seg.induct)
  case (1 m p b)
  then show ?case by (subst alligned_scan.simps) (simp add: found_def)
next
  case (2 m p b u n bs)
  note step = seg_step [OF 2(2,3)]
  have "alligned_scan sz 4 (if bs = [] then 0 else of_nat (b + 16 + n)) m =
      Some (Inr (found (b + 16 + n) sz bs, m))"
    using 2 by simp
  moreover have "((of_nat b :: u32) + MB) mod 4 = 0" using 2(5) by (simp add: payload_word_aligned)
  ultimately show ?case
    using step 2(4) by (subst alligned_scan.simps) (simp add: found_Cons del: of_nat_add)
qed

text \<open>Operations on a suffix of the block list leave the blocks before it alone.\<close>

lemma seg_replace_suffix:
  assumes seg: "seg m p b (xs @ ys) 0" and ne: "ys \<noteq> []" "ys' \<noteq> []"
    and suffix: "seg m' (last_block p b xs) (b + extent xs) ys' 0"
    and oh: "only_headers H m m'" "\<forall>x \<in> H. b + extent xs \<le> x" and lim: "b + extent xs \<le> 2 ^ 32"
  shows "seg m' p b (xs @ ys') 0"
proof -
  have "m' (of_nat x) = m (of_nat x)" if "x \<in> hbytes b xs" for x
  proof -
    have "x < b + extent xs" using that hbytes_range by blast
    then have "x \<notin> H" "x < 2 ^ 32" using oh(2) lim by (auto simp: linorder_not_less [symmetric])
    then show ?thesis using oh(1) by (simp add: only_headers_def)
  qed
  then have "seg m' p b xs (b + extent xs) = seg m p b xs (b + extent xs)" by (simp add: seg_cong)
  then show ?thesis using seg ne suffix by (simp add: seg_append)
qed

lemma hbytes_ge: "\<forall>x \<in> hbytes b bs. b \<le> x"
  using hbytes_range by blast

text \<open>Taking the block found implements \<^const>\<open>alloc_list\<close>.\<close>

lemma seg_take_block:
  assumes "seg m p b bs 0" and "0 < b" and "b + extent bs \<le> 2 ^ 32"
    and "alloc_list sz bs = Some (k, bs')"
  shows "seg (take_block (of_nat sz) (of_nat (b + k)) m) p b bs' 0"
    "only_headers (hbytes b bs \<union> hbytes b bs') m (take_block (of_nat sz) (of_nat (b + k)) m)"
    (is "only_headers ?H m ?m'")
proof -
  obtain xs n ys where bs: "bs = xs @ (False, n) # ys" "k = extent xs" "sz < n" and
    bs': "bs' = xs @ (if sz + 17 \<le> n then (True, sz) # (False, n - sz - 16) # ys else (True, n) # ys)"
    using alloc_list_split [OF assms(4)] by auto
  define zs where "zs = (if sz + 17 \<le> n then (True, sz) # (False, n - sz - 16) # ys else (True, n) # ys)"
  let ?b = "b + extent xs" and ?ys = "(False, n) # ys"
  have seg: "seg m (last_block p b xs) ?b ?ys 0" using assms(1) by (simp add: bs(1) seg_append)
  have lim: "?b + 16 + n + extent ys \<le> 2 ^ 32" "0 < ?b" using assms by (simp_all add: bs)
  have suffix: "seg ?m' (last_block p b xs) ?b zs 0 \<and> only_headers (hbytes ?b ?ys \<union> hbytes ?b zs) m ?m'"
  proof (cases "sz + 17 \<le> n")
    case True
    have H: "{?b..<?b + 16} \<union> {?b + 16 + sz..<?b + 16 + sz + 16} \<union> hbytes (?b + 16 + n) ys
        \<subseteq> hbytes ?b ?ys \<union> hbytes ?b zs" using True by (auto simp: zs_def)
    show ?thesis
      using take_block_split [OF seg True lim(2,1)] only_headers_mono [OF _ H] True
      unfolding bs(2) zs_def by simp
  next
    case False
    have H: "{?b..<?b + 16} \<subseteq> hbytes ?b ?ys \<union> hbytes ?b zs" by auto
    show ?thesis
      using take_block_whole [OF seg bs(3) _ lim(2,1)] only_headers_mono [OF _ H] False
      unfolding bs(2) zs_def by simp
  qed
  show "seg ?m' p b bs' 0"
    unfolding bs' zs_def [symmetric]
  proof (rule seg_replace_suffix)
    show "seg m p b (xs @ ?ys) 0" using assms(1) by (simp only: bs(1))
    show "only_headers (hbytes ?b ?ys \<union> hbytes ?b zs) m ?m'" using suffix by blast
    show "\<forall>x \<in> hbytes ?b ?ys \<union> hbytes ?b zs. ?b \<le> x" using hbytes_ge by blast
    show "seg ?m' (last_block p b xs) ?b zs 0" using suffix by blast
  qed (use lim in \<open>auto simp: zs_def\<close>)
  have "hbytes ?b ?ys \<union> hbytes ?b zs \<subseteq> ?H"
    unfolding bs bs' zs_def [symmetric] hbytes_append by blast
  then show "only_headers ?H m ?m'" using suffix only_headers_mono by blast
qed

text \<open>Releasing a block implements marking it free and coalescing.\<close>

lemma coalesce_ne [simp]: "bs \<noteq> [] \<Longrightarrow> coalesce bs \<noteq> []"
  using merged_coalesce [of bs] by simp

lemma seg_merge_next:
  assumes seg: "seg m p b ((False, n) # ys) 0" and ys: "merged ys" and b: "0 < b"
    and lim: "b + 16 + n + extent ys \<le> 2 ^ 32"
  shows "seg (merge_next (of_nat b) m) p b (coalesce ((False, n) # ys)) 0 \<and>
    only_headers (hbytes b ((False, n) # ys)) m (merge_next (of_nat b) m)"
proof (cases "ys = [] \<or> fst (hd ys)")
  case True
  then have "coalesce ((False, n) # ys) = (False, n) # ys" using ys by (simp add: merged_Cons)
  then show ?thesis using merge_next_none [OF seg True] seg by simp
next
  case False
  then obtain k zs where y: "ys = (False, k) # zs" by (cases ys) auto
  have "coalesce ((False, n) # ys) = (False, n + 16 + k) # zs"
    using ys by (simp add: y merged_Cons)
  then show ?thesis using merge_next_free [of m p b False n k zs] seg b lim by (simp add: y)
qed

lemma seg_merge_next_suffix:
  assumes seg: "seg m 0 b (xs @ (False, n) # ys) 0" and "merged ys"
    and xs: "merged xs" "xs = [] \<or> fst (last xs)"
    and b: "0 < b" and lim: "b + extent (xs @ (False, n) # ys) \<le> 2 ^ 32"
  shows "seg (merge_next (of_nat (b + extent xs)) m) 0 b (coalesce (xs @ (False, n) # ys)) 0 \<and>
    only_headers (hbytes b (xs @ (False, n) # ys)) m (merge_next (of_nat (b + extent xs)) m)"
proof -
  have "seg m (last_block 0 b xs) (b + extent xs) ((False, n) # ys) 0"
    using seg by (simp add: seg_append)
  from seg_merge_next [OF this] assms(2) b lim
  have *: "seg (merge_next (of_nat (b + extent xs)) m) (last_block 0 b xs) (b + extent xs)
      (coalesce ((False, n) # ys)) 0"
    "only_headers (hbytes (b + extent xs) ((False, n) # ys)) m (merge_next (of_nat (b + extent xs)) m)"
    by (simp_all del: of_nat_add)
  have "seg (merge_next (of_nat (b + extent xs)) m) 0 b (xs @ coalesce ((False, n) # ys)) 0"
    by (rule seg_replace_suffix [OF seg _ _ *(1,2) hbytes_ge]) (use lim in auto)
  moreover have "hbytes (b + extent xs) ((False, n) # ys) \<subseteq> hbytes b (xs @ (False, n) # ys)"
    unfolding hbytes_append by blast
  ultimately show ?thesis using coalesce_append [OF xs] only_headers_mono [OF *(2)] by metis
qed

lemma seg_set_free:
  assumes seg: "seg m p b (xs @ (u, n) # ys) 0" and lim: "b + extent (xs @ (u, n) # ys) \<le> 2 ^ 32"
  shows "seg (set_used (of_nat (b + extent xs)) 0 m) p b (xs @ (False, n) # ys) 0"
    "only_headers {b + extent xs..<b + extent xs + 16} m (set_used (of_nat (b + extent xs)) 0 m)"
proof -
  let ?m = "set_used (of_nat (b + extent xs)) 0 m"
  show oh: "only_headers {b + extent xs..<b + extent xs + 16} m ?m"
    using lim by (intro only_headers_set) auto
  have "seg m (last_block p b xs) (b + extent xs) ((u, n) # ys) 0" using seg by (simp add: seg_append)
  then have tail: "seg ?m (last_block p b xs) (b + extent xs) ((False, n) # ys) 0"
    using lim by (simp add: hdr_def seg_set_outside header_set_outside del: of_nat_add)
  show "seg ?m p b (xs @ (False, n) # ys) 0"
    by (rule seg_replace_suffix [OF seg _ _ tail oh]) (use lim in auto)
qed

lemma seg_merge_prev:
  assumes seg: "seg m 0 b (xs @ (False, n) # ys) 0" and xs: "merged xs"
    and b: "0 < b" and lim: "b + extent (xs @ (False, n) # ys) \<le> 2 ^ 32"
  shows "\<exists>xs' n' m'. merge_prev (of_nat (b + extent xs)) m = (of_nat (b + extent xs'), m') \<and>
    seg m' 0 b (xs' @ (False, n') # ys) 0 \<and> extent (xs' @ [(False, n')]) = extent (xs @ [(False, n)]) \<and>
    only_headers (hbytes b (xs @ (False, n) # ys)) m m' \<and> merged xs' \<and> (xs' = [] \<or> fst (last xs')) \<and>
    coalesce (xs @ (False, n) # ys) = coalesce (xs' @ (False, n') # ys) \<and>
    hbytes b (xs' @ (False, n') # ys) \<subseteq> hbytes b (xs @ (False, n) # ys)"
    (is "\<exists>xs' n' m'. ?P xs' n' m'")
proof -
  let ?b = "b + extent xs"
  have tail: "seg m (last_block 0 b xs) ?b ((False, n) # ys) 0" using seg by (simp add: seg_append)
  then have prev: "mb_prev m (of_nat ?b) = of_nat (last_block 0 b xs)" by (rule seg_head)
  consider "xs = []" | zs a where "xs = zs @ [(True, a)]" | zs a where "xs = zs @ [(False, a)]"
    by (cases xs rule: rev_cases) auto
  then show ?thesis
  proof cases
    case 1
    then have "merge_prev (of_nat ?b) m = (of_nat ?b, m)" using prev by (intro merge_prev_none) simp
    then have "?P xs n m" using seg xs 1 by simp
    then show ?thesis by blast
  next
    case (2 zs a)
    have "m (of_nat (b + extent zs)) \<noteq> 0" using seg by (simp add: 2 seg_append hdr_def del: of_nat_add)
    then have "merge_prev (of_nat ?b) m = (of_nat ?b, m)" using prev by (intro merge_prev_none) (simp add: 2)
    then have "?P xs n m" using seg xs by (simp add: 2)
    then show ?thesis by blast
  next
    case (3 zs a)
    let ?c = "b + extent zs"
    have tail3: "seg m (last_block 0 b zs) ?c ((False, a) # (False, n) # ys) 0"
      using seg by (simp add: 3 seg_append)
    have "?c + 32 + a + n + extent ys \<le> 2 ^ 32" using lim by (simp add: 3)
    from merge_prev_free [OF tail3 _ this] b obtain m' where
      m': "merge_prev (of_nat (?c + 16 + a)) m = (of_nat ?c, m')"
        "seg m' (last_block 0 b zs) ?c ((False, a + 16 + n) # ys) 0"
        "only_headers (hbytes ?c ((False, a) # (False, n) # ys)) m m'"
      by auto
    have zs: "merged zs" "zs = [] \<or> fst (last zs)" using xs by (auto simp: 3 merged_append)
    have eq: "xs @ (False, n) # ys = zs @ (False, a) # (False, n) # ys" by (simp add: 3)
    have "seg m' 0 b (zs @ (False, a + 16 + n) # ys) 0"
      by (rule seg_replace_suffix [OF seg [unfolded eq] _ _ m'(2,3) hbytes_ge]) (use lim in \<open>auto simp: 3\<close>)
    moreover have "only_headers (hbytes b (xs @ (False, n) # ys)) m m'"
      by (rule only_headers_mono [OF m'(3)]) (unfold eq hbytes_append, blast)
    moreover have "hbytes b (zs @ (False, a + 16 + n) # ys) \<subseteq> hbytes b (xs @ (False, n) # ys)"
      unfolding eq hbytes_append by (auto simp: algebra_simps)
    moreover have "coalesce (xs @ (False, n) # ys) = coalesce (zs @ (False, a + 16 + n) # ys)"
      unfolding eq coalesce_append [OF zs] by simp
    moreover have "?b = ?c + 16 + a" by (simp add: 3)
    ultimately have "?P zs (a + 16 + n) m'" using m'(1) zs by (simp add: 3 add.assoc del: of_nat_add)
    then show ?thesis by blast
  qed
qed

lemma seg_free:
  assumes seg: "seg m 0 b (xs @ (True, n) # ys) 0" and mg: "merged (xs @ (True, n) # ys)"
    and b: "0 < b" and lim: "b + extent (xs @ (True, n) # ys) \<le> 2 ^ 32"
  shows "\<exists>c m'. merge_prev (of_nat (b + extent xs)) (set_used (of_nat (b + extent xs)) 0 m) = (c, m') \<and>
    seg (merge_next c m') 0 b (coalesce (xs @ (False, n) # ys)) 0 \<and>
    only_headers (hbytes b (xs @ (True, n) # ys)) m (merge_next c m')"
proof -
  let ?m = "set_used (of_nat (b + extent xs)) 0 m" and ?bs = "xs @ (False, n) # ys"
  have H: "hbytes b ?bs = hbytes b (xs @ (True, n) # ys)" by (simp add: hbytes_append)
  have m0: "seg ?m 0 b ?bs 0" "only_headers (hbytes b ?bs) m ?m"
    using seg_set_free [OF seg lim] only_headers_mono [of _ m ?m "hbytes b ?bs"]
    by (auto simp: hbytes_append)
  have mg': "merged xs" "merged ys" using mg by (auto simp: merged_append merged_Cons)
  obtain xs' n' m' where m': "merge_prev (of_nat (b + extent xs)) ?m = (of_nat (b + extent xs'), m')"
    "seg m' 0 b (xs' @ (False, n') # ys) 0" "extent (xs' @ [(False, n')]) = extent (xs @ [(False, n)])"
    "only_headers (hbytes b ?bs) ?m m'" "merged xs'" "xs' = [] \<or> fst (last xs')"
    "coalesce ?bs = coalesce (xs' @ (False, n') # ys)"
    "hbytes b (xs' @ (False, n') # ys) \<subseteq> hbytes b ?bs"
    using seg_merge_prev [OF m0(1) mg'(1) b] lim by auto
  have "b + extent (xs' @ (False, n') # ys) \<le> 2 ^ 32" using m'(3) lim by simp
  from seg_merge_next_suffix [OF m'(2) mg'(2) m'(5,6) b this]
  have m'': "seg (merge_next (of_nat (b + extent xs')) m') 0 b (coalesce ?bs) 0"
    "only_headers (hbytes b ?bs) m' (merge_next (of_nat (b + extent xs')) m')"
    using m'(7) only_headers_mono [OF _ m'(8)] by auto
  have "only_headers (hbytes b ?bs) m (merge_next (of_nat (b + extent xs')) m')"
    by (rule only_headers_trans [OF only_headers_trans [OF m0(2) m'(4)] m''(2)]) auto
  then show ?thesis using m'(1) m''(1) unfolding H by blast
qed

section \<open>The operations implement the abstract allocator\<close>

text \<open>The lists of a heap whose neighbouring free blocks are always merged, with aligned blocks.\<close>

definition heap_ok :: "'a heap_scheme \<Rightarrow> blocks \<Rightarrow> bool" where
  "heap_ok s bs \<longleftrightarrow> heap_rep s bs \<and> merged bs \<and> word_sized (unat (first s)) bs"

text \<open>The addresses of the header bytes of a heap.\<close>

definition headers :: "'a heap_scheme \<Rightarrow> blocks \<Rightarrow> nat set" where
  "headers s bs = hbytes (unat (first s)) bs"

lemma alloc_list_keeps:
  assumes "alloc_list sz bs = Some (k, bs')"
  shows "extent bs' = extent bs" "bs' \<noteq> []" "merged bs \<Longrightarrow> merged bs'"
    "word_sized b bs \<Longrightarrow> 4 dvd sz \<Longrightarrow> word_sized b bs'"
proof -
  obtain xs n ys where bs: "bs = xs @ (False, n) # ys" "sz < n" and
    bs': "bs' = xs @ (if sz + 17 \<le> n then (True, sz) # (False, n - sz - 16) # ys else (True, n) # ys)"
    using alloc_list_split [OF assms] by auto
  show "extent bs' = extent bs" "bs' \<noteq> []" by (simp_all add: bs(1) bs')
  show "merged bs'" if "merged bs"
    using that by (simp add: bs(1) bs' merged_append merged_Cons)
  show "word_sized b bs'" if "word_sized b bs" "4 dvd sz"
    using that by (simp add: bs(1) bs' word_sized_def dvd_diff_nat)
qed

lemma word_sized_coalesce: "word_sized b bs \<Longrightarrow> word_sized b (coalesce bs)"
  by (induction bs rule: coalesce.induct) (auto simp: word_sized_def)

lemma extent_coalesce [simp]: "extent (coalesce bs) = extent bs"
  by (induction bs rule: coalesce.induct) auto

lemma regions_Cons:
  "regions b (x # bs) = (if fst x then {(b + 16, snd x)} else {}) \<union> regions (b + 16 + snd x) bs"
  by (cases x) simp

lemma regions_append: "regions b (xs @ ys) = regions b xs \<union> regions (b + extent xs) ys"
  by (induction xs arbitrary: b rule: extent.induct) (auto simp: add.assoc)

lemma regions_coalesce [simp]: "regions b (coalesce bs) = regions b bs"
proof (induction bs arbitrary: b rule: coalesce.induct)
  case (1 n k bs)
  then show ?case by (simp add: add.assoc)
qed (simp_all only: coalesce.simps regions_Cons)

lemma headers_upd [simp]: "headers (s\<lparr>mem := m\<rparr>) bs = headers s bs"
  by (simp add: headers_def)

lemma kheap_init_ok:
  assumes "0 < start" and "start \<le> end" and "16 \<le> end - start" and "4 dvd unat start" and "4 dvd unat end"
  shows "\<exists>t. kheap_init start end s = Done () t \<and> first t = start \<and>
    heap_ok t [(False, unat end - unat start - 16)]"
proof -
  define m where "m = memset (mem s) start 0 (end - start)"
  let ?m = "set_size start (end - start - MB) (set_next start 0 (set_prev start 0 (set_used start 0 m)))"
  have len: "unat (end - start) = unat end - unat start" using assms(2) by (simp add: unat_sub)
  then have "unat end - unat start \<ge> 16" using assms(3) by (simp add: word_le_nat_alt)
  have "unat (end - start - 16) = unat end - unat start - 16"
    using unat_sub [OF assms(3)] by (simp only: len) simp
  then have sz: "end - start - MB = of_nat (unat end - unat start - 16)"
    by (metis MB_def of_nat_unat ucast_id)
  have "hdr ?m (unat start) False 0 0 (unat end - unat start - 16)"
    using sz by (simp add: hdr_def)
  moreover have "unat start > 0" using assms(1) by (simp add: word_less_nat_alt)
  moreover have "unat start + (unat end - unat start) \<le> 2 ^ 32"
    using assms(2) unat_u32_less [of "end"] by (simp add: word_le_nat_alt)
  ultimately show ?thesis
    using assms(4,5) \<open>unat end - unat start \<ge> 16\<close>
    by (auto simp: kheap_init_def Let_def heap_ok_def heap_rep_def m_def intro!: dvd_diff_nat)
qed

lemma heap_repD:
  assumes "heap_rep s bs"
  shows "seg (mem s) 0 (unat (first s)) bs 0" "0 < unat (first s)" "bs \<noteq> []"
    "unat (first s) + extent bs \<le> 2 ^ 32" "(if bs = [] then 0 else of_nat (unat (first s))) = first s"
    "first s \<noteq> 0"
  using assms by (auto simp: heap_rep_def)

text \<open>The result of the search, and what taking the block found does.\<close>

lemma found_None: "alloc_list (unat sz) bs = None \<Longrightarrow> found b sz bs = 0"
  by (simp add: found_def)

lemma found_Some:
  assumes "alloc_list (unat sz) bs = Some (k, bs')" and "0 < b" and "b + extent bs \<le> 2 ^ 32"
  shows "found b sz bs = of_nat (b + k)" and "found b sz bs \<noteq> 0"
proof -
  show eq: "found b sz bs = of_nat (b + k)" by (simp add: found_def assms(1))
  have "k + 16 \<le> extent bs" using alloc_list_split [OF assms(1)] by auto
  then show "found b sz bs \<noteq> 0" unfolding eq using assms(2,3) by (intro of_nat_u32_0) auto
qed

lemma take_found:
  assumes rep: "heap_rep s bs" and alloc: "alloc_list (unat sz) bs = Some (k, bs')"
  defines "t \<equiv> s\<lparr>mem := take_block sz (found (unat (first s)) sz bs) (mem s)\<rparr>"
  shows "heap_rep t bs'" "only_headers (headers s bs \<union> headers s bs') (mem s) (mem t)"
    "found (unat (first s)) sz bs = first s + of_nat k" "found (unat (first s)) sz bs \<noteq> 0"
proof -
  note s = heap_repD [OF rep]
  note f = found_Some [OF alloc s(2,4)]
  note tb = seg_take_block [OF s(1,2,4) alloc, folded f(1)]
  show "found (unat (first s)) sz bs \<noteq> 0" by (rule f)
  show "found (unat (first s)) sz bs = first s + of_nat k" using f(1) by simp
  show "only_headers (headers s bs \<union> headers s bs') (mem s) (mem t)"
    using tb(2) by (simp add: t_def headers_def)
  show "heap_rep t bs'"
    using tb(1) s alloc_list_keeps [OF alloc] by (simp add: heap_rep_def t_def)
qed

lemma kmalloc_simulation:
  assumes "heap_ok s bs" and "4 dvd unat sz"
  shows "case alloc_list (unat sz) bs of
      None \<Rightarrow> kmalloc sz s = kpanic ''can't allocate memory'' s
    | Some (k, bs') \<Rightarrow> \<exists>t. kmalloc sz s = Done (first s + of_nat k + 16) t \<and> heap_ok t bs' \<and> first t = first s \<and>
        only_headers (headers s bs \<union> headers s bs') (mem s) (mem t)"
proof -
  have ok: "heap_rep s bs" "merged bs" "word_sized (unat (first s)) bs"
    using assms(1) by (simp_all add: heap_ok_def)
  note s = heap_repD [OF ok(1)]
  have scan: "alligned_scan sz 4 (first s) (mem s) = Some (Inr (found (unat (first s)) sz bs, mem s))"
    using alligned_scan_seg [OF s(1,2,4) ok(3)] by (simp only: s(5))
  have "sz \<noteq> 1" using assms(2) by auto
  then have km: "kmalloc sz s = kmalloc_alligned sz 4 s" by (simp add: kmalloc_def)
  show ?thesis
  proof (cases "alloc_list (unat sz) bs")
    case None
    then show ?thesis by (simp add: km kmalloc_alligned_def scan found_None)
  next
    case (Some kb)
    obtain k bs' where kb: "kb = (k, bs')" by (cases kb)
    note f = take_found [OF ok(1) Some [unfolded kb]]
    show ?thesis
      using f ok assms(2) alloc_list_keeps [OF Some [unfolded kb]]
      by (simp add: km kmalloc_alligned_def scan Some kb heap_ok_def MB_def)
  qed
qed

text \<open>The regions of used blocks split the list.\<close>

lemma regions_split:
  "(a, n) \<in> regions b bs \<Longrightarrow> \<exists>xs ys. bs = xs @ (True, n) # ys \<and> a = b + extent xs + 16"
proof (induction b bs rule: regions.induct)
  case (2 b u k bs)
  show ?case
  proof (cases "(a, n) \<in> regions (b + 16 + k) bs")
    case True
    with 2 obtain xs ys where "bs = xs @ (True, n) # ys \<and> a = b + 16 + k + extent xs + 16" by blast
    then show ?thesis by (intro exI [of _ "(u, k) # xs"] exI [of _ ys]) simp
  next
    case False
    then have "u" "a = b + 16" "n = k" using 2(2) by (auto split: if_splits)
    then show ?thesis by (intro exI [of _ "[]"] exI [of _ bs]) simp
  qed
qed simp

lemma kfree_simulation:
  assumes "heap_ok s bs" and "(unat ptr, n) \<in> regions (unat (first s)) bs"
  shows "\<exists>t. kfree ptr s = Done () t \<and> first t = first s \<and>
    heap_ok t (coalesce (mark_free (unat ptr - 16 - unat (first s)) bs)) \<and>
    only_headers (headers s bs) (mem s) (mem t)"
proof -
  have ok: "heap_rep s bs" "merged bs" "word_sized (unat (first s)) bs"
    using assms(1) by (simp_all add: heap_ok_def)
  note s = heap_repD [OF ok(1)]
  let ?b = "unat (first s)"
  obtain xs ys where bs: "bs = xs @ (True, n) # ys" "unat ptr = ?b + extent xs + 16"
    using regions_split [OF assms(2)] by blast
  let ?bs = "xs @ (False, n) # ys"
  have "ptr = of_nat (?b + extent xs) + 16" using arg_cong [OF bs(2), of "of_nat :: nat \<Rightarrow> u32"] by simp
  then have blk: "ptr - MB = of_nat (?b + extent xs)" by (simp add: MB_def)
  obtain c m' where m': "merge_prev (ptr - MB) (set_used (ptr - MB) 0 (mem s)) = (c, m')"
    "seg (merge_next c m') 0 ?b (coalesce ?bs) 0" "only_headers (hbytes ?b bs) (mem s) (merge_next c m')"
    using seg_free [of "mem s" ?b xs n ys] s ok(2) unfolding blk bs(1) by blast
  have free: "mark_free (unat ptr - 16 - ?b) bs = ?bs" using bs(2) by (simp add: bs(1))
  have "word_sized ?b (coalesce ?bs)" using ok(3) by (intro word_sized_coalesce) (simp add: bs(1) word_sized_def)
  then have "heap_ok (s\<lparr>mem := merge_next c m'\<rparr>) (coalesce ?bs)"
    using s m' merged_coalesce [of ?bs] by (simp add: heap_ok_def heap_rep_def bs(1))
  then show ?thesis
    unfolding free using m' by (simp add: kfree_def Let_def headers_def)
qed

section \<open>Live regions\<close>

lemma regions_range: "(a, n) \<in> regions b bs \<Longrightarrow> b + 16 \<le> a \<and> a + n \<le> b + extent bs"
  using regions_split [of a n b bs] by auto

lemma regions_apart:
  "(a, n) \<in> regions b bs \<Longrightarrow> (a', n') \<in> regions b bs \<Longrightarrow> (a, n) \<noteq> (a', n') \<Longrightarrow>
     a + n + 16 \<le> a' \<or> a' + n' + 16 \<le> a"
proof (induction b bs rule: regions.induct)
  case (2 b u k bs)
  have later: "b + 16 + k + 16 \<le> c" if "(c, l) \<in> regions (b + 16 + k) bs" for c l
    using regions_range [OF that] by simp
  show ?case using 2 later [of a n] later [of a' n'] by (auto split: if_splits)
qed simp

lemma regions_no_header: "(a, n) \<in> regions b bs \<Longrightarrow> x \<in> {a..<a + n} \<Longrightarrow> x \<notin> hbytes b bs"
proof -
  assume "(a, n) \<in> regions b bs" and x: "x \<in> {a..<a + n}"
  then obtain xs ys where bs: "bs = xs @ (True, n) # ys" "a = b + extent xs + 16"
    using regions_split by blast
  show "x \<notin> hbytes b bs"
    using x hbytes_range [of x b xs] hbytes_range [of x "b + extent xs + 16 + n" ys]
    unfolding bs(1) hbytes_append by (auto simp: bs(2))
qed

lemma regions_alloc:
  assumes "alloc_list sz bs = Some (k, bs')"
  shows "\<exists>n \<ge> sz. regions b bs' = insert (b + k + 16, n) (regions b bs) \<and> (b + k + 16, n) \<notin> regions b bs"
proof -
  obtain xs n ys where bs: "bs = xs @ (False, n) # ys" "k = extent xs" "sz < n" and
    bs': "bs' = xs @ (if sz + 17 \<le> n then (True, sz) # (False, n - sz - 16) # ys else (True, n) # ys)"
    using alloc_list_split [OF assms] by blast
  have fresh: "(b + k + 16, l) \<notin> regions b bs" for l
    using regions_range [of "b + k + 16" l b xs] regions_range [of "b + k + 16" l "b + k + 16 + n" ys]
    by (auto simp: bs(1,2) regions_append)
  show ?thesis
  proof (cases "sz + 17 \<le> n")
    case True
    then have "b + k + 32 + sz + (n - sz - 16) = b + k + 16 + n" by simp
    then have "regions b bs' = insert (b + k + 16, sz) (regions b bs)"
      using True by (simp add: bs bs' regions_append ac_simps)
    then show ?thesis using fresh by blast
  next
    case False
    then have "regions b bs' = insert (b + k + 16, n) (regions b bs)"
      by (simp add: bs bs' regions_append)
    then show ?thesis using fresh bs(3) less_imp_le by blast
  qed
qed

lemma regions_mark_free:
  assumes "(a, n) \<in> regions b bs"
  shows "regions b (mark_free (a - 16 - b) bs) = regions b bs - {(a, n)}"
proof -
  obtain xs ys where bs: "bs = xs @ (True, n) # ys" "a = b + extent xs + 16"
    using regions_split [OF assms] by blast
  have "(a, n) \<notin> regions b xs" "(a, n) \<notin> regions (b + extent xs + 16 + n) ys"
    using regions_range [of a n b xs] regions_range [of a n "b + extent xs + 16 + n" ys] by (auto simp: bs(2))
  moreover have "mark_free (a - 16 - b) bs = xs @ (False, n) # ys" by (simp add: bs)
  ultimately show ?thesis by (auto simp: bs regions_append)
qed

text \<open>The block list read back from memory, and the live regions of a heap.\<close>

partial_function (option) heap_blocks :: "memory \<Rightarrow> u32 \<Rightarrow> blocks option" where
  "heap_blocks m b =
     (if b = 0 then Some []
      else Option.bind (heap_blocks m (mb_next m b)) (\<lambda>bs. Some ((m b \<noteq> 0, unat (mb_size m b)) # bs)))"

lemma heap_blocks_seg:
  assumes "seg m p b bs 0" and "0 < b" and "b + extent bs \<le> 2 ^ 32"
  shows "heap_blocks m (if bs = [] then 0 else of_nat b) = Some bs"
  using assms
proof (induction m p b bs "0::nat" rule: seg.induct)
  case (1 m p b)
  then show ?case by (subst heap_blocks.simps) simp
next
  case (2 m p b u n bs)
  have lim: "b + 16 + n + extent bs \<le> 2 ^ 32" using 2(4) by simp
  have "heap_blocks m (if bs = [] then 0 else of_nat (b + 16 + n)) = Some bs"
    using 2 by simp
  moreover have "unat (of_nat n :: u32) = n" using 2(4) \<open>0 < b\<close> by (simp add: unat_of_nat)
  ultimately show ?case
    using seg_step [OF 2(2,3) lim] seg_head(3) [OF 2(2)] by (subst heap_blocks.simps) simp
qed

definition heap_live :: "'a heap_scheme \<Rightarrow> (nat \<times> nat) set" where
  "heap_live s = (case heap_blocks (mem s) (first s) of None \<Rightarrow> {} | Some bs \<Rightarrow> regions (unat (first s)) bs)"

definition heap_inv :: "'a heap_scheme \<Rightarrow> bool" where
  "heap_inv s \<longleftrightarrow> (\<exists>bs. heap_ok s bs)"

lemma heap_live_eq: "heap_ok s bs \<Longrightarrow> heap_live s = regions (unat (first s)) bs"
proof -
  assume "heap_ok s bs"
  then have "heap_rep s bs" by (simp add: heap_ok_def)
  note s = heap_repD [OF this]
  show ?thesis using heap_blocks_seg [OF s(1,2,4)] s(5) by (simp add: heap_live_def)
qed

section \<open>The contract of a storage allocator\<close>

text \<open>
  What a client of \<^verbatim>\<open>kmalloc\<close> and \<^verbatim>\<open>kfree\<close> relies on: a request yields a region of at least
  the requested size apart from every live region, releasing a live region makes exactly that
  region dead, and neither touches the contents of the other live regions. A client's run is a
  sequence of requests and releases of live regions.
\<close>

datatype heap_call = Malloc u32 | Free u32

inductive client_run ::
    "(u32 \<Rightarrow> 's \<Rightarrow> ('s, u32) outcome) \<Rightarrow> (u32 \<Rightarrow> 's \<Rightarrow> ('s, unit) outcome) \<Rightarrow>
     ('s \<Rightarrow> (nat \<times> nat) set) \<Rightarrow> 's \<Rightarrow> heap_call list \<Rightarrow> 's \<Rightarrow> bool"
  for alloc free live where
  run_Nil: "client_run alloc free live s [] s"
| run_Malloc: "alloc n s = Done p t \<Longrightarrow> client_run alloc free live t cs u \<Longrightarrow>
    client_run alloc free live s (Malloc n # cs) u"
| run_Free: "(unat p, k) \<in> live s \<Longrightarrow> free p s = Done () t \<Longrightarrow> client_run alloc free live t cs u \<Longrightarrow>
    client_run alloc free live s (Free p # cs) u"

inductive_cases client_run_MallocE: "client_run alloc free live s (Malloc n # cs) u"
inductive_cases client_run_FreeE: "client_run alloc free live s (Free p # cs) u"

locale storage =
  fixes alloc :: "u32 \<Rightarrow> 's \<Rightarrow> ('s, u32) outcome"
    and free :: "u32 \<Rightarrow> 's \<Rightarrow> ('s, unit) outcome"
    and inv :: "'s \<Rightarrow> bool"
    and live :: "'s \<Rightarrow> (nat \<times> nat) set"
    and content :: "'s \<Rightarrow> nat \<Rightarrow> u8"
    and request :: "u32 \<Rightarrow> bool"
  assumes live_apart: "inv s \<Longrightarrow> (a, k) \<in> live s \<Longrightarrow> (a', k') \<in> live s \<Longrightarrow> (a, k) \<noteq> (a', k') \<Longrightarrow>
      a + k < a' \<or> a' + k' < a"
    and alloc_live: "inv s \<Longrightarrow> request n \<Longrightarrow> alloc n s = Done p t \<Longrightarrow>
      inv t \<and> (\<exists>k \<ge> unat n. live t = insert (unat p, k) (live s) \<and> (unat p, k) \<notin> live s)"
    and alloc_content: "inv s \<Longrightarrow> request n \<Longrightarrow> alloc n s = Done p t \<Longrightarrow> (a, k) \<in> live s \<Longrightarrow>
      x \<in> {a..<a + k} \<Longrightarrow> content t x = content s x"
    and free_live: "inv s \<Longrightarrow> (unat p, k) \<in> live s \<Longrightarrow> free p s = Done () t \<Longrightarrow>
      inv t \<and> live t = live s - {(unat p, k)}"
    and free_content: "inv s \<Longrightarrow> (unat p, j) \<in> live s \<Longrightarrow> free p s = Done () t \<Longrightarrow> (a, k) \<in> live s \<Longrightarrow>
      x \<in> {a..<a + k} \<Longrightarrow> content t x = content s x"
begin

lemma run_safe:
  assumes "client_run alloc free live s cs t" and "inv s" and "\<forall>n. Malloc n \<in> set cs \<longrightarrow> request n"
  shows "inv t \<and> (\<forall>(a, k) \<in> live s. (\<forall>p. Free p \<in> set cs \<longrightarrow> unat p \<noteq> a) \<longrightarrow>
    (a, k) \<in> live t \<and> (\<forall>x \<in> {a..<a + k}. content t x = content s x))"
  using assms
proof (induction s cs t rule: client_run.induct)
  case (run_Malloc n s p t cs u)
  have n: "request n" using run_Malloc.prems(2) by simp
  have IH: "inv u \<and> (\<forall>(a, k) \<in> live t. (\<forall>p. Free p \<in> set cs \<longrightarrow> unat p \<noteq> a) \<longrightarrow>
      (a, k) \<in> live u \<and> (\<forall>x \<in> {a..<a + k}. content u x = content t x))"
    using run_Malloc.IH run_Malloc.prems alloc_live [OF run_Malloc.prems(1) n run_Malloc.hyps(1)] by simp
  have "live s \<subseteq> live t"
    using alloc_live [OF run_Malloc.prems(1) n run_Malloc.hyps(1)] by blast
  have "(a, k) \<in> live u \<and> (\<forall>x \<in> {a..<a + k}. content u x = content s x)"
    if "(a, k) \<in> live s" "\<forall>p. Free p \<in> set (Malloc n # cs) \<longrightarrow> unat p \<noteq> a" for a k
  proof -
    have "(a, k) \<in> live t" using that(1) \<open>live s \<subseteq> live t\<close> by blast
    then have "(a, k) \<in> live u" "\<forall>x \<in> {a..<a + k}. content u x = content t x"
      using IH that(2) by auto
    then show ?thesis
      using alloc_content [OF run_Malloc.prems(1) n run_Malloc.hyps(1) that(1)] by simp
  qed
  with IH show ?case by blast
next
  case (run_Free p j s t cs u)
  note step = free_live [OF run_Free.prems(1) run_Free.hyps(1,2)]
  have IH: "inv u \<and> (\<forall>(a, k) \<in> live t. (\<forall>p. Free p \<in> set cs \<longrightarrow> unat p \<noteq> a) \<longrightarrow>
      (a, k) \<in> live u \<and> (\<forall>x \<in> {a..<a + k}. content u x = content t x))"
    using run_Free.IH run_Free.prems step by simp
  have "(a, k) \<in> live u \<and> (\<forall>x \<in> {a..<a + k}. content u x = content s x)"
    if "(a, k) \<in> live s" "\<forall>q. Free q \<in> set (Free p # cs) \<longrightarrow> unat q \<noteq> a" for a k
  proof -
    have "(a, k) \<in> live t" using that step by auto
    then have "(a, k) \<in> live u" "\<forall>x \<in> {a..<a + k}. content u x = content t x"
      using IH that by auto
    then show ?thesis
      using free_content [OF run_Free.prems(1) run_Free.hyps(1,2) that(1)] by simp
  qed
  with IH show ?case by blast
qed simp

end

lemma heap_alloc_step:
  assumes "heap_ok s bs" and "4 dvd unat n" and "kmalloc n s = Done p t"
  shows "\<exists>k bs'. alloc_list (unat n) bs = Some (k, bs') \<and> heap_ok t bs' \<and> first t = first s \<and>
    unat p = unat (first s) + k + 16 \<and> only_headers (headers s bs \<union> headers s bs') (mem s) (mem t)"
proof (cases "alloc_list (unat n) bs")
  case None
  then show ?thesis using kmalloc_simulation [OF assms(1,2)] assms(3) by (simp add: kpanic_def Let_def)
next
  case (Some kb)
  obtain k bs' where kb: "kb = (k, bs')" by (cases kb)
  have "k + 16 < extent bs" using alloc_list_split [OF Some [unfolded kb]] by auto
  moreover have "unat (first s) + extent bs \<le> 2 ^ 32" using assms(1) by (simp add: heap_ok_def heap_rep_def)
  ultimately have "unat (first s + of_nat k + 16) = unat (first s) + k + 16"
    by (simp add: unat_word_ariths unat_of_nat)
  then show ?thesis using kmalloc_simulation [OF assms(1,2)] assms(3) Some kb by auto
qed

lemma heap_free_step:
  assumes "heap_ok s bs" and "(unat p, n) \<in> heap_live s" and "kfree p s = Done () t"
  shows "heap_ok t (coalesce (mark_free (unat p - 16 - unat (first s)) bs))" "first t = first s"
    "only_headers (headers s bs) (mem s) (mem t)"
  using kfree_simulation [OF assms(1), of p n] heap_live_eq [OF assms(1)] assms(2,3) by auto

lemma region_untouched:
  assumes "heap_ok s bs" and "(a, k) \<in> heap_live s" and "x \<in> {a..<a + k}"
    and "only_headers H (mem s) m'" and "x \<notin> H"
  shows "m' (of_nat x) = mem s (of_nat x)"
proof -
  have "(a, k) \<in> regions (unat (first s)) bs" using heap_live_eq [OF assms(1)] assms(2) by simp
  then have "x < 2 ^ 32"
    using regions_range assms(1,3) by (fastforce simp: heap_ok_def heap_rep_def)
  then show ?thesis using assms(4,5) by (simp add: only_headers_def)
qed

interpretation kheap: storage kmalloc kfree heap_inv heap_live "\<lambda>s x. mem s (of_nat x)" "\<lambda>n. 4 dvd unat n"
proof unfold_locales
  fix s :: "'a heap_scheme" and t a k a' k' n p x j
  show "a + k < a' \<or> a' + k' < a"
    if "heap_inv s" "(a, k) \<in> heap_live s" "(a', k') \<in> heap_live s" "(a, k) \<noteq> (a', k')"
  proof -
    from that(1) obtain bs where bs: "heap_ok s bs" by (auto simp: heap_inv_def)
    show ?thesis using that(2-4) regions_apart [of a k _ bs a' k'] unfolding heap_live_eq [OF bs] by fastforce
  qed
  assume inv: "heap_inv s"
  then obtain bs where bs: "heap_ok s bs" by (auto simp: heap_inv_def)
  note live = heap_live_eq [OF bs]
  show "heap_inv t \<and> (\<exists>k \<ge> unat n. heap_live t = insert (unat p, k) (heap_live s) \<and> (unat p, k) \<notin> heap_live s)"
    if "4 dvd unat n" "kmalloc n s = Done p t"
  proof -
    from heap_alloc_step [OF bs that] obtain l bs' where
      a: "alloc_list (unat n) bs = Some (l, bs')" "heap_ok t bs'" "first t = first s"
        "unat p = unat (first s) + l + 16" by blast
    show ?thesis
      using regions_alloc [OF a(1), of "unat (first s)"] a live heap_live_eq [OF a(2)]
      by (auto simp: heap_inv_def)
  qed
  show "mem t (of_nat x) = mem s (of_nat x)"
    if "4 dvd unat n" "kmalloc n s = Done p t" "(a, k) \<in> heap_live s" "x \<in> {a..<a + k}"
  proof -
    from heap_alloc_step [OF bs that(1,2)] obtain l bs' where
      a: "alloc_list (unat n) bs = Some (l, bs')"
        "only_headers (headers s bs \<union> headers s bs') (mem s) (mem t)" by blast
    have "(a, k) \<in> regions (unat (first s)) bs" "(a, k) \<in> regions (unat (first s)) bs'"
      using regions_alloc [OF a(1), of "unat (first s)"] that(3) live by auto
    then have "x \<notin> headers s bs \<union> headers s bs'"
      using regions_no_header that(4) by (auto simp: headers_def)
    then show ?thesis by (rule region_untouched [OF bs that(3,4) a(2)])
  qed
  show "heap_inv t \<and> heap_live t = heap_live s - {(unat p, k)}"
    if "(unat p, k) \<in> heap_live s" "kfree p s = Done () t"
    using heap_free_step [OF bs that] heap_live_eq [OF heap_free_step(1) [OF bs that]] live that(1)
      regions_mark_free [of "unat p" k "unat (first s)" bs] by (auto simp: heap_inv_def)
  show "mem t (of_nat x) = mem s (of_nat x)"
    if "(unat p, j) \<in> heap_live s" "kfree p s = Done () t" "(a, k) \<in> heap_live s" "x \<in> {a..<a + k}"
  proof -
    have "x \<notin> headers s bs" using regions_no_header that(3,4) live by (auto simp: headers_def)
    then show ?thesis by (rule region_untouched [OF bs that(3,4) heap_free_step(3) [OF bs that(1,2)]])
  qed
qed

section \<open>The bytes the heap owns\<close>

text \<open>The bytes of a heap outside the live regions: the headers and the free space.\<close>

definition heap_own :: "'a heap_scheme \<Rightarrow> blocks \<Rightarrow> u32 set" where
  "heap_own s bs = {x. unat (first s) \<le> unat x \<and> unat x < unat (first s) + extent bs \<and>
     (\<forall>(a, n) \<in> regions (unat (first s)) bs. unat x \<notin> {a..<a + n})}"

lemma headers_own:
  assumes "heap_ok s bs" and "x \<in> hbytes (unat (first s)) bs'" and "extent bs' = extent bs"
    and "regions (unat (first s)) bs \<subseteq> regions (unat (first s)) bs'"
  shows "of_nat x \<in> heap_own s bs" "x < 2 ^ 32"
proof -
  have "unat (first s) + extent bs \<le> 2 ^ 32" using assms(1) by (simp add: heap_ok_def heap_rep_def)
  then show x: "x < 2 ^ 32" using hbytes_range [OF assms(2)] assms(3) by simp
  have "unat (of_nat x :: u32) = x" using x by (simp add: unat_of_nat)
  then show "of_nat x \<in> heap_own s bs"
    using hbytes_range [OF assms(2)] assms(2-4) regions_no_header [of _ _ "unat (first s)" bs' x] by (auto simp: heap_own_def)
qed

lemma only_headers_own:
  assumes "only_headers H (mem s) m" and "\<forall>x \<in> H. of_nat x \<in> heap_own s bs"
  shows "only (heap_own s bs) (mem s) m"
  unfolding only_def
proof (intro allI impI)
  fix x assume "x \<notin> heap_own s bs"
  then have "unat x \<notin> H" using assms(2) by force
  then show "m x = mem s x" using assms(1) unat_u32_less [of x] by (auto simp: only_headers_def dest: spec [of _ "unat x"])
qed

lemma heap_ok_frame:
  assumes ok: "heap_ok s bs" and first: "first t = first s" and same: "\<forall>x \<in> headers s bs. mem t (of_nat x) = mem s (of_nat x)"
  shows "heap_ok t bs"
proof -
  have "seg (mem t) 0 (unat (first s)) bs 0 = seg (mem s) 0 (unat (first s)) bs 0"
    using same unfolding headers_def by (rule seg_cong)
  then show ?thesis using ok first by (simp add: heap_ok_def heap_rep_def)
qed

lemma heap_ok_only:
  assumes "heap_ok s bs" and "first t = first s" and "only R (mem s) (mem t)" and "R \<inter> heap_own s bs = {}"
  shows "heap_ok t bs"
  using headers_own(1) [OF assms(1) _ refl order_refl] assms(3,4)
  by (intro heap_ok_frame [OF assms(1,2)]) (auto simp: headers_def only_def)

lemma kmalloc_own:
  assumes ok: "heap_ok s bs" and sz: "4 dvd unat n" "n \<noteq> 0" and run: "kmalloc n s = Done p t"
  obtains k bs' where "alloc_list (unat n) bs = Some (k, bs')" "heap_ok t bs'" "first t = first s" "unat p = unat (first s) + k + 16"
    "only (heap_own s bs) (mem s) (mem t)" "bytes p n \<subseteq> heap_own s bs" "heap_own t bs' \<subseteq> heap_own s bs - bytes p n"
proof -
  obtain k bs' where a: "alloc_list (unat n) bs = Some (k, bs')" "heap_ok t bs'" "first t = first s" "unat p = unat (first s) + k + 16"
    "only_headers (headers s bs \<union> headers s bs') (mem s) (mem t)"
    using heap_alloc_step [OF ok sz(1) run] by blast
  obtain l where l: "unat n \<le> l" "regions (unat (first s)) bs' = insert (unat p, l) (regions (unat (first s)) bs)"
    "(unat p, l) \<notin> regions (unat (first s)) bs"
    using regions_alloc [OF a(1), of "unat (first s)"] a(4) by auto
  have e: "extent bs' = extent bs" using alloc_list_keeps [OF a(1)] by simp
  have "only (heap_own s bs) (mem s) (mem t)"
    using headers_own(1) [OF ok] l(2) e by (intro only_headers_own [OF a(5)]) (auto simp: headers_def)
  moreover have "unat x \<in> {unat p..<unat p + l}" if "x \<in> bytes p n" for x
  proof -
    have "unat p + l \<le> 2 ^ 32"
      using regions_range [of "unat p" l "unat (first s)" bs'] l(2) a(2,3) by (simp add: heap_ok_def heap_rep_def)
    moreover have "unat (x - p) < l" using that l(1) by (simp add: bytes_def word_less_nat_alt)
    ultimately have "unat (p + (x - p)) = unat p + unat (x - p)" by (intro unat_add_fits) simp
    then show ?thesis using \<open>unat (x - p) < l\<close> by simp
  qed
  note x = this
  have "bytes p n \<subseteq> heap_own s bs"
  proof
    fix y assume "y \<in> bytes p n"
    note y = x [OF this]
    have "unat y \<notin> {b..<b + m}" if "(b, m) \<in> regions (unat (first s)) bs" for b m
    proof -
      have "(b, m) \<noteq> (unat p, l)" using that l(3) by blast
      then show ?thesis using regions_apart [of b m "unat (first s)" bs' "unat p" l] that l(2) y by auto
    qed
    moreover have "unat (first s) + 16 \<le> unat p" "unat p + l \<le> unat (first s) + extent bs"
      using regions_range [of "unat p" l "unat (first s)" bs'] l(2) e by auto
    ultimately show "y \<in> heap_own s bs" using y by (auto simp: heap_own_def)
  qed
  moreover have "heap_own t bs' \<subseteq> heap_own s bs - bytes p n"
    using l(2) e a(3) x by (fastforce simp: heap_own_def)
  ultimately show thesis using that a by blast
qed

lemma free_after_alloc:
  assumes "alloc_list sz bs = Some (k, bs')" and "merged bs"
  shows "coalesce (mark_free k bs') = bs"
proof -
  obtain xs n ys where bs: "bs = xs @ (False, n) # ys" "k = extent xs" "sz < n" and
    bs': "bs' = xs @ (if sz + 17 \<le> n then (True, sz) # (False, n - sz - 16) # ys else (True, n) # ys)"
    using alloc_list_split [OF assms(1)] by blast
  have xs: "merged xs" "xs = [] \<or> fst (last xs)" "merged ((False, n) # ys)"
    using assms(2) by (auto simp: bs(1) merged_append)
  show ?thesis
    using coalesce_merged [OF xs(3)] by (auto simp: bs bs' coalesce_append [OF xs(1,2)])
qed

lemma kfree_own:
  assumes a: "alloc_list (unat n) bs = Some (k, bs')" and ok: "heap_ok t bs'" "merged bs" and p: "unat p = unat (first t) + k + 16"
  obtains u where "kfree p t = Done () u" "heap_ok u bs" "first u = first t" "only (heap_own t bs') (mem t) (mem u)"
proof -
  obtain l where "(unat p, l) \<in> regions (unat (first t)) bs'"
    using regions_alloc [OF a, of "unat (first t)"] p by auto
  then obtain u where u: "kfree p t = Done () u" "first u = first t"
    "heap_ok u (coalesce (mark_free (unat p - 16 - unat (first t)) bs'))" "only_headers (headers t bs') (mem t) (mem u)"
    using kfree_simulation [OF ok(1)] by blast
  have "heap_ok u bs" using u(3) free_after_alloc [OF a ok(2)] p by simp
  moreover have "only (heap_own t bs') (mem t) (mem u)"
    using headers_own(1) [OF ok(1) _ refl order_refl] by (intro only_headers_own [OF u(4)]) (auto simp: headers_def)
  ultimately show thesis using that u by blast
qed

section \<open>Properties\<close>

text \<open>A freshly initialised heap of fifteen pages, as \<^verbatim>\<open>kernel_main\<close> sets it up.\<close>

definition sample_heap :: heap where
  "sample_heap = (paging.extend (boot_paging 1024) (heap.fields 0xC0113000 0xC0122000 0xF000 0xC0113000))
     \<lparr>mem := set_size 0xC0113000 0xEFF0 (\<lambda>_. 0)\<rparr>"

lemma sample_heap_first [simp]: "first sample_heap = 0xC0113000"
  by (simp add: sample_heap_def paging.extend_def heap.fields_def boot_paging_def frames.extend_def)

lemma sample_heap_ok: "heap_ok sample_heap [(False, 0xEFF0)]"
proof -
  have "mem sample_heap = set_size 0xC0113000 0xEFF0 (\<lambda>_. 0)" by (simp add: sample_heap_def)
  moreover have "hdr (set_size 0xC0113000 0xEFF0 (\<lambda>_. 0)) 0xC0113000 False 0 0 0xEFF0"
    by (simp add: hdr_def) (simp add: header_defs rd32_def)
  ultimately show ?thesis by (simp add: heap_ok_def heap_rep_def)
qed

lemma sample_alloc:
  "\<exists>t. kmalloc 64 sample_heap = Done 0xC0113010 t \<and> heap_ok t [(True, 64), (False, 0xEFA0)]"
  using kmalloc_simulation [OF sample_heap_ok, of 64] by auto

text \<open>C1: \<^verbatim>\<open>kmalloc\<close> of a multiple of four bytes implements first-fit allocation on the block
  list. It panics exactly when no free block has more than \<open>sz\<close> bytes; otherwise it returns the
  payload address of the first such block, memory then holds the block list with that block
  carved, every block is aligned and no two free blocks are adjacent, and nothing but block headers
  was written.\<close>

theorem kmalloc_refines_alloc_list:
  assumes "heap_ok s bs" and "4 dvd unat sz"
  shows "case alloc_list (unat sz) bs of
      None \<Rightarrow> kmalloc sz s = kpanic ''can't allocate memory'' s
    | Some (k, bs') \<Rightarrow> \<exists>t. kmalloc sz s = Done (first s + of_nat k + 16) t \<and> heap_ok t bs' \<and> first t = first s \<and>
        only_headers (headers s bs \<union> headers s bs') (mem s) (mem t)"
  using kmalloc_simulation [OF assms] .

theorem kmalloc_refines_alloc_list_witness:
  "(\<exists>t. kmalloc 64 sample_heap = Done 0xC0113010 t \<and> heap_ok t [(True, 64), (False, 0xEFA0)]) \<and>
   kmalloc 0xF000 sample_heap = kpanic ''can't allocate memory'' sample_heap"
  using kmalloc_refines_alloc_list [OF sample_heap_ok, of 64]
    kmalloc_refines_alloc_list [OF sample_heap_ok, of "0xF000"] by auto

text \<open>C2: \<^verbatim>\<open>kfree\<close> of the payload address of a used block marks that block free and merges it
  with its free neighbours: memory then holds the coalesced list, no two free blocks are adjacent,
  and nothing but block headers was written.\<close>

theorem kfree_refines_coalesce:
  assumes "heap_ok s bs" and "(unat ptr, n) \<in> regions (unat (first s)) bs"
  shows "\<exists>t. kfree ptr s = Done () t \<and> first t = first s \<and>
    heap_ok t (coalesce (mark_free (unat ptr - 16 - unat (first s)) bs)) \<and>
    only_headers (headers s bs) (mem s) (mem t)"
  using kfree_simulation [OF assms] .

theorem kfree_refines_coalesce_witness:
  "\<exists>t u. kmalloc 64 sample_heap = Done 0xC0113010 t \<and> kfree 0xC0113010 t = Done () u \<and>
     heap_ok u [(False, 0xEFF0)]"
proof -
  obtain t where t: "kmalloc 64 sample_heap = Done 0xC0113010 t"
    "heap_ok t [(True, 64), (False, 0xEFA0)]" "first t = 0xC0113000"
    using kmalloc_simulation [OF sample_heap_ok, of 64] by auto
  then show ?thesis using kfree_refines_coalesce [OF t(2), of "0xC0113010" 64] by auto
qed

text \<open>C3: however clients interleave requests for multiples of four bytes and releases of live
  regions, the heap invariant is kept, live regions never overlap, and a region that is not
  released stays live with its contents unchanged.\<close>

theorem heap_clients_isolated:
  assumes "client_run kmalloc kfree heap_live s cs t" and "heap_inv s"
    and "\<forall>n. Malloc n \<in> set cs \<longrightarrow> 4 dvd unat n"
  shows "heap_inv t \<and>
    (\<forall>(a, k) \<in> heap_live t. \<forall>(a', k') \<in> heap_live t. (a, k) \<noteq> (a', k') \<longrightarrow>
       {a..<a + k} \<inter> {a'..<a' + k'} = {}) \<and>
    (\<forall>(a, k) \<in> heap_live s. (\<forall>p. Free p \<in> set cs \<longrightarrow> unat p \<noteq> a) \<longrightarrow>
       (a, k) \<in> heap_live t \<and> (\<forall>x \<in> {a..<a + k}. mem t (of_nat x) = mem s (of_nat x)))"
proof -
  note safe = kheap.run_safe [OF assms]
  have "{a..<a + k} \<inter> {a'..<a' + k'} = {}"
    if "(a, k) \<in> heap_live t" "(a', k') \<in> heap_live t" "(a, k) \<noteq> (a', k')" for a k a' k'
    using kheap.live_apart [OF _ that] safe by fastforce
  then show ?thesis using safe by blast
qed

theorem heap_clients_isolated_witness:
  "\<exists>t. client_run kmalloc kfree heap_live sample_heap [Malloc 64] t \<and> heap_inv t"
proof -
  obtain t where t: "kmalloc 64 sample_heap = Done 0xC0113010 t" using sample_alloc by blast
  have run: "client_run kmalloc kfree heap_live sample_heap [Malloc 64] t"
    by (rule run_Malloc, rule t, rule run_Nil)
  moreover have "heap_inv sample_heap" using sample_heap_ok by (auto simp: heap_inv_def)
  ultimately show ?thesis using heap_clients_isolated [OF run] by auto
qed

text \<open>C4: in a heap in order, releasing a block of a multiple of four bytes right after it was allocated restores the block list: the split is
  undone and no memory is lost to fragmentation. (For other sizes the list need not come back: the aligned allocation of a block behind an odd one moves a header.)\<close>

theorem kmalloc_kfree_round_trip:
  assumes "heap_ok s bs" and "4 dvd unat sz" and "kmalloc sz s = Done p t"
  shows "\<exists>u. kfree p t = Done () u \<and> heap_ok u bs \<and> heap_blocks (mem u) (first u) = Some bs"
proof -
  obtain k bs' where a: "alloc_list (unat sz) bs = Some (k, bs')" "heap_ok t bs'" "first t = first s"
    "unat p = unat (first s) + k + 16"
    using heap_alloc_step [OF assms] by blast
  obtain n where "(unat p, n) \<in> regions (unat (first t)) bs'"
    using regions_alloc [OF a(1), of "unat (first s)"] a(3,4) by auto
  then obtain u where u: "kfree p t = Done () u"
    "heap_ok u (coalesce (mark_free (unat p - 16 - unat (first t)) bs'))"
    using kfree_simulation [OF a(2)] by blast
  have "unat p - 16 - unat (first t) = k" using a(3,4) by simp
  then have ok: "heap_ok u bs"
    using u(2) free_after_alloc [OF a(1)] assms(1) by (simp add: heap_ok_def)
  then have "heap_rep u bs" by (simp add: heap_ok_def)
  note r = heap_repD [OF this]
  have "heap_blocks (mem u) (first u) = Some bs" using heap_blocks_seg [OF r(1,2,4)] by (simp only: r(5))
  with u(1) ok show ?thesis by blast
qed

theorem kmalloc_kfree_round_trip_witness:
  "\<exists>t u. kmalloc 64 sample_heap = Done 0xC0113010 t \<and> kfree 0xC0113010 t = Done () u \<and>
     heap_blocks (mem u) (first u) = Some [(False, 0xEFF0)]"
proof -
  obtain t where t: "kmalloc 64 sample_heap = Done 0xC0113010 t" using sample_alloc by blast
  then show ?thesis using kmalloc_kfree_round_trip [OF sample_heap_ok _ t] by auto
qed

text \<open>\<^verbatim>\<open>kmalloc(1)\<close> searches without alignment and, unlike any other request, returns the
  null pointer when nothing fits; otherwise it too implements first-fit allocation. The remaining
  free block then starts at an odd address.\<close>

theorem kmalloc_one_byte:
  assumes "heap_rep s bs"
  shows "case alloc_list 1 bs of
      None \<Rightarrow> kmalloc 1 s = Done 0 s
    | Some (k, bs') \<Rightarrow> \<exists>t. kmalloc 1 s = Done (first s + of_nat k + 16) t \<and> heap_rep t bs' \<and>
        only_headers (headers s bs \<union> headers s bs') (mem s) (mem t)"
proof -
  note s = heap_repD [OF assms]
  have scan: "find_fit 1 (first s) (mem s) = Some (found (unat (first s)) 1 bs)"
    using find_fit_seg [OF s(1,2,4)] by (simp only: s(5))
  show ?thesis
  proof (cases "alloc_list 1 bs")
    case None
    then show ?thesis by (simp add: kmalloc_def scan found_None)
  next
    case (Some kb)
    obtain k bs' where kb: "kb = (k, bs')" by (cases kb)
    have "alloc_list (unat (1 :: u32)) bs = Some (k, bs')" using Some kb by simp
    from take_found [OF assms this] show ?thesis
      unfolding Some kb by (simp add: kmalloc_def scan MB_def)
  qed
qed

theorem kmalloc_one_byte_witness:
  "\<exists>t. kmalloc 1 sample_heap = Done 0xC0113010 t \<and> heap_rep t [(True, 1), (False, 0xEFDF)]"
proof -
  have "heap_rep sample_heap [(False, 0xEFF0)]" using sample_heap_ok by (simp add: heap_ok_def)
  from kmalloc_one_byte [OF this] show ?thesis by auto
qed

text \<open>\<^verbatim>\<open>kcalloc\<close> does not hand out the region it allocates: the pointer it returns is 16
  bytes past the region's start, so the requested bytes run 16 bytes past the requested size, and
  the payload is not cleared.\<close>

theorem kcalloc_skips_sixteen_bytes:
  assumes "heap_ok s bs" and "4 dvd unat (sz * nmemb)" and "nmemb \<noteq> 0" and "sz \<noteq> 0"
    and "kcalloc nmemb sz s = Done p t"
  shows "\<exists>k \<ge> unat (sz * nmemb). (unat (p - 16), k) \<in> heap_live t \<and> (unat (p - 16), k) \<notin> heap_live s \<and>
    (\<forall>x \<in> {unat (p - 16)..<unat (p - 16) + k}. x \<notin> headers s bs \<longrightarrow> mem t (of_nat x) = mem s (of_nat x))"
proof -
  have km: "kmalloc (sz * nmemb) s = Done (p - 16) t"
    using assms(3-5) by (auto simp: kcalloc_def obind_Done_iff MB_def)
  obtain l bs' where a: "alloc_list (unat (sz * nmemb)) bs = Some (l, bs')" "heap_ok t bs'" "first t = first s"
    "unat (p - 16) = unat (first s) + l + 16"
    "only_headers (headers s bs \<union> headers s bs') (mem s) (mem t)"
    using heap_alloc_step [OF assms(1,2) km] by blast
  have live: "heap_live t = regions (unat (first s)) bs'" "heap_live s = regions (unat (first s)) bs"
    using heap_live_eq [OF a(2)] heap_live_eq [OF assms(1)] a(3) by simp_all
  obtain k where k: "k \<ge> unat (sz * nmemb)" "(unat (p - 16), k) \<in> heap_live t" "(unat (p - 16), k) \<notin> heap_live s"
    using regions_alloc [OF a(1), of "unat (first s)"] unfolding live a(4) by auto
  have "mem t (of_nat x) = mem s (of_nat x)"
    if x: "x \<in> {unat (p - 16)..<unat (p - 16) + k}" "x \<notin> headers s bs" for x
  proof -
    have "x \<notin> headers s bs'"
      using regions_no_header [of "unat (p - 16)" k "unat (first s)" bs'] k(2) x(1) live by (simp add: headers_def)
    moreover have "x < 2 ^ 32"
      using regions_range [of "unat (p - 16)" k] k(2) x(1) a(2,3) live by (fastforce simp: heap_ok_def heap_rep_def)
    ultimately show ?thesis using a(5) x(2) by (simp add: only_headers_def)
  qed
  then show ?thesis using k by blast
qed

theorem kcalloc_skips_sixteen_bytes_witness:
  "\<exists>t k. kcalloc 16 4 sample_heap = Done 0xC0113020 t \<and> (0xC0113010, k) \<in> heap_live t"
proof -
  obtain t where "kmalloc 64 sample_heap = Done 0xC0113010 t" using sample_alloc by blast
  then have t: "kcalloc 16 4 sample_heap = Done 0xC0113020 t" by (simp add: kcalloc_def MB_def)
  from kcalloc_skips_sixteen_bytes [OF sample_heap_ok _ _ _ this] t show ?thesis by auto
qed

lemma kfree_is_kfree_block: "kfree ptr s = kfree_block (ptr - MB) s"
  by (simp add: kfree_def kfree_block_def Let_def)

text \<open>\<^verbatim>\<open>krealloc\<close> of a live region releases it, allocates a new one, and then copies the old
  size from the released region to 16 bytes past the start of the new one, which is also the
  pointer it returns.\<close>

theorem krealloc_copies_past_region:
  fixes s t :: "'a heap_scheme"
  assumes ok: "heap_ok s bs" and live: "(unat ptr, n) \<in> heap_live s" and sz: "sz \<noteq> 0" "4 dvd unat sz"
    and run: "krealloc ptr sz s = Done p t"
  shows "\<exists>(u :: 'a heap_scheme) k. heap_inv u \<and> unat sz \<le> k \<and> (unat (p - 16), k) \<in> heap_live u \<and>
    mem t = memcpy (mem u) p ptr (of_nat n)"
proof -
  note b = heap_live_eq [OF ok]
  have rep: "heap_rep s bs" using ok by (simp add: heap_ok_def)
  obtain xs ys where bs: "bs = xs @ (True, n) # ys" "unat ptr = unat (first s) + extent xs + 16"
    using regions_split live b by blast
  have "seg (mem s) (last_block 0 (unat (first s)) xs) (unat (first s) + extent xs) ((True, n) # ys) 0"
    using heap_repD(1) [OF rep] by (simp add: bs(1) seg_append)
  then have "mb_size (mem s) (of_nat (unat (first s) + extent xs)) = of_nat n" by (rule seg_head)
  moreover have "ptr = of_nat (unat (first s) + extent xs) + 16"
    using arg_cong [OF bs(2), of "of_nat :: nat \<Rightarrow> u32"] by simp
  ultimately have n: "mb_size (mem s) (ptr - MB) = of_nat n" by (simp add: MB_def)
  have "ptr \<noteq> 0" using bs(2) by auto
  then have "\<exists>v q u. kfree ptr s = Done () v \<and> kmalloc sz v = Done q u \<and> p = q + MB \<and>
      mem t = memcpy (mem u) p ptr (of_nat n)"
    using run sz(1) by (auto simp: krealloc_def Let_def obind_Done_iff n kfree_is_kfree_block)
  then obtain v q u where free: "kfree ptr s = Done () v" and alloc: "kmalloc sz v = Done q u"
    and p: "p = q + MB" "mem t = memcpy (mem u) p ptr (of_nat n)" by blast
  have "heap_inv s" using ok by (auto simp: heap_inv_def)
  then have "heap_inv v" using kheap.free_live [OF _ live free] by blast
  from kheap.alloc_live [OF this sz(2) alloc] show ?thesis using p by (auto simp: MB_def)
qed

theorem krealloc_copies_past_region_witness:
  "\<exists>s t (u :: heap). kmalloc 64 sample_heap = Done 0xC0113010 s \<and> krealloc 0xC0113010 128 s = Done 0xC0113020 t \<and>
     mem t = memcpy (mem u) 0xC0113020 0xC0113010 64"
proof -
  obtain s where s: "kmalloc 64 sample_heap = Done 0xC0113010 s"
    "heap_ok s [(True, 64), (False, 0xEFA0)]" "first s = 0xC0113000"
    using kmalloc_simulation [OF sample_heap_ok, of 64] by auto
  have live: "(unat (0xC0113010 :: u32), 64) \<in> heap_live s" by (simp add: heap_live_eq [OF s(2)] s(3))
  obtain v where v: "kfree 0xC0113010 s = Done () v" "heap_ok v [(False, 0xEFF0)]" "first v = 0xC0113000"
    using kfree_simulation [OF s(2), of "0xC0113010" 64] s(3) by auto
  obtain u where u: "kmalloc 128 v = Done 0xC0113010 u"
    using kmalloc_simulation [OF v(2), of 128] v(3) by auto
  have "\<exists>t. krealloc 0xC0113010 128 s = Done 0xC0113020 t"
    using v(1) u by (simp add: krealloc_def Let_def kfree_is_kfree_block MB_def)
  then obtain t where t: "krealloc 0xC0113010 128 s = Done 0xC0113020 t" by blast
  from krealloc_copies_past_region [OF s(2) live _ _ t] s(1) t show ?thesis by auto
qed

end
