(* ===== verification/Interrupts.thy ===== *)
theory Interrupts
  imports Heap
begin

unbundle bit_operations_syntax

text \<open>
  Segments and interrupts: \<^verbatim>\<open>src/gdt.c\<close>, \<^verbatim>\<open>src/tss.c\<close>, \<^verbatim>\<open>src/idt.c\<close> and
  \<^verbatim>\<open>src/irq.c\<close>. The global descriptor table, the pointer \<^verbatim>\<open>gp\<close> to it and the task state segment are in byte memory
  at the addresses the linker gives them, because \<^verbatim>\<open>gdt_install\<close> writes behind the end of
  its three-entry array; the interrupt descriptor table is an array of 256 records indexed by a
  byte. The addresses of the assembly entry points (\<^verbatim>\<open>isr0\<close> to \<^verbatim>\<open>isr31\<close>, \<^verbatim>\<open>irq0\<close> to
  \<^verbatim>\<open>irq15\<close>, \<^verbatim>\<open>irq96\<close>) are parameters.
\<close>

section \<open>State\<close>

record idt_entry =
  base_lo :: u16
  sel :: u16
  always0 :: u8
  idt_flags :: u8
  base_hi :: u16

text \<open>The interrupt routines the kernel installs with \<^verbatim>\<open>irq_install_handler\<close>.\<close>

datatype routine = timer_routine | keyboard_routine | rtc_routine | syscall_routine

text \<open>The stack frame an interrupt stub passes to its handler.\<close>

record regs =
  r_gs :: u32  r_fs :: u32  r_es :: u32  r_ds :: u32
  r_edi :: u32  r_esi :: u32  r_ebp :: u32  r_esp :: u32
  r_ebx :: u32  r_edx :: u32  r_ecx :: u32  r_eax :: u32
  int_no :: u32  err_code :: u32
  r_eip :: u32  r_cs :: u32  r_eflags :: u32  r_useresp :: u32  r_ss :: u32

record interrupts = heap +
  gdt_addr :: u32
  gp_addr :: u32
  gdtr :: "u16 \<times> u32"
  tr :: u16
  tss_addr :: u32
  idt :: "u8 \<Rightarrow> idt_entry"
  idt_addr :: u32
  idtp :: "u16 \<times> u32"
  idtr :: "u16 \<times> u32"
  irq_routines :: "u32 \<Rightarrow> routine option"

section \<open>Segment descriptors\<close>

text \<open>The length of the array \<^verbatim>\<open>gdt\<close>.\<close>

definition ENTRY_COUNT :: u32 where "ENTRY_COUNT = 3"

definition gdt_set_gate ::
    "u32 \<Rightarrow> u32 \<Rightarrow> u32 \<Rightarrow> u8 \<Rightarrow> u8 \<Rightarrow> 'a interrupts_scheme \<Rightarrow> 'a interrupts_scheme" where
  "gdt_set_gate num base limit access gran s =
     (let g = gdt_addr s + 8 * num;
          m = mem s;
          m = wr16 m (g + 2) (ucast (base AND 0xFFFF));
          m = m(g + 4 := ucast (drop_bit 16 base AND 0xFF));
          m = m(g + 7 := ucast (drop_bit 24 base AND 0xFF));
          m = wr16 m g (ucast (limit AND 0xFFFF));
          m = m(g + 6 := ucast (drop_bit 16 limit AND 0x0F));
          m = m(g + 6 := m (g + 6) OR (gran AND 0xF0));
          m = m(g + 5 := access)
      in s\<lparr>mem := m\<rparr>)"

text \<open>\<^verbatim>\<open>sizeof(struct tss_struct)\<close>\<close>

definition TSS_SIZE :: u32 where "TSS_SIZE = 104"

text \<open>\<open>esp\<close> is the stack pointer the inline assembly reads.\<close>

definition write_tss :: "u32 \<Rightarrow> 'a interrupts_scheme \<Rightarrow> 'a interrupts_scheme" where
  "write_tss esp s =
     (let a = tss_addr s;
          s = gdt_set_gate 5 a (a + TSS_SIZE) 0xE9 0x00 s;
          m = memset (mem s) a 0 TSS_SIZE;
          m = wr32 m (a + 8) 0x10;
          m = wr32 m (a + 4) esp;
          m = wr32 m (a + 76) 0x0B;
          m = wr32 m (a + 80) 0x13;
          m = wr32 m (a + 84) 0x13;
          m = wr32 m (a + 72) 0x13;
          m = wr32 m (a + 88) 0x13;
          m = wr32 m (a + 92) 0x13;
          m = wr16 m (a + 102) (ucast TSS_SIZE)
      in s\<lparr>mem := m\<rparr>)"

definition set_kernel_stack :: "u32 \<Rightarrow> 'a interrupts_scheme \<Rightarrow> 'a interrupts_scheme" where
  "set_kernel_stack stack s = s\<lparr>mem := wr32 (mem s) (tss_addr s + 4) stack\<rparr>"

text \<open>\<^verbatim>\<open>gdt_flush\<close> loads the descriptor table register from \<^verbatim>\<open>gp\<close>, \<^verbatim>\<open>tss_flush\<close> the task
  register.\<close>

definition gdt_flush :: "'a interrupts_scheme \<Rightarrow> 'a interrupts_scheme" where
  "gdt_flush s = s\<lparr>gdtr := (rd16 (mem s) (gp_addr s), rd32 (mem s) (gp_addr s + 2))\<rparr>"

definition tss_flush :: "'a interrupts_scheme \<Rightarrow> 'a interrupts_scheme" where
  "tss_flush s = s\<lparr>tr := 0x2B\<rparr>"

definition gdt_install :: "u32 \<Rightarrow> 'a interrupts_scheme \<Rightarrow> 'a interrupts_scheme" where
  "gdt_install esp s =
     (let s = s\<lparr>mem := wr16 (mem s) (gp_addr s) (8 * 6 - 1)\<rparr>;
          s = s\<lparr>mem := wr32 (mem s) (gp_addr s + 2) (gdt_addr s)\<rparr>;
          s = gdt_set_gate 0 0 0 0 0 s;
          s = gdt_set_gate 1 0 0xFFFFFFFF 0x9A 0xCF s;
          s = gdt_set_gate 2 0 0xFFFFFFFF 0x92 0xCF s;
          s = gdt_set_gate 3 0 0xFFFFFFFF 0xFA 0xCF s;
          s = gdt_set_gate 4 0 0xFFFFFFFF 0xF2 0xCF s;
          s = write_tss esp s
      in tss_flush (gdt_flush s))"

section \<open>Interrupt gates\<close>

definition idt_set_gate :: "u8 \<Rightarrow> u32 \<Rightarrow> u16 \<Rightarrow> u8 \<Rightarrow> 'a interrupts_scheme \<Rightarrow> 'a interrupts_scheme" where
  "idt_set_gate num base selector flags s =
     s\<lparr>idt := (idt s)(num := \<lparr>base_lo = ucast (base AND 0xFFFF), sel = selector, always0 = 0,
        idt_flags = flags OR 0x60, base_hi = ucast (drop_bit 16 base AND 0xFFFF)\<rparr>)\<rparr>"

definition zero_gate :: idt_entry where
  "zero_gate = \<lparr>base_lo = 0, sel = 0, always0 = 0, idt_flags = 0, base_hi = 0\<rparr>"

definition idt_load :: "'a interrupts_scheme \<Rightarrow> 'a interrupts_scheme" where
  "idt_load s = s\<lparr>idtr := idtp s\<rparr>"

text \<open>\<open>isr n\<close> is the address of the entry point \<^verbatim>\<open>isr<n>\<close>.\<close>

definition idt_install :: "(u8 \<Rightarrow> u32) \<Rightarrow> 'a interrupts_scheme \<Rightarrow> 'a interrupts_scheme" where
  "idt_install isr s =
     (let s = s\<lparr>idtp := (8 * 256 - 1, idt_addr s)\<rparr>;
          s = s\<lparr>idt := \<lambda>_. zero_gate\<rparr>;
          s = fold (\<lambda>n. idt_set_gate n (isr n) 0x08 0x8E)
                [0, 1, 2, 3, 4, 5, 6, 7, 8, 9, 10, 11, 12, 13, 14, 15, 16, 17, 18, 19, 20, 21, 22, 23,
                 24, 25, 26, 27, 28, 29, 30, 31] s
      in idt_load s)"

text \<open>\<^verbatim>\<open>cr2\<close> is the fault address the processor holds.\<close>

definition fault_handler :: "u32 \<Rightarrow> regs \<Rightarrow> 'a interrupts_scheme \<Rightarrow> ('a interrupts_scheme, unit) outcome" where
  "fault_handler cr2 r s =
     (if int_no r < 32
      then let s = tty_update (terminal_writestring ''PROBLEM'') s;
               s = tty_update (terminal_printhex (ucast (int_no r))) s;
               s = (if int_no r = 0x0E
                    then tty_update (terminal_printhex32 cr2)
                           (tty_update (terminal_writestring ''Page fault'') s)
                    else s);
               s = (if int_no r = 0x0D
                    then tty_update (terminal_printhex32 (r_eip r))
                           (tty_update (terminal_writestring ''General protection fault'') s)
                    else s);
               s = (if int_no r = 0xA0 then tty_update (terminal_writestring ''Bad TSS'') s else s)
           in Halted s
      else Done () s)"

section \<open>Interrupt requests\<close>

definition irq_install_handler ::
    "u32 \<Rightarrow> routine \<Rightarrow> 'a interrupts_scheme \<Rightarrow> ('a interrupts_scheme, unit) outcome" where
  "irq_install_handler irq handler s =
     (let s = tty_update (terminal_writestring (''installing handler'' @ [CHR 10])) s
      in if irq < 256
         then Done () (tty_update (terminal_printhex32 irq)
                (s\<lparr>irq_routines := (irq_routines s)(irq := Some handler)\<rparr>))
         else Faulted s)"

definition irq_uninstall_handler :: "u32 \<Rightarrow> 'a interrupts_scheme \<Rightarrow> ('a interrupts_scheme, unit) outcome" where
  "irq_uninstall_handler irq s =
     (if irq < 256 then Done () (s\<lparr>irq_routines := (irq_routines s)(irq := None)\<rparr>) else Faulted s)"

definition irq_remap :: "'a machine_scheme \<Rightarrow> 'a machine_scheme" where
  "irq_remap s =
     (let s = outb 0x20 0x11 s; s = outb 0xA0 0x11 s; s = outb 0x21 0x20 s; s = outb 0xA1 0x28 s;
          s = outb 0x21 0x04 s; s = outb 0xA1 0x02 s; s = outb 0x21 0x01 s; s = outb 0xA1 0x01 s;
          s = outb 0x21 0x0 s
      in outb 0xA1 0x0 s)"

text \<open>\<open>irq n\<close> is the address of the entry point \<^verbatim>\<open>irq<n>\<close>.\<close>

definition irq_install :: "(u8 \<Rightarrow> u32) \<Rightarrow> 'a interrupts_scheme \<Rightarrow> 'a interrupts_scheme" where
  "irq_install irq s =
     (let s = irq_remap s;
          s = fold (\<lambda>n. idt_set_gate (32 + n) (irq n) 0x08 0x8E)
                [0, 1, 2, 3, 4, 5, 6, 7, 8, 9, 10, 11, 12, 13, 14, 15] s
      in idt_set_gate 128 (irq 96) 0x08 0xEE s)"

text \<open>
  The dispatcher. \<open>run\<close> is the meaning of a call through a function pointer: what the routines do
  is defined with the drivers. A routine may change the frame it is given.
\<close>

definition irq_handler ::
    "(routine \<Rightarrow> regs \<Rightarrow> 'a interrupts_scheme \<Rightarrow> ('a interrupts_scheme, regs) outcome) \<Rightarrow>
     regs \<Rightarrow> 'a interrupts_scheme \<Rightarrow> ('a interrupts_scheme, regs) outcome" where
  "irq_handler run r s =
     (if int_no r - 32 < 256
      then obind (case irq_routines s (int_no r - 32) of Some h \<Rightarrow> run h r s | None \<Rightarrow> Done r s) (\<lambda>r s.
             let s = (if (ucast (int_no r) :: u8) \<ge> 40 \<and> int_no r \<noteq> 0x80 then outb 0xA0 0x20 s else s);
                 s = (if int_no r \<noteq> 0x80 then outb 0x20 0x20 s else s)
             in Done r s)
      else Faulted s)"

section \<open>The interrupt table\<close>

text \<open>A gate as the processor reads it: handler address, selector, present bit and privilege.\<close>

definition gate :: "u32 \<Rightarrow> u16 \<Rightarrow> u8 \<Rightarrow> idt_entry" where
  "gate base selector flags = \<lparr>base_lo = ucast (base AND 0xFFFF), sel = selector, always0 = 0,
     idt_flags = flags OR 0x60, base_hi = ucast (drop_bit 16 base AND 0xFFFF)\<rparr>"

definition gate_offset :: "idt_entry \<Rightarrow> u32" where
  "gate_offset e = ucast (base_lo e) OR push_bit 16 (ucast (base_hi e))"

definition gate_present :: "idt_entry \<Rightarrow> bool" where
  "gate_present e = bit (idt_flags e) 7"

definition gate_dpl :: "idt_entry \<Rightarrow> u8" where
  "gate_dpl e = take_bit 2 (drop_bit 5 (idt_flags e))"

lemma idt_set_gate_eq: "idt_set_gate n b l f s = s\<lparr>idt := (idt s)(n := gate b l f)\<rparr>"
  by (simp add: idt_set_gate_def gate_def)

interpretation idt_table: entry_table idt "\<lambda>n (b, l, f). idt_set_gate n b l f" "\<lambda>(b, l, f). gate b l f" "\<lambda>_. True"
  by unfold_locales (auto simp: idt_set_gate_eq)

lemma gate_round_trip: "gate_offset (gate base l f) = base"
proof (rule bit_word_eqI)
  fix n :: nat
  assume "n < LENGTH(32)"
  moreover have "\<not> n < 16 \<Longrightarrow> 16 + (n - 16) = n" by simp
  ultimately show "bit (gate_offset (gate base l f)) n = bit base n"
    by (cases "n < 16") (auto simp: gate_offset_def gate_def low_half bit_simps)
qed

text \<open>The gates after a sequence of stores to distinct gates.\<close>

lemma fold_gates:
  assumes "distinct (map k ns)"
  shows "idt (fold (\<lambda>n. idt_set_gate (k n) (b n) l f) ns s) j =
    (case map_of (map (\<lambda>n. (k n, b n)) ns) j of Some a \<Rightarrow> gate a l f | None \<Rightarrow> idt s j)"
proof -
  let ?ivs = "map (\<lambda>n. (k n, (b n, l, f))) ns"
  have "fold (\<lambda>n. idt_set_gate (k n) (b n) l f) ns s = fold (\<lambda>(n, b, l, f). idt_set_gate n b l f) ?ivs s"
    by (simp add: fold_map comp_def)
  moreover have "map_of ?ivs j = map_option (\<lambda>a. (a, l, f)) (map_of (map (\<lambda>n. (k n, b n)) ns) j)"
    by (induction ns) auto
  ultimately show ?thesis
    using idt_table.fold_put_get [of ?ivs s j] assms
    by (cases "map_of (map (\<lambda>n. (k n, b n)) ns) j") (simp_all add: comp_def)
qed

lemma bytes_upto:
  "[0, 1, 2, 3, 4, 5, 6, 7, 8, 9, 10, 11, 12, 13, 14, 15] = map (of_nat :: nat \<Rightarrow> u8) [0..<16]"
  "[0, 1, 2, 3, 4, 5, 6, 7, 8, 9, 10, 11, 12, 13, 14, 15, 16, 17, 18, 19, 20, 21, 22, 23, 24, 25, 26, 27,
    28, 29, 30, 31] = map (of_nat :: nat \<Rightarrow> u8) [0..<32]"
  by (simp_all add: upt_rec)

lemma map_of_shift:
  "map_of (map (\<lambda>n. (c + n, b n)) ns) (j :: u8) = (if j - c \<in> set ns then Some (b (j - c)) else None)"
  by (induction ns) (auto simp: algebra_simps)

lemma mem_bytes:
  assumes "k \<le> 200"
  shows "(x :: u8) \<in> set (map of_nat [0..<k]) \<longleftrightarrow> x < of_nat k" "distinct (map (of_nat :: nat \<Rightarrow> u8) [0..<k])"
proof -
  show "distinct (map (of_nat :: nat \<Rightarrow> u8) [0..<k])"
    using assms by (auto simp: distinct_map inj_on_def word_unat_eq_iff unat_of_nat)
  have "x \<in> set (map of_nat [0..<k])" if "x < of_nat k"
  proof -
    have "unat x \<in> {0..<k}" using that assms by (simp add: word_less_nat_alt unat_of_nat)
    then have "of_nat (unat x) \<in> (of_nat :: nat \<Rightarrow> u8) ` {0..<k}" by (rule imageI)
    then show ?thesis by simp
  qed
  then show "(x :: u8) \<in> set (map of_nat [0..<k]) \<longleftrightarrow> x < of_nat k"
    using assms by (auto simp: word_less_nat_alt unat_of_nat)
qed

lemma distinct_shift: "distinct ns \<Longrightarrow> distinct (map ((+) (c :: u8)) ns)"
  by (simp add: distinct_map inj_on_def)

lemma idt_irq_remap [simp]: "idt (irq_remap s) = idt s"
  by (simp add: irq_remap_def Let_def port_defs)

lemma idt_of_idt_install: "idt (idt_install isr s) j = (if j < 32 then gate (isr j) 0x08 0x8E else zero_gate)"
proof -
  have "map_of (map (\<lambda>n. (n, isr n)) (map of_nat [0..<32])) j = (if j < 32 then Some (isr j) else None)"
    using map_of_shift [of 0 isr "map of_nat [0..<32]" j] mem_bytes(1) [of 32 j] by simp
  then show ?thesis
    using fold_gates [of "\<lambda>n. n" "map of_nat [0..<32]" isr "0x08" "0x8E" "s\<lparr>idtp := (8 * 256 - 1, idt_addr s), idt := \<lambda>_. zero_gate\<rparr>" j]
      mem_bytes(2) [of 32]
    by (simp add: idt_install_def idt_load_def bytes_upto Let_def del: map_map)
qed

lemma idt_of_irq_install:
  "idt (irq_install irq s) j =
     (if j = 128 then gate (irq 96) 0x08 0xEE
      else if j - 32 < 16 then gate (irq (j - 32)) 0x08 0x8E else idt s j)"
proof -
  have "map_of (map (\<lambda>n. (32 + n, irq n)) (map of_nat [0..<16])) j =
      (if j - 32 < 16 then Some (irq (j - 32)) else None)"
    using map_of_shift [of 32 irq "map of_nat [0..<16]" j] mem_bytes(1) [of 16 "j - 32"] by simp
  then show ?thesis
    using fold_gates [of "(+) 32" "map of_nat [0..<16]" irq "0x08" "0x8E" "irq_remap s" j]
      distinct_shift [OF mem_bytes(2) [of 16], of 32]
    by (simp add: irq_install_def bytes_upto Let_def idt_set_gate_eq [of 128] del: map_map)
qed

text \<open>The entry point that belongs to an interrupt vector.\<close>

definition vector_entry :: "(u8 \<Rightarrow> u32) \<Rightarrow> (u8 \<Rightarrow> u32) \<Rightarrow> u8 \<Rightarrow> u32 option" where
  "vector_entry isr irq n =
     (if n < 32 then Some (isr n) else if n < 48 then Some (irq (n - 32))
      else if n = 128 then Some (irq 96) else None)"

text \<open>After \<^verbatim>\<open>idt_install\<close> and, later, \<^verbatim>\<open>irq_install\<close> the processor finds, for each of the 32
  exceptions, the 16 interrupt requests and the system-call interrupt, a present gate to that
  vector's own entry point in the kernel code segment; every other gate is empty. Because
  \<^verbatim>\<open>idt_set_gate\<close> sets both privilege bits, every present gate can be called from user mode.\<close>

lemma installed_vectors:
  assumes "idt t = idt (idt_install isr s)"
  shows "case vector_entry isr irq n of
     Some a \<Rightarrow> let g = idt (irq_install irq t) n
       in gate_offset g = a \<and> sel g = 0x08 \<and> gate_present g \<and> gate_dpl g = 3
   | None \<Rightarrow> \<not> gate_present (idt (irq_install irq t) n)"
proof -
  have sub: "n - 32 < 16 \<longleftrightarrow> 32 \<le> n \<and> n < 48"
    by (auto simp: word_less_nat_alt word_le_nat_alt unat_sub_if')
  have bits: "gate_present (gate a l 0x8E)" "gate_present (gate a l 0xEE)" "gate_dpl (gate a l 0x8E) = 3"
    "gate_dpl (gate a l 0xEE) = 3" "sel (gate a l f) = l" "\<not> gate_present zero_gate" for a l f
    by (simp_all add: gate_present_def gate_dpl_def gate_def zero_gate_def)
  show ?thesis
    using sub by (auto simp: vector_entry_def idt_of_irq_install assms idt_of_idt_install gate_round_trip bits Let_def)
qed

lemma install_frames:
  "irq_routines (idt_install isr s) = irq_routines s" "irq_routines (irq_install irq s) = irq_routines s"
  "irq_routines (gdt_install esp s) = irq_routines s" "interrupts.more (idt_install isr s) = interrupts.more s"
  "interrupts.more (irq_install irq s) = interrupts.more s" "interrupts.more (gdt_install esp s) = interrupts.more s"
  by (simp_all add: idt_install_def irq_install_def irq_remap_def gdt_install_def gdt_set_gate_def write_tss_def
      set_kernel_stack_def gdt_flush_def tss_flush_def idt_load_def idt_set_gate_def outb_def Let_def)

lemma install_tty: "tty (idt_install isr s) = tty s" "tty (irq_install irq s) = tty s" "tty (gdt_install esp s) = tty s"
  by (simp_all add: idt_install_def irq_install_def irq_remap_def gdt_install_def gdt_set_gate_def write_tss_def
      set_kernel_stack_def gdt_flush_def tss_flush_def idt_load_def idt_set_gate_def outb_def Let_def)

section \<open>Segment descriptors as the processor reads them\<close>

definition descriptor :: "memory \<Rightarrow> u32 \<Rightarrow> u8 list" where
  "descriptor m g = [m g, m (g + 1), m (g + 2), m (g + 3), m (g + 4), m (g + 5), m (g + 6), m (g + 7)]"

definition gate_bytes :: "u32 \<times> u32 \<times> u8 \<times> u8 \<Rightarrow> u8 list" where
  "gate_bytes = (\<lambda>(base, limit, access, gran).
     [ucast limit, ucast (drop_bit 8 limit), ucast base, ucast (drop_bit 8 base),
      ucast (drop_bit 16 base), access, ucast (drop_bit 16 limit AND 0x0F) OR (gran AND 0xF0),
      ucast (drop_bit 24 base)])"

definition seg_base :: "u8 list \<Rightarrow> u32" where
  "seg_base d = ucast (d ! 2) OR push_bit 8 (ucast (d ! 3)) OR push_bit 16 (ucast (d ! 4)) OR
     push_bit 24 (ucast (d ! 7))"

definition seg_limit :: "u8 list \<Rightarrow> u32" where
  "seg_limit d = ucast (d ! 0) OR push_bit 8 (ucast (d ! 1)) OR push_bit 16 (ucast (d ! 6 AND 0x0F))"

lemma seg_base_gate: "seg_base (gate_bytes (base, limit, access, gran)) = base"
  using rd32_bytes [of base] by (simp add: seg_base_def gate_bytes_def)

lemma seg_limit_gate: "seg_limit (gate_bytes (base, limit, access, gran)) = take_bit 20 limit"
proof (rule bit_word_eqI)
  fix n :: nat
  assume n: "n < LENGTH(32)"
  have f: "(0x0F :: 'b::len word) = mask 4" "(0xF0 :: u8) = push_bit 4 (mask 4)"
    by (simp_all add: mask_eq_exp_minus_1)
  have *: "\<not> n < 8 \<Longrightarrow> 8 + (n - 8) = n" "\<not> n < 16 \<Longrightarrow> 16 + (n - 16) = n" by auto
  consider "n < 8" | "\<not> n < 8" "n < 16" | "\<not> n < 16" "n < 20" | "\<not> n < 20" by linarith
  then show "bit (seg_limit (gate_bytes (base, limit, access, gran))) n = bit (take_bit 20 limit) n"
    using n * by cases (auto simp: seg_limit_def gate_bytes_def f bit_simps)
qed

lemma wr16_other: "2 \<le> x - a \<Longrightarrow> wr16 m a v x = m x"
  by (auto simp: wr16_def word_le_nat_alt)

lemma gdt_addr_set_gate [simp]:
  "gdt_addr (gdt_set_gate n b l a g s) = gdt_addr s" "tss_addr (gdt_set_gate n b l a g s) = tss_addr s"
  "gp_addr (gdt_set_gate n b l a g s) = gp_addr s"
  by (simp_all add: gdt_set_gate_def Let_def)

lemma gdt_set_gate_same:
  "descriptor (mem (gdt_set_gate n b l a g s)) (gdt_addr s + 8 * n) = gate_bytes (b, l, a, g)"
proof -
  have "ucast (ucast (w AND 0xFFFF) :: u16) = (ucast w :: u8)"
    "ucast (drop_bit 8 (ucast (w AND 0xFFFF) :: u16)) = (ucast (drop_bit 8 w) :: u8)"
    "ucast (drop_bit 16 w AND 0xFF) = (ucast (drop_bit 16 w) :: u8)"
    "ucast (drop_bit 24 w AND 0xFF) = (ucast (drop_bit 24 w) :: u8)" for w :: u32
  proof -
    have ff: "(0xFF :: u32) = mask 8" by (simp add: mask_eq_exp_minus_1)
    show "ucast (ucast (w AND 0xFFFF) :: u16) = (ucast w :: u8)"
      "ucast (drop_bit 8 (ucast (w AND 0xFFFF) :: u16)) = (ucast (drop_bit 8 w) :: u8)"
      "ucast (drop_bit 16 w AND 0xFF) = (ucast (drop_bit 16 w) :: u8)"
      "ucast (drop_bit 24 w AND 0xFF) = (ucast (drop_bit 24 w) :: u8)"
      by (rule bit_word_eqI; auto simp: low_half ff bit_simps)+
  qed
  then show ?thesis
    by (simp add: gdt_set_gate_def Let_def descriptor_def gate_bytes_def wr16_def)
qed

lemma gdt_set_gate_other:
  "8 \<le> x - (gdt_addr s + 8 * n) \<Longrightarrow> mem (gdt_set_gate n b l a g s) x = mem s x"
proof -
  assume *: "8 \<le> x - (gdt_addr s + 8 * n)"
  define h where "h = gdt_addr s + 8 * n"
  have "x \<noteq> h" "x \<noteq> h + 1" "x \<noteq> h + 2" "x \<noteq> h + 3" "x \<noteq> h + 4" "x \<noteq> h + 5" "x \<noteq> h + 6" "x \<noteq> h + 7"
    using * unfolding h_def [symmetric] by (auto simp: word_le_nat_alt)
  then show ?thesis
    unfolding gdt_set_gate_def Let_def h_def [symmetric] by (simp add: wr16_def add.assoc)
qed

lemma descriptor_cong:
  assumes "\<forall>k < 8. m' (g + k) = m (g + k)"
  shows "descriptor m' g = descriptor m g"
  using assms [rule_format, of 0] assms [rule_format, of 1] assms [rule_format, of 2] assms [rule_format, of 3]
    assms [rule_format, of 4] assms [rule_format, of 5] assms [rule_format, of 6] assms [rule_format, of 7]
  by (simp add: descriptor_def)

interpretation gdt_table: entry_table "\<lambda>s i. descriptor (mem s) (gdt_addr s + 8 * i)"
  "\<lambda>i (b, l, a, g). gdt_set_gate i b l a g" gate_bytes "\<lambda>i. i < 6"
proof unfold_locales
  fix i j :: u32 and v :: "u32 \<times> u32 \<times> u8 \<times> u8" and s :: "'a interrupts_scheme"
  obtain b l a g where v: "v = (b, l, a, g)" by (cases v)
  show "descriptor (mem ((case v of (b, l, a, g) \<Rightarrow> gdt_set_gate i b l a g) s))
      (gdt_addr ((case v of (b, l, a, g) \<Rightarrow> gdt_set_gate i b l a g) s) + 8 * i) = gate_bytes v"
    by (simp add: v gdt_set_gate_same)
  assume ij: "i < 6" "j < 6" "i \<noteq> j"
  have "8 \<le> 8 * j + k - 8 * i" if "k < 8" for k
  proof -
    have "unat (8 * j + k) = 8 * unat j + unat k" "unat (8 * i) = 8 * unat i"
      using ij that by (simp_all add: unat_word_ariths word_less_nat_alt)
    then show ?thesis using ij that
      by (auto simp: word_le_nat_alt unat_sub_if' word_less_nat_alt word_unat_eq_iff)
  qed
  then show "descriptor (mem ((case v of (b, l, a, g) \<Rightarrow> gdt_set_gate i b l a g) s))
      (gdt_addr ((case v of (b, l, a, g) \<Rightarrow> gdt_set_gate i b l a g) s) + 8 * j) =
      descriptor (mem s) (gdt_addr s + 8 * j)"
    by (auto simp: v algebra_simps intro!: descriptor_cong gdt_set_gate_other)
qed


definition gdt_gates :: "u32 \<Rightarrow> (u32 \<times> u32 \<times> u32 \<times> u8 \<times> u8) list" where
  "gdt_gates tss = [(0, 0, 0, 0, 0), (1, 0, 0xFFFFFFFF, 0x9A, 0xCF), (2, 0, 0xFFFFFFFF, 0x92, 0xCF),
     (3, 0, 0xFFFFFFFF, 0xFA, 0xCF), (4, 0, 0xFFFFFFFF, 0xF2, 0xCF), (5, tss, tss + TSS_SIZE, 0xE9, 0)]"

definition write_gates :: "'a interrupts_scheme \<Rightarrow> 'a interrupts_scheme" where
  "write_gates s = fold (\<lambda>(i, b, l, a, g). gdt_set_gate i b l a g) (gdt_gates (tss_addr s)) s"

definition tss_fields :: "u32 \<Rightarrow> u32 \<Rightarrow> memory \<Rightarrow> memory" where
  "tss_fields a esp m = wr16 (wr32 (wr32 (wr32 (wr32 (wr32 (wr32 (wr32 (wr32 (memset m a 0 TSS_SIZE) (a + 8) 0x10)
     (a + 4) esp) (a + 76) 0x0B) (a + 80) 0x13) (a + 84) 0x13) (a + 72) 0x13) (a + 88) 0x13) (a + 92) 0x13)
     (a + 102) (ucast TSS_SIZE)"

text \<open>The state after the pointer \<^verbatim>\<open>gp\<close> is set up.\<close>

definition set_gp :: "'a interrupts_scheme \<Rightarrow> 'a interrupts_scheme" where
  "set_gp s = s\<lparr>mem := wr32 (wr16 (mem s) (gp_addr s) 47) (gp_addr s + 2) (gdt_addr s)\<rparr>"

lemma set_gp_simps [simp]: "gdt_addr (set_gp s) = gdt_addr s" "tss_addr (set_gp s) = tss_addr s" "gp_addr (set_gp s) = gp_addr s"
  by (simp_all add: set_gp_def)

lemma gdt_install_eq:
  "gdt_install esp s = (let t = write_gates (set_gp s); m = tss_fields (tss_addr s) esp (mem t)
     in t\<lparr>mem := m, gdtr := (rd16 m (gp_addr s), rd32 m (gp_addr s + 2)), tr := 0x2B\<rparr>)"
  by (simp add: gdt_install_def write_gates_def gdt_gates_def write_tss_def tss_fields_def Let_def
      set_gp_def gdt_flush_def tss_flush_def)

lemma tss_fields_other:
  assumes "104 \<le> x - a"
  shows "tss_fields a esp m x = m x"
proof -
  have far: "4 \<le> x - (a + c)" "2 \<le> x - (a + 102)" if "c \<le> 100" for c
    using assms that by (auto simp: diff_diff_eq [symmetric] simp del: diff_diff_eq) uint_arith+
  have "\<not> x - a < 104" using assms by (metis not_le)
  then show ?thesis
    using far [of 8] far [of 4] far [of 76] far [of 80] far [of 84] far [of 72] far [of 88] far [of 92]
    by (simp add: tss_fields_def wr16_other wr32_other memset_eq TSS_SIZE_def)
qed

lemma rd32_wr16:
  assumes "4 \<le> b - a" and "4 \<le> a - b"
  shows "rd32 (wr16 m b v) a = rd32 m a"
proof -
  have "wr16 m b v (a + k) = m (a + k)" if "k < 4" for k
    using assms that by (intro wr16_other) uint_arith
  from this [of 0] this [of 1] this [of 2] this [of 3] show ?thesis by (simp add: rd32_def)
qed

lemma tss_fields_stack:
  "rd32 (tss_fields a esp m) (a + 4) = esp" "rd32 (tss_fields a esp m) (a + 8) = 0x10"
  by (simp_all add: tss_fields_def rd32_wr16 rd32_wr32_apart apart_def)

lemma write_gates_descriptor:
  assumes "i < 6"
  shows "descriptor (mem (write_gates s)) (gdt_addr s + 8 * i) =
    (case map_of (gdt_gates (tss_addr s)) i of Some v \<Rightarrow> gate_bytes v | None \<Rightarrow> descriptor (mem s) (gdt_addr s + 8 * i))"
proof -
  have "gdt_addr (write_gates s) = gdt_addr s" by (simp add: write_gates_def gdt_gates_def)
  moreover have "\<forall>(i, v) \<in> set (gdt_gates (tss_addr s)). i < 6" "distinct (map fst (gdt_gates (tss_addr s)))"
    by (simp_all add: gdt_gates_def)
  ultimately show ?thesis
    using gdt_table.fold_put_get [of "gdt_gates (tss_addr s)" i s] assms
    by (simp add: write_gates_def split_def)
qed

lemma gdt_install_simps [simp]:
  "mem (gdt_install esp s) = tss_fields (tss_addr s) esp (mem (write_gates (set_gp s)))" "tr (gdt_install esp s) = 0x2B"
  "gdtr (gdt_install esp s) = (rd16 (mem (gdt_install esp s)) (gp_addr s), rd32 (mem (gdt_install esp s)) (gp_addr s + 2))"
  by (simp_all add: gdt_install_eq Let_def)

lemma write_gates_other:
  assumes "48 \<le> x - gdt_addr s"
  shows "mem (write_gates s) x = mem s x"
proof -
  have far: "8 \<le> x - (gdt_addr s + 8 * n)" if "n \<le> 5" for n
  proof -
    have n: "unat (8 * n) = 8 * unat n" using that by (simp add: unat_word_ariths word_le_nat_alt)
    have "8 * n \<le> x - gdt_addr s" "8 \<le> unat (x - gdt_addr s) - unat (8 * n)" using that assms by (auto simp: n word_le_nat_alt)
    then have "8 \<le> (x - gdt_addr s) - 8 * n" by (simp add: word_le_nat_alt unat_sub)
    then show ?thesis by (simp add: diff_diff_eq)
  qed
  have *: "mem (gdt_set_gate n b l a g t) x = mem t x" if "n \<le> 5" "gdt_addr t = gdt_addr s"
    for n b l a g and t :: "'a interrupts_scheme"
    using gdt_set_gate_other [of x t n] far [OF that(1)] that(2) by simp
  show ?thesis by (simp add: write_gates_def gdt_gates_def *)
qed

lemma installed_gate:
  assumes "bytes (gdt_addr s) 48 \<inter> bytes (tss_addr s) 104 = {}" and i: "i < 6" and v: "map_of (gdt_gates (tss_addr s)) i = Some v"
  shows "descriptor (mem (gdt_install esp s)) (gdt_addr s + 8 * i) = gate_bytes v"
proof -
  have "104 \<le> gdt_addr s + 8 * i + k - tss_addr s" if "k < 8" for k
  proof -
    have "8 * i + k < 48" using i that by (simp add: word_less_nat_alt unat_word_ariths)
    then have "gdt_addr s + 8 * i + k \<in> bytes (gdt_addr s) 48" by (simp add: bytes_def)
    then have "gdt_addr s + 8 * i + k \<notin> bytes (tss_addr s) 104" using assms(1) by blast
    then show ?thesis by (simp add: bytes_def not_less)
  qed
  then have "descriptor (mem (gdt_install esp s)) (gdt_addr s + 8 * i) = descriptor (mem (write_gates (set_gp s))) (gdt_addr s + 8 * i)"
    by (intro descriptor_cong) (simp add: tss_fields_other)
  then show ?thesis using write_gates_descriptor [OF i, of "set_gp s"] v by simp
qed

lemma gp_loaded:
  assumes "bytes (gp_addr s) 6 \<inter> (bytes (gdt_addr s) 48 \<union> bytes (tss_addr s) 104) = {}"
  shows "gdtr (gdt_install esp s) = (47, gdt_addr s)"
proof -
  have at: "mem (gdt_install esp s) (gp_addr s + k) = mem (set_gp s) (gp_addr s + k)" if "k < 6" for k
  proof -
    have "gp_addr s + k \<in> bytes (gp_addr s) 6" using that by (simp add: bytes_def)
    then have "gp_addr s + k \<notin> bytes (gdt_addr s) 48" "gp_addr s + k \<notin> bytes (tss_addr s) 104" using assms by blast+
    then show ?thesis by (simp add: bytes_def not_less tss_fields_other write_gates_other)
  qed
  have "rd16 (mem (gdt_install esp s)) (gp_addr s) = rd16 (mem (set_gp s)) (gp_addr s)"
    using at [of 0] at [of 1] by (simp add: rd16_def)
  moreover have "rd32 (mem (gdt_install esp s)) (gp_addr s + 2) = rd32 (mem (set_gp s)) (gp_addr s + 2)"
    using at [of 2] at [of 3] at [of 4] at [of 5] by (simp add: rd32_def add.assoc)
  moreover have "rd16 (mem (set_gp s)) (gp_addr s) = 47" by (simp add: set_gp_def rd16_def wr32_other wr16_def)
  ultimately show ?thesis by (simp add: set_gp_def)
qed

lemma gp_overwritten:
  assumes "bytes (gdt_addr s) 48 \<inter> bytes (tss_addr s) 104 = {}" and "gp_addr s = gdt_addr s + 8 * ENTRY_COUNT"
  shows "gdtr (gdt_install esp s) = (0xFFFF, 0xFA000000)"
proof -
  have "descriptor (mem (gdt_install esp s)) (gp_addr s) = gate_bytes (0, 0xFFFFFFFF, 0xFA, 0xCF)"
    using installed_gate [OF assms(1), of 3] by (simp add: assms(2) ENTRY_COUNT_def gdt_gates_def)
  then have "mem (gdt_install esp s) (gp_addr s + k) = [0xFF, 0xFF, 0, 0, 0, 0xFA] ! unat k" if "k \<in> {0, 1, 2, 3, 4, 5}" for k
    using that by (auto simp: descriptor_def gate_bytes_def)
  from this [of 0] this [of 1] this [of 2] this [of 3] this [of 4] this [of 5]
  show ?thesis by (simp add: rd16_def rd32_def add.assoc)
qed

text \<open>C31: when the six descriptors and the task state segment do not overlap in memory,
  \<^verbatim>\<open>gdt_install\<close> leaves flat 4 GiB kernel and user segments (code and data, the user ones at
  privilege 3) in gates 1 to 4 and a task-state descriptor in gate 5 whose base is the task state
  segment, which holds the kernel stack, and whose limit is derived from
  the segment's address instead of its size; the task register is loaded. The six gates take 48 bytes, the array
  \<^verbatim>\<open>gdt[ENTRY_COUNT]\<close> only 24: if the pointer \<^verbatim>\<open>gp\<close> lies outside those 48 bytes and the task state segment, the descriptor table register is loaded with the
  table; if it lies right behind the array, gate 3 has overwritten it and the register is loaded with a table at 0xFA000000.\<close>

theorem gdt_install_flat_segments:
  assumes "bytes (gdt_addr s) 48 \<inter> bytes (tss_addr s) 104 = {}"
  shows "let t = gdt_install esp s; d = \<lambda>i. descriptor (mem t) (gdt_addr s + 8 * i)
    in (\<forall>i \<in> {1, 2, 3, 4}. seg_base (d i) = 0 \<and> seg_limit (d i) = 0xFFFFF \<and> d i ! 6 AND 0xF0 = 0xC0) \<and>
       map (\<lambda>i. d i ! 5) [1, 2, 3, 4, 5] = [0x9A, 0x92, 0xFA, 0xF2, 0xE9] \<and>
       seg_base (d 5) = tss_addr s \<and> seg_limit (d 5) = take_bit 20 (tss_addr s + 104) \<and>
       rd32 (mem t) (tss_addr s + 4) = esp \<and> rd32 (mem t) (tss_addr s + 8) = 0x10 \<and> tr t = 0x2B \<and>
       (bytes (gp_addr s) 6 \<inter> (bytes (gdt_addr s) 48 \<union> bytes (tss_addr s) 104) = {} \<longrightarrow> gdtr t = (47, gdt_addr s)) \<and>
       (gp_addr s = gdt_addr s + 8 * ENTRY_COUNT \<longrightarrow> gdtr t = (0xFFFF, 0xFA000000))"
proof -
  let ?t = "gdt_install esp s"
  note d = installed_gate [OF assms, of _ _ esp]
  have gates: "descriptor (mem ?t) (gdt_addr s + 8 * 1) = gate_bytes (0, 0xFFFFFFFF, 0x9A, 0xCF)"
    "descriptor (mem ?t) (gdt_addr s + 8 * 2) = gate_bytes (0, 0xFFFFFFFF, 0x92, 0xCF)"
    "descriptor (mem ?t) (gdt_addr s + 8 * 3) = gate_bytes (0, 0xFFFFFFFF, 0xFA, 0xCF)"
    "descriptor (mem ?t) (gdt_addr s + 8 * 4) = gate_bytes (0, 0xFFFFFFFF, 0xF2, 0xCF)"
    "descriptor (mem ?t) (gdt_addr s + 8 * 5) = gate_bytes (tss_addr s, tss_addr s + TSS_SIZE, 0xE9, 0)"
    by (rule d; simp add: gdt_gates_def)+
  have bytes: "gate_bytes (b, l, a, g) ! 5 = a"
    "gate_bytes (b, 0xFFFFFFFF, a, 0xCF) ! 6 AND 0xF0 = 0xC0" for b l a g
    by (simp_all add: gate_bytes_def)
  have lim: "take_bit 20 (0xFFFFFFFF :: u32) = 0xFFFFF" by (simp add: take_bit_eq_mask mask_eq_exp_minus_1)
  have regs: "tr ?t = 0x2B" "rd32 (mem ?t) (tss_addr s + 4) = esp" "rd32 (mem ?t) (tss_addr s + 8) = 0x10"
    by (simp_all add: tss_fields_stack)
  show ?thesis
    unfolding Let_def using regs gp_loaded [of s esp] gp_overwritten [OF assms, of esp]
    by (simp only: gates seg_base_gate seg_limit_gate bytes lim list.map TSS_SIZE_def ball_simps simp_thms) blast
qed

text \<open>A machine with the tables at plausible link addresses.\<close>

definition sample_kernel :: interrupts where
  "sample_kernel = heap.extend sample_heap
     (interrupts.fields 0xC0105000 0xC0105080 (0, 0) 0 0xC0105100 (\<lambda>_. zero_gate) 0xC0106000 (0, 0) (0, 0) (\<lambda>_. None))"

lemma sample_kernel_simps [simp]:
  "gdt_addr sample_kernel = 0xC0105000" "gp_addr sample_kernel = 0xC0105080" "tss_addr sample_kernel = 0xC0105100"
  "irq_routines sample_kernel = (\<lambda>_. None)"
  by (simp_all add: sample_kernel_def heap.extend_def interrupts.fields_def)

theorem gdt_install_flat_segments_witness:
  "gdtr (gdt_install 0xC0109000 sample_kernel) = (47, 0xC0105000) \<and>
   rd32 (mem (gdt_install 0xC0109000 sample_kernel)) 0xC0105104 = 0xC0109000"
proof -
  have apart: "bytes 0xC0105000 48 \<inter> bytes (0xC0105100 :: u32) 104 = {}" "bytes 0xC0105000 48 \<inter> bytes (0xC0105080 :: u32) 6 = {}"
    "bytes 0xC0105080 6 \<inter> bytes (0xC0105100 :: u32) 104 = {}" by (intro bytes_apart; simp)+
  then have "bytes (gp_addr sample_kernel) 6 \<inter> (bytes (gdt_addr sample_kernel) 48 \<union> bytes (tss_addr sample_kernel) 104) = {}"
    by (simp add: Int_Un_distrib Int_commute)
  then show ?thesis using gdt_install_flat_segments [of sample_kernel "0xC0109000"] apart(1) unfolding Let_def
    by (simp del: gdt_install_simps)
qed

section \<open>Dispatch\<close>

text \<open>For each hardware interrupt request and for the system-call interrupt, when the installed
  routine (if any) returns and leaves the vector number alone, the dispatcher returns too, the
  routine having run exactly once, and acknowledges the interrupt: requests from the slave
  controller (vectors 40 to 47) at the slave first and then at the master, those of the master at
  the master only, and the system call not at all.\<close>

theorem irq_handler_acknowledges:
  assumes vector: "32 \<le> int_no r \<and> int_no r < 48 \<or> int_no r = 0x80"
    and routine: "(case irq_routines s (int_no r - 32) of Some h \<Rightarrow> run h r s | None \<Rightarrow> Done r s) = Done r' t"
    and same: "int_no r' = int_no r"
  shows "irq_handler run r s = Done r' (t\<lparr>io_log :=
    (if int_no r = 0x80 then [] else if int_no r < 40 then [Out8 0x20 0x20]
     else [Out8 0x20 0x20, Out8 0xA0 0x20]) @ io_log t\<rparr>)"
proof -
  have idx: "int_no r - 32 < 256" using vector by (auto simp: word_less_nat_alt word_le_nat_alt unat_sub_if')
  have "(40 \<le> (ucast (int_no r) :: u8)) = (40 \<le> int_no r)" if "int_no r < 48"
    using that by (simp add: word_le_nat_alt word_less_nat_alt unat_ucast_mod)
  then show ?thesis
    using vector idx same routine by (auto simp: irq_handler_def outb_def Let_def not_le)
qed

theorem irq_handler_acknowledges_witness:
  "\<exists>r. int_no r = 40 \<and> irq_handler (\<lambda>_ r s. Done r s) r sample_kernel =
     Done r (sample_kernel\<lparr>io_log := [Out8 0x20 0x20, Out8 0xA0 0x20] @ io_log sample_kernel\<rparr>)"
proof -
  define r :: regs where "r = regs.make 0 0 0 0 0 0 0 0 0 0 0 0 40 0 0 0 0 0 0"
  have n: "int_no r = 40" by (simp add: r_def regs.make_def)
  have "irq_handler (\<lambda>_ r s. Done r s) r sample_kernel = Done r (sample_kernel\<lparr>io_log :=
    (if int_no r = 0x80 then [] else if int_no r < 40 then [Out8 0x20 0x20]
     else [Out8 0x20 0x20, Out8 0xA0 0x20]) @ io_log sample_kernel\<rparr>)"
    by (rule irq_handler_acknowledges) (simp_all add: n)
  with n show ?thesis by auto
qed

end
