(* ===== verification/Devices.thy ===== *)
theory Devices
  imports Interrupts
begin

unbundle bit_operations_syntax

text \<open>
  The device drivers behind interrupts: the timer (\<^verbatim>\<open>src/drivers/timer.c\<close>), the keyboard
  (\<^verbatim>\<open>src/drivers/keyboard.c\<close>) and the real-time clock (\<^verbatim>\<open>src/drivers/rtc.c\<close>). The
  unused static \<^verbatim>\<open>timer_ticks\<close> is left out.
\<close>

record devices = interrupts +
  jiffies :: u32
  century_register :: u32
  second :: u8
  minute :: u8
  hour :: u8
  day :: u8
  month :: u8
  year :: u32
  century :: u8

section \<open>Timer\<close>

definition timer_handler :: "regs \<Rightarrow> 'a devices_scheme \<Rightarrow> ('a devices_scheme, regs) outcome" where
  "timer_handler r s = Done r (s\<lparr>jiffies := jiffies s + 1\<rparr>)"

definition timer_install :: "'a interrupts_scheme \<Rightarrow> ('a interrupts_scheme, unit) outcome" where
  "timer_install = irq_install_handler 0 timer_routine"

text \<open>\<^verbatim>\<open>hz\<close> is unsigned, so the division is; the quotient is then an \<^verbatim>\<open>int\<close>.\<close>

definition timer_set_interval :: "u32 \<Rightarrow> 'a machine_scheme \<Rightarrow> ('a machine_scheme, unit) outcome" where
  "timer_set_interval hz s =
     (if hz = 0 then Faulted s
      else let divisor = 1193180 div hz;
               s = outb 0x43 0x36 s;
               s = outb 0x40 (ucast (divisor AND 0xFF)) s;
               s = outb 0x40 (ucast (signed_drop_bit 8 divisor)) s
           in Done () s)"

section \<open>Keyboard\<close>

definition DATA_PORT :: u16 where "DATA_PORT = 0x60"
definition COMMAND_PORT :: u16 where "COMMAND_PORT = 0x6A"
definition COMMAND_RESEND :: u8 where "COMMAND_RESEND = 0xFE"

definition keyboard_table_uk :: "u8 list" where
  "keyboard_table_uk =
     [0, 27] @ map of_char ''1234567890-='' @ [8, 9] @ map of_char ''qwertyuiop[]'' @ [10, 0] @
     map of_char ''asdfghjkl;'' @ [39, 96, 0, 92] @ map of_char ''zxcvbnm,./'' @ [0] @ map of_char ''*'' @
     [0] @ map of_char '' '' @ [0, 0, 0, 0, 0, 0, 0, 0, 0, 0, 0, 0, 0, 0, 0, 0] @ map of_char ''-'' @ [0, 0, 0] @
     map of_char ''+'' @ replicate 49 0"

definition keyboard_install :: "'a interrupts_scheme \<Rightarrow> ('a interrupts_scheme, unit) outcome" where
  "keyboard_install = irq_install_handler 1 keyboard_routine"

definition keyboard_uninstall :: "'a interrupts_scheme \<Rightarrow> ('a interrupts_scheme, unit) outcome" where
  "keyboard_uninstall = irq_uninstall_handler 1"

partial_function (option) set_typematic :: "u8 \<Rightarrow> 'a machine_scheme \<Rightarrow> 'a machine_scheme option" where
  "set_typematic typematic s =
     (let s = outb COMMAND_PORT 0xF3 s;
          s = outb DATA_PORT typematic s;
          (v, s) = inb DATA_PORT s
      in if v = COMMAND_RESEND then set_typematic typematic s else Some s)"

text \<open>The waiting loop of the interrupt routine; \<open>None\<close> when it never ends.\<close>

partial_function (option) keyboard_wait :: "u8 \<Rightarrow> 'a machine_scheme \<Rightarrow> (u8 \<times> 'a machine_scheme) option" where
  "keyboard_wait scancode s =
     (let (v, s) = inb 0x60 s
      in if v \<noteq> scancode
         then let (scancode, s) = inb 0x60 s
              in if scancode > 0 then Some (scancode, s) else keyboard_wait scancode s
         else keyboard_wait scancode s)"

definition keyboard_handler :: "regs \<Rightarrow> 'a devices_scheme \<Rightarrow> ('a devices_scheme, regs) outcome" where
  "keyboard_handler r s =
     (case keyboard_wait 0 s of
        None \<Rightarrow> Diverged
      | Some (scancode, s) \<Rightarrow>
          Done r (if scancode AND 0x80 = 0
                  then tty_update (terminal_putchar (keyboard_table_uk ! unat scancode)) s else s))"

section \<open>Real-time clock\<close>

definition CMOS_ADDRESS :: u16 where "CMOS_ADDRESS = 0x70"
definition CMOS_DATA :: u16 where "CMOS_DATA = 0x71"
definition CURRENT_YEAR :: u32 where "CURRENT_YEAR = 2017"

definition get_rtc_register :: "u32 \<Rightarrow> 'a machine_scheme \<Rightarrow> u8 \<times> 'a machine_scheme" where
  "get_rtc_register reg s = inb CMOS_DATA (outb CMOS_ADDRESS (ucast reg) s)"

definition update_in_progress_flag :: "'a machine_scheme \<Rightarrow> u8 \<times> 'a machine_scheme" where
  "update_in_progress_flag s =
     (let s = outb CMOS_ADDRESS 0x0A s; (v, s) = inb CMOS_DATA s in (v AND 0x80, s))"

text \<open>Reading the registers, the first half of \<^verbatim>\<open>read_rtc\<close>.\<close>

definition load_time :: "'a devices_scheme \<Rightarrow> 'a devices_scheme" where
  "load_time s =
     (let (v, s) = get_rtc_register 0x00 s; s = s\<lparr>second := v\<rparr>;
          (v, s) = get_rtc_register 0x02 s; s = s\<lparr>minute := v\<rparr>;
          (v, s) = get_rtc_register 0x04 s; s = s\<lparr>hour := v\<rparr>;
          (v, s) = get_rtc_register 0x07 s; s = s\<lparr>day := v\<rparr>;
          (v, s) = get_rtc_register 0x08 s; s = s\<lparr>month := v\<rparr>;
          (v, s) = get_rtc_register 0x09 s; s = s\<lparr>year := ucast v\<rparr>
      in if century_register s \<noteq> 0
         then let (v, s) = get_rtc_register (century_register s) s in s\<lparr>century := v\<rparr>
         else s)"

definition from_bcd :: "'w::len word \<Rightarrow> 'w word" where
  "from_bcd v = (v AND 0x0F) + (v div 16) * 10"

text \<open>The conversions, the second half.\<close>

definition convert_time :: "u32 \<Rightarrow> 'a devices_scheme \<Rightarrow> 'a devices_scheme" where
  "convert_time registerB s =
     (let s = (if registerB AND 0x04 = 0
               then let s = s\<lparr>second := from_bcd (second s)\<rparr>;
                        s = s\<lparr>minute := from_bcd (minute s)\<rparr>;
                        s = s\<lparr>hour := ((hour s AND 0x0F) + ((hour s AND 0x70) div 16) * 10) OR (hour s AND 0x80)\<rparr>;
                        s = s\<lparr>day := from_bcd (day s)\<rparr>;
                        s = s\<lparr>month := from_bcd (month s)\<rparr>;
                        s = s\<lparr>year := from_bcd (year s)\<rparr>
                    in if century_register s \<noteq> 0 then s\<lparr>century := from_bcd (century s)\<rparr> else s
               else s);
          s = (if registerB AND 0x02 = 0 \<and> hour s AND 0x80 \<noteq> 0
               then s\<lparr>hour := ((hour s AND 0x7F) + 12) mod 24\<rparr> else s)
      in if century_register s \<noteq> 0
         then s\<lparr>year := year s + ucast (century s) * 100\<rparr>
         else let s = s\<lparr>year := year s + (CURRENT_YEAR div 100) * 100\<rparr>
              in if year s < CURRENT_YEAR then s\<lparr>year := year s + 100\<rparr> else s)"

definition read_rtc :: "'a devices_scheme \<Rightarrow> ('a devices_scheme, unit) outcome" where
  "read_rtc s =
     (case poll update_in_progress_flag (\<lambda>v. v \<noteq> 0) (\<lambda>_ s. s) s of
        None \<Rightarrow> Diverged
      | Some (_, s) \<Rightarrow>
          let s = load_time s;
              (b, s) = get_rtc_register 0x0B s
          in Done () (convert_time (ucast b) s))"

definition rtc_install :: "'a interrupts_scheme \<Rightarrow> ('a interrupts_scheme, unit) outcome" where
  "rtc_install s =
     (let s = outb CMOS_ADDRESS 0x8B s;
          (prev, s) = inb CMOS_DATA s;
          s = outb CMOS_ADDRESS 0x8B s;
          s = outb CMOS_DATA (prev OR 0x40) s
      in irq_install_handler 8 rtc_routine s)"

definition rtc_uninstall :: "'a interrupts_scheme \<Rightarrow> ('a interrupts_scheme, unit) outcome" where
  "rtc_uninstall = irq_uninstall_handler 8"

definition rtc_handler :: "regs \<Rightarrow> 'a devices_scheme \<Rightarrow> ('a devices_scheme, regs) outcome" where
  "rtc_handler r s =
     (let s = outb CMOS_ADDRESS 0x0C s;
          (_, s) = inb CMOS_DATA s
      in obind (read_rtc s) (\<lambda>_ s. Done r s))"

definition get_year :: "'a devices_scheme \<Rightarrow> u32" where "get_year s = year s"
definition get_month :: "'a devices_scheme \<Rightarrow> u8" where "get_month s = month s"
definition get_day :: "'a devices_scheme \<Rightarrow> u8" where "get_day s = day s"
definition get_hour :: "'a devices_scheme \<Rightarrow> u8" where "get_hour s = hour s"
definition get_minute :: "'a devices_scheme \<Rightarrow> u8" where "get_minute s = minute s"
definition get_second :: "'a devices_scheme \<Rightarrow> u8" where "get_second s = second s"

section \<open>Timer rate\<close>

text \<open>For any rate but 0 \<^verbatim>\<open>timer_set_interval\<close> selects channel 0 in mode 3 and sends, low byte
  first, the 16-bit divisor \<open>1193180 div hz\<close> (its low 16 bits when the rate is below 19 Hz).\<close>

theorem timer_interval_divisor:
  assumes "hz \<noteq> 0"
  shows "\<exists>lo hi. timer_set_interval hz s =
      Done () (s\<lparr>io_log := [Out8 0x40 hi, Out8 0x40 lo, Out8 0x43 0x36] @ io_log s\<rparr>) \<and>
    unat lo + 256 * unat hi = (1193180 div unat hz) mod 65536"
proof -
  define d where "d = (1193180 :: u32) div hz"
  have ud: "unat d = 1193180 div unat hz" by (simp add: d_def unat_div)
  have "unat d \<le> 1193180" by (simp add: ud)
  then have lt: "\<not> bit d 31" by (simp add: bit_word_odd)
  have sd: "signed_drop_bit 8 d = drop_bit 8 d"
  proof (rule bit_word_eqI)
    fix n assume "n < LENGTH(32)"
    show "bit (signed_drop_bit 8 d) n = bit (drop_bit 8 d) n"
      using lt \<open>n < LENGTH(32)\<close> by (auto simp: bit_signed_drop_bit_iff bit_drop_bit_eq dest: bit_imp_le_length)
  qed
  have "unat (ucast (d AND 0xFF) :: u8) = unat d mod 256"
  proof -
    have "d AND 0xFF = take_bit 8 d" by (simp add: take_bit_eq_mask mask_eq_exp_minus_1)
    then show ?thesis by (simp add: unat_ucast_mod unat_take_bit_mod)
  qed
  moreover have "unat (ucast (drop_bit 8 d) :: u8) = unat d div 256 mod 256"
    by (simp add: unat_ucast_mod unat_drop_bit_div)
  moreover have "n mod 256 + 256 * (n div 256 mod 256) = n mod 65536" for n :: nat
    using mod_mult2_eq [of n 256 256] by simp
  ultimately have "unat (ucast (d AND 0xFF) :: u8) + 256 * unat (ucast (drop_bit 8 d) :: u8) =
      (1193180 div unat hz) mod 65536"
    by (simp add: ud)
  then show ?thesis
    using assms by (intro exI [of _ "ucast (d AND 0xFF)"] exI [of _ "ucast (drop_bit 8 d)"])
      (simp add: timer_set_interval_def Let_def outb_def sd flip: d_def)
qed

theorem timer_interval_divisor_witness:
  "\<exists>lo hi. timer_set_interval 100 sample_kernel =
      Done () (sample_kernel\<lparr>io_log := [Out8 0x40 hi, Out8 0x40 lo, Out8 0x43 0x36] @ io_log sample_kernel\<rparr>) \<and>
    unat lo + 256 * unat hi = 11931"
  using timer_interval_divisor [of 100 sample_kernel] by simp

section \<open>Key presses\<close>

lemma keyboard_table_length: "length keyboard_table_uk = 128"
  by (simp add: keyboard_table_uk_def)

lemma make_code_in_table:
  assumes "scancode AND 0x80 = (0 :: u8)"
  shows "unat scancode < length keyboard_table_uk"
proof -
  have "\<not> bit scancode 7" using arg_cong [OF assms, of "\<lambda>w. bit w 7"] by (simp add: bit_and_iff)
  then have "even (unat scancode div 128)" by (simp add: bit_word_odd)
  moreover have "unat scancode div 128 < 2" using unsigned_less [of scancode, where 'a = nat] by simp
  moreover have "even q \<Longrightarrow> q < 2 \<Longrightarrow> q = 0" for q :: nat by presburger
  ultimately have "unat scancode div 128 = 0" by blast
  then show ?thesis by (simp add: keyboard_table_length div_eq_0_iff)
qed

text \<open>When the keyboard controller delivers non-zero data on two reads in a row, the interrupt
  routine returns after exactly these two reads. For a make code it types the key's character, which
  lies inside the 128-entry table; for a break code it types nothing.\<close>

theorem keyboard_handler_types:
  assumes a: "a = ucast (hw s (io_log s) 0x60)" "a \<noteq> 0"
    and b: "b = ucast (hw s (In8 0x60 a # io_log s) 0x60)" "b \<noteq> 0"
  shows "keyboard_handler r s = Done r (let t = s\<lparr>io_log := In8 0x60 b # In8 0x60 a # io_log s\<rparr>
      in if b AND 0x80 = 0 then tty_update (terminal_putchar (keyboard_table_uk ! unat b)) t else t) \<and>
    (b AND 0x80 = 0 \<longrightarrow> unat b < length keyboard_table_uk)"
proof -
  have "0 < b" using b(2) by (simp add: word_gt_0)
  then have "keyboard_wait 0 s = Some (b, s\<lparr>io_log := In8 0x60 b # In8 0x60 a # io_log s\<rparr>)"
    using a b by (subst keyboard_wait.simps) (simp add: inb_def Let_def)
  then show ?thesis
    using make_code_in_table [of b] by (simp add: keyboard_handler_def Let_def)
qed

text \<open>A keyboard that delivers the scan code of the key q (0x10) on every read.\<close>

definition sample_devices :: devices where
  "sample_devices = (interrupts.extend sample_kernel (devices.fields 0 0 0 0 0 0 0 0 0))\<lparr>hw := \<lambda>_ _. 0x10, io_log := []\<rparr>"

lemma sample_devices_simps [simp]:
  "hw sample_devices = (\<lambda>_ _. 0x10)" "io_log sample_devices = []"
  "century_register sample_devices = 0"
  by (simp_all add: sample_devices_def interrupts.extend_def devices.fields_def)

theorem keyboard_handler_types_witness:
  "\<forall>r0. keyboard_handler r0 sample_devices = Done r0 (tty_update (terminal_putchar (of_char (CHR ''q'')))
     (sample_devices\<lparr>io_log := [In8 0x60 0x10, In8 0x60 0x10]\<rparr>))"
  using keyboard_handler_types [of "0x10" sample_devices "0x10"] by (simp add: keyboard_table_uk_def Let_def)

section \<open>Reading the clock\<close>

text \<open>
  The documented behaviour of the CMOS clock chip: reading the data port after writing a register
  number to the address port yields that register; \<open>regs 0x0A\<close> says no update is in progress.
\<close>

definition cmos_clock :: "(u8 \<Rightarrow> u8) \<Rightarrow> 'a devices_scheme \<Rightarrow> bool" where
  "cmos_clock regs s \<longleftrightarrow> (\<forall>log r. hw s (Out8 CMOS_ADDRESS r # log) CMOS_DATA = ucast (regs r)) \<and>
     regs 0x0A AND 0x80 = 0"

definition bcd :: "nat \<Rightarrow> u8" where
  "bcd n = of_nat (16 * (n div 10) + n mod 10)"

lemma bcd_all:
  "list_all (\<lambda>n. from_bcd (bcd n) = of_nat n \<and> from_bcd (ucast (bcd n) :: u32) = of_nat n) [0..<100]"
  by (simp add: upt_rec bcd_def from_bcd_def)

lemma bcd_hours:
  "list_all (\<lambda>n. ((bcd n AND 0x0F) + ((bcd n AND 0x70) div 16) * 10) OR (bcd n AND 0x80) = of_nat n \<and>
     (of_nat n :: u8) AND 0x80 = 0) [0..<24]"
  by (simp add: upt_rec bcd_def)

lemma from_bcd_bcd: "n < 100 \<Longrightarrow> from_bcd (bcd n) = of_nat n" "n < 100 \<Longrightarrow> from_bcd (ucast (bcd n) :: u32) = of_nat n"
  using bcd_all by (simp_all add: list_all_iff)

lemma cmos_register:
  assumes "cmos_clock regs s"
  shows "get_rtc_register r s = (regs (ucast r), s\<lparr>io_log := In8 CMOS_DATA (regs (ucast r)) # Out8 CMOS_ADDRESS (ucast r) # io_log s\<rparr>)"
  using assms by (simp add: cmos_clock_def get_rtc_register_def port_defs Let_def)

lemma cmos_clock_upd [simp]:
  "cmos_clock regs (s\<lparr>io_log := l\<rparr>) = cmos_clock regs s" "cmos_clock regs (s\<lparr>second := a\<rparr>) = cmos_clock regs s"
  "cmos_clock regs (s\<lparr>minute := a\<rparr>) = cmos_clock regs s" "cmos_clock regs (s\<lparr>hour := a\<rparr>) = cmos_clock regs s"
  "cmos_clock regs (s\<lparr>day := a\<rparr>) = cmos_clock regs s" "cmos_clock regs (s\<lparr>month := a\<rparr>) = cmos_clock regs s"
  "cmos_clock regs (s\<lparr>year := y\<rparr>) = cmos_clock regs s"
  by (simp_all add: cmos_clock_def)

text \<open>The state when the registers have been read: the raw values, before any conversion.\<close>

lemma read_rtc_cmos:
  assumes "cmos_clock regs s" and "century_register s = 0"
  shows "\<exists>l. read_rtc s = Done () (convert_time (ucast (regs 0x0B))
    (s\<lparr>second := regs 0, minute := regs 2, hour := regs 4, day := regs 7, month := regs 8,
       year := ucast (regs 9), io_log := l\<rparr>))"
proof -
  have upd: "update_in_progress_flag s = (0, s\<lparr>io_log := In8 CMOS_DATA (regs 0x0A) # Out8 CMOS_ADDRESS 0x0A # io_log s\<rparr>)"
    using assms(1) by (simp add: update_in_progress_flag_def port_defs Let_def cmos_clock_def)
  then have "poll update_in_progress_flag (\<lambda>v. v \<noteq> 0) (\<lambda>_ s. s) s = Some (update_in_progress_flag s)"
    by (intro poll_ready) simp
  with upd assms show ?thesis
    by (simp add: read_rtc_def load_time_def cmos_register Let_def) (rule exI, rule refl)
qed

lemma register_bits:
  "((ucast (x :: u8) :: u32) AND 0x04 = 0) = (x AND 0x04 = 0)" "((ucast x :: u32) AND 0x02 = 0) = (x AND 0x02 = 0)"
proof -
  have eq: "(ucast x :: u32) AND 0x04 = ucast (x AND 0x04)" "(ucast x :: u32) AND 0x02 = ucast (x AND 0x02)"
    by (simp_all add: unsigned_and_eq)
  have "(ucast y :: u32) = 0 \<longleftrightarrow> y = 0" for y :: u8 by (metis ucast_up_down(1) unsigned_0)
  then show "((ucast (x :: u8) :: u32) AND 0x04 = 0) = (x AND 0x04 = 0)"
    "((ucast x :: u32) AND 0x02 = 0) = (x AND 0x02 = 0)" unfolding eq by blast+
qed

text \<open>C24: on a clock chip that keeps BCD time in 24-hour mode, \<^verbatim>\<open>read_rtc\<close> returns and leaves
  the time of day and the date in binary; the two-digit year is taken as the first one from 2017
  on.\<close>

theorem rtc_reads_clock:
  assumes "cmos_clock regs s" and "century_register s = 0"
    and "regs 0x0B AND 0x04 = 0" and "regs 0x0B AND 0x02 \<noteq> 0"
    and "regs 0 = bcd sec" and "regs 2 = bcd mn" and "regs 4 = bcd hr" and "regs 7 = bcd dy"
    and "regs 8 = bcd mon" and "regs 9 = bcd yr"
    and "sec < 60" and "mn < 60" and "hr < 24" and "dy \<le> 31" and "mon \<le> 12" and "yr < 100"
  shows "\<exists>t. read_rtc s = Done () t \<and> get_second t = of_nat sec \<and> get_minute t = of_nat mn \<and>
    get_hour t = of_nat hr \<and> get_day t = of_nat dy \<and> get_month t = of_nat mon \<and>
    get_year t = of_nat ((if yr < 17 then 2100 else 2000) + yr)"
proof -
  have h: "((bcd hr AND 0x0F) + ((bcd hr AND 0x70) div 16) * 10) OR (bcd hr AND 0x80) = of_nat hr"
    "(of_nat hr :: u8) AND 0x80 = 0"
    using bcd_hours assms(13) by (simp_all add: list_all_iff)
  have y: "(of_nat yr + 2000 < (2017 :: u32)) = (yr < 17)" using assms(16)
    by (simp add: word_less_nat_alt unat_word_ariths unat_of_nat)
  obtain l where "read_rtc s = Done () (convert_time (ucast (regs 0x0B))
    (s\<lparr>second := regs 0, minute := regs 2, hour := regs 4, day := regs 7, month := regs 8,
       year := ucast (regs 9), io_log := l\<rparr>))"
    using read_rtc_cmos [OF assms(1,2)] by blast
  then show ?thesis
    using assms(2-16) h y
    by (simp add: register_bits convert_time_def Let_def from_bcd_bcd CURRENT_YEAR_def get_second_def get_minute_def get_hour_def
        get_day_def get_month_def get_year_def)
qed

text \<open>A clock chip with the given registers.\<close>

definition sample_clock :: "(u8 \<Rightarrow> u8) \<Rightarrow> devices" where
  "sample_clock regs = sample_devices\<lparr>hw := \<lambda>log p. case log of Out8 _ r # _ \<Rightarrow> ucast (regs r) | _ \<Rightarrow> 0\<rparr>"

lemma sample_clock_cmos:
  "regs 0x0A AND 0x80 = 0 \<Longrightarrow> cmos_clock regs (sample_clock regs)" "century_register (sample_clock regs) = 0"
  by (simp_all add: cmos_clock_def sample_clock_def)

theorem rtc_reads_clock_witness:
  "\<exists>t. read_rtc (sample_clock ((\<lambda>_. 0)(0 := 0x59, 2 := 0x30, 4 := 0x23, 7 := 0x31, 8 := 0x12, 9 := 0x16, 0x0B := 0x02))) =
     Done () t \<and> get_second t = 59 \<and> get_hour t = 23 \<and> get_year t = 2116"
proof -
  let ?r = "(\<lambda>_. 0)(0 := 0x59, 2 := 0x30, 4 := 0x23, 7 := 0x31, 8 := 0x12, 9 := 0x16, 0x0B := 0x02) :: u8 \<Rightarrow> u8"
  have "cmos_clock ?r (sample_clock ?r)" by (rule sample_clock_cmos) simp
  from rtc_reads_clock [OF this sample_clock_cmos(2), of 59 30 23 31 12 16] show ?thesis
    by (auto simp: bcd_def)
qed

text \<open>In 12-hour mode the conversion is wrong around noon and midnight: twelve o'clock noon
  (12 with the PM bit) becomes hour 0 and midnight (12 without it) becomes hour 12.\<close>

theorem rtc_noon_is_midnight:
  assumes "cmos_clock regs s" and "century_register s = 0"
    and "regs 0x0B AND 0x04 = 0" and "regs 0x0B AND 0x02 = 0"
  shows "(regs 4 = 0x92 \<longrightarrow> (\<exists>t. read_rtc s = Done () t \<and> get_hour t = 0)) \<and>
    (regs 4 = 0x12 \<longrightarrow> (\<exists>t. read_rtc s = Done () t \<and> get_hour t = 12))"
proof -
  obtain l where "read_rtc s = Done () (convert_time (ucast (regs 0x0B))
    (s\<lparr>second := regs 0, minute := regs 2, hour := regs 4, day := regs 7, month := regs 8,
       year := ucast (regs 9), io_log := l\<rparr>))"
    using read_rtc_cmos [OF assms(1,2)] by blast
  then show ?thesis
    using assms(2-4) by (auto simp: register_bits convert_time_def Let_def CURRENT_YEAR_def get_hour_def)
qed

theorem rtc_noon_is_midnight_witness:
  "\<exists>t. read_rtc (sample_clock ((\<lambda>_. 0)(4 := 0x92))) = Done () t \<and> get_hour t = 0"
proof -
  have "cmos_clock ((\<lambda>_. 0)(4 := 0x92)) (sample_clock ((\<lambda>_. 0)(4 := 0x92)))" by (rule sample_clock_cmos) simp
  from rtc_noon_is_midnight [OF this sample_clock_cmos(2)] show ?thesis by simp
qed

end
