(* ===== verification/Task.thy ===== *)
theory Task
  imports Devices
begin

unbundle bit_operations_syntax

text \<open>
  Kernel threads, \<^verbatim>\<open>src/task.c\<close> with \<^verbatim>\<open>switch_task\<close> of \<^verbatim>\<open>src/switch.s\<close>. A
  \<^verbatim>\<open>kthread_t\<close> is 52 bytes of memory: the eleven saved registers at offsets 0 to 40, the stack
  page at 44 and the link to the next thread at 48. The processor's registers are part of the state;
  a routine that ends in a context switch ends in a state whose registers are those of the thread
  switched to, where execution continues. The saved \<^verbatim>\<open>eip\<close> and \<^verbatim>\<open>esp\<close> are the return point of
  the call; the bytes \<^verbatim>\<open>switch_task\<close> pushes below the stack pointers are not modelled.
\<close>

section \<open>State\<close>

record cpu_regs =
  c_eax :: u32
  c_ebx :: u32
  c_ecx :: u32
  c_edx :: u32
  c_esi :: u32
  c_edi :: u32
  c_esp :: u32
  c_ebp :: u32
  c_eip :: u32
  c_eflags :: u32

record tasking = devices +
  cpu :: cpu_regs
  main_thread :: u32
  last_thread :: u32
  running_thread :: u32
  task_flags :: u32
  task_page_dir :: u32

definition th_virtual_addr :: "memory \<Rightarrow> u32 \<Rightarrow> u32" where "th_virtual_addr m t = rd32 m (t + 44)"
definition th_next :: "memory \<Rightarrow> u32 \<Rightarrow> u32" where "th_next m t = rd32 m (t + 48)"
definition set_th_next :: "u32 \<Rightarrow> u32 \<Rightarrow> memory \<Rightarrow> memory" where "set_th_next t v m = wr32 m (t + 48) v"

section \<open>Operations\<close>

definition save_regs :: "u32 \<Rightarrow> cpu_regs \<Rightarrow> u32 \<Rightarrow> memory \<Rightarrow> memory" where
  "save_regs t c r m =
     (let m = wr32 m (t + 4) (c_ebx c); m = wr32 m (t + 8) (c_ecx c); m = wr32 m (t + 12) (c_edx c);
          m = wr32 m (t + 16) (c_esi c); m = wr32 m (t + 20) (c_edi c); m = wr32 m t (c_eax c);
          m = wr32 m (t + 24) (c_esp c); m = wr32 m (t + 28) (c_ebp c); m = wr32 m (t + 32) (c_eip c);
          m = wr32 m (t + 36) (c_eflags c)
      in wr32 m (t + 40) r)"

definition load_regs :: "memory \<Rightarrow> u32 \<Rightarrow> cpu_regs" where
  "load_regs m t = \<lparr>c_eax = rd32 m t, c_ebx = rd32 m (t + 4), c_ecx = rd32 m (t + 8), c_edx = rd32 m (t + 12),
     c_esi = rd32 m (t + 16), c_edi = rd32 m (t + 20), c_esp = rd32 m (t + 24), c_ebp = rd32 m (t + 28),
     c_eip = rd32 m (t + 32), c_eflags = rd32 m (t + 36)\<rparr>"

definition switch_task :: "u32 \<Rightarrow> u32 \<Rightarrow> 'a tasking_scheme \<Rightarrow> 'a tasking_scheme" where
  "switch_task old new s =
     (let m = save_regs old (cpu s) (cr3 s) (mem s)
      in s\<lparr>mem := m, cpu := load_regs m new, cr3 := rd32 m (new + 40)\<rparr>)"

definition preempt :: "'a tasking_scheme \<Rightarrow> 'a tasking_scheme" where
  "preempt s =
     (let prev = running_thread s;
          s = (if running_thread s = last_thread s then s\<lparr>running_thread := main_thread s\<rparr>
               else s\<lparr>running_thread := th_next (mem s) (running_thread s)\<rparr>)
      in switch_task prev (running_thread s) s)"

definition init_tasking :: "'a tasking_scheme \<Rightarrow> 'a tasking_scheme" where
  "init_tasking s =
     (let t = main_thread s;
          m = wr32 (mem s) (t + 40) (cr3 s);
          m = wr32 m (t + 36) (c_eflags (cpu s));
          m = set_th_next t 0 m
      in s\<lparr>mem := m, task_flags := c_eflags (cpu s), task_page_dir := cr3 s, running_thread := t, last_thread := t\<rparr>)"

text \<open>\<open>entry_point\<close> is the address of the thread's main function.\<close>

definition kthread_create :: "u32 \<Rightarrow> u32 \<Rightarrow> 'a tasking_scheme \<Rightarrow> ('a tasking_scheme, unit) outcome" where
  "kthread_create task entry_point s =
     (let m = mem s;
          m = wr32 m task 0; m = wr32 m (task + 4) 0; m = wr32 m (task + 8) 0; m = wr32 m (task + 12) 0;
          m = wr32 m (task + 16) 0; m = wr32 m (task + 20) 0;
          m = wr32 m (task + 36) (task_flags s);
          m = wr32 m (task + 32) entry_point;
          m = wr32 m (task + 40) (task_page_dir s)
      in obind (kalloc_page (s\<lparr>mem := m\<rparr>)) (\<lambda>page s.
           let m = wr32 (mem s) (task + 44) page;
               m = wr32 m (task + 24) (th_virtual_addr m task + 0x1000);
               m = set_th_next task 0 m;
               m = set_th_next (last_thread s) task m
           in Done () (preempt (s\<lparr>mem := m, last_thread := task\<rparr>))))"

text \<open>
  The loop of \<^verbatim>\<open>kthread_join\<close>: \<open>None\<close> when it never ends, \<open>Some (Inl s)\<close> when it dereferences
  the null pointer.
\<close>

partial_function (option) join_loop ::
    "u32 \<Rightarrow> u32 \<Rightarrow> 'a tasking_scheme \<Rightarrow> ('a tasking_scheme + 'a tasking_scheme) option" where
  "join_loop thread tmp s =
     (if tmp = 0 then Some (Inl s)
      else if th_next (mem s) tmp \<noteq> thread
      then let s = s\<lparr>mem := set_th_next tmp (th_next (mem s) thread) (mem s), last_thread := tmp\<rparr>
           in join_loop thread (th_next (mem s) tmp) s
      else Some (Inr s))"

definition kthread_join :: "u32 \<Rightarrow> 'a tasking_scheme \<Rightarrow> ('a tasking_scheme, unit) outcome" where
  "kthread_join thread s =
     (case join_loop thread (main_thread s) s of
        None \<Rightarrow> Diverged
      | Some (Inl s) \<Rightarrow> Faulted s
      | Some (Inr s) \<Rightarrow> kfree_page (kernel_page_dir s) (th_virtual_addr (mem s) thread) s)"

section \<open>Contexts\<close>

lemma fields_apart:
  assumes "apart 52 t u" and "j \<le> 48" and "k \<le> 48"
  shows "apart 4 (t + j) (u + k)"
proof -
  have "52 \<le> t - u" "52 \<le> u - t" using assms(1) by (simp_all add: apart_def)
  then have "4 \<le> (t - u) + (j - k)" "4 \<le> (u - t) + (k - j)" using assms(2,3) by uint_arith+
  then show ?thesis by (simp add: apart_def algebra_simps)
qed

text \<open>The saved context of a thread: its registers and page directory.\<close>

definition ctx :: "memory \<Rightarrow> u32 \<Rightarrow> cpu_regs \<times> u32" where
  "ctx m t = (load_regs m t, rd32 m (t + 40))"

lemma ctx_save_same: "ctx (save_regs t c r m) t = (c, r)"
  by (simp add: ctx_def load_regs_def save_regs_def Let_def rd32_wr32_apart apart_def)

lemma rd32_save_other:
  assumes "apart 52 t u" and "k \<le> 48"
  shows "rd32 (save_regs t c r m) (u + k) = rd32 m (u + k)"
  using assms fields_apart [OF assms(1) _ assms(2)] fields_apart [OF assms(1) _ assms(2), of 0]
  by (simp add: save_regs_def Let_def rd32_wr32_apart)

lemma ctx_save_other: "apart 52 t u \<Longrightarrow> ctx (save_regs t c r m) u = ctx m u"
  using rd32_save_other [of t u 0 c r m] by (simp add: ctx_def load_regs_def rd32_save_other)

lemma th_next_save: "t = u \<or> apart 52 t u \<Longrightarrow> th_next (save_regs t c r m) u = th_next m u"
  by (auto simp: th_next_def rd32_save_other)
    (simp add: save_regs_def Let_def rd32_wr32_apart apart_def)

section \<open>The thread list\<close>

fun linked :: "memory \<Rightarrow> u32 list \<Rightarrow> bool" where
  "linked m (a # b # ts) = (th_next m a = b \<and> linked m (b # ts))"
| "linked m ts = True"

definition threads_ok :: "'a tasking_scheme \<Rightarrow> u32 list \<Rightarrow> bool" where
  "threads_ok s ts \<longleftrightarrow> ts \<noteq> [] \<and> hd ts = main_thread s \<and> last ts = last_thread s \<and> linked (mem s) ts \<and>
     running_thread s \<in> set ts \<and> distinct ts \<and> (\<forall>t \<in> set ts. \<forall>u \<in> set ts. t \<noteq> u \<longrightarrow> apart 52 t u)"

text \<open>The context of a thread: the processor's for the running one, the saved one for the others.\<close>

definition thread_context :: "'a tasking_scheme \<Rightarrow> u32 \<Rightarrow> cpu_regs \<times> u32" where
  "thread_context s t = (if t = running_thread s then (cpu s, cr3 s) else ctx (mem s) t)"

lemma linked_cong: "\<forall>t \<in> set (butlast ts). th_next m' t = th_next m t \<Longrightarrow> linked m' ts = linked m ts"
  by (induction m ts rule: linked.induct) auto

lemma linked_nth: "linked m ts \<Longrightarrow> Suc i < length ts \<Longrightarrow> th_next m (ts ! i) = ts ! Suc i"
proof (induction m ts arbitrary: i rule: linked.induct)
  case (1 m a b ts)
  then show ?case by (cases i) auto
qed auto

lemma preempt_step:
  assumes ok: "threads_ok s ts" and i: "i < length ts" "running_thread s = ts ! i"
  shows "running_thread (preempt s) = ts ! (Suc i mod length ts)" "threads_ok (preempt s) ts"
    "t \<in> set ts \<Longrightarrow> thread_context (preempt s) t = thread_context s t"
proof -
  let ?new = "ts ! (Suc i mod length ts)" and ?m = "save_regs (ts ! i) (cpu s) (cr3 s) (mem s)"
  note ok' = ok [unfolded threads_ok_def]
  have last: "ts ! i = last_thread s \<longleftrightarrow> Suc i = length ts"
    using ok' i(1) by (metis One_nat_def diff_Suc_1 last_conv_nth lessI nth_eq_iff_index_eq not_less_eq
        Suc_pred' length_greater_0_conv)
  have new: "(if ts ! i = last_thread s then main_thread s else th_next (mem s) (ts ! i)) = ?new"
    using last ok' i(1) linked_nth [of "mem s" ts i]
    by (cases "Suc i = length ts") (auto simp: hd_conv_nth)
  have p: "preempt s = s\<lparr>running_thread := ?new, mem := ?m, cpu := load_regs ?m ?new, cr3 := rd32 ?m (?new + 40)\<rparr>"
    using new i(2) by (cases "ts ! i = last_thread s") (simp_all add: preempt_def switch_task_def Let_def)
  show "running_thread (preempt s) = ?new" by (simp add: p)
  have mem: "ts ! i \<in> set ts" "?new \<in> set ts" using i(1) ok' by (auto intro!: nth_mem)
  have "\<forall>t \<in> set ts. th_next ?m t = th_next (mem s) t"
    using ok' mem(1) by (metis th_next_save)
  then show "threads_ok (preempt s) ts"
    using ok' mem(2) linked_cong [of ts ?m "mem s"] by (simp add: p threads_ok_def in_set_butlastD)
  show "thread_context (preempt s) t = thread_context s t" if "t \<in> set ts"
  proof -
    have "ctx ?m t = thread_context s t"
      using ok' mem(1) that i(2) by (cases "t = ts ! i") (simp_all add: thread_context_def ctx_save_same ctx_save_other)
    moreover have "thread_context (preempt s) t = ctx ?m t" by (simp add: p thread_context_def ctx_def)
    ultimately show ?thesis by (rule trans [rotated])
  qed
qed

lemma preempt_iterate:
  assumes "threads_ok s ts" and "i < length ts" and "running_thread s = ts ! i"
  shows "running_thread ((preempt ^^ n) s) = ts ! ((i + n) mod length ts) \<and> threads_ok ((preempt ^^ n) s) ts \<and>
    (\<forall>t \<in> set ts. thread_context ((preempt ^^ n) s) t = thread_context s t)"
proof (induction n)
  case 0
  then show ?case using assms by simp
next
  case (Suc n)
  have ne: "(i + n) mod length ts < length ts" using assms(2) by (intro mod_less_divisor) linarith
  have "ts ! (Suc ((i + n) mod length ts) mod length ts) = ts ! ((i + Suc n) mod length ts)" by (simp add: mod_Suc_eq)
  with Suc preempt_step [OF _ ne, of "(preempt ^^ n) s"] show ?case by simp
qed

text \<open>C5: preemption is round robin and loses nothing: after any number of context switches the
  running thread is the one that many places further in the list, wrapping at its end, the list
  itself is intact, and every thread still has the registers and page directory it had (in the
  processor if it runs, saved otherwise).\<close>

theorem preempt_round_robin:
  assumes "threads_ok s ts" and "i < length ts" and "running_thread s = ts ! i"
  shows "running_thread ((preempt ^^ n) s) = ts ! ((i + n) mod length ts) \<and> threads_ok ((preempt ^^ n) s) ts \<and>
    (\<forall>t \<in> set ts. thread_context ((preempt ^^ n) s) t = thread_context s t)"
  by (rule preempt_iterate [OF assms])

text \<open>A thread that is preempted runs again with exactly the registers it was preempted with once
  every other thread has had its turn.\<close>

theorem preempt_full_cycle:
  assumes "threads_ok s ts"
  shows "running_thread ((preempt ^^ length ts) s) = running_thread s \<and>
    cpu ((preempt ^^ length ts) s) = cpu s \<and> cr3 ((preempt ^^ length ts) s) = cr3 s"
proof -
  obtain i where i: "i < length ts" "running_thread s = ts ! i"
    using assms by (auto simp: threads_ok_def in_set_conv_nth)
  have c: "running_thread ((preempt ^^ length ts) s) = ts ! i"
    "thread_context ((preempt ^^ length ts) s) (ts ! i) = thread_context s (ts ! i)"
    using preempt_iterate [OF assms i, of "length ts"] i(1) by simp_all
  then have "(cpu ((preempt ^^ length ts) s), cr3 ((preempt ^^ length ts) s)) = (cpu s, cr3 s)"
    using i(2) by (simp only: thread_context_def if_True refl)
  then show ?thesis using c(1) i(2) by simp
qed

section \<open>Creating threads\<close>

text \<open>\<^verbatim>\<open>init_tasking\<close> starts with one thread, the running one, whose list is well formed.\<close>

theorem init_tasking_threads:
  "threads_ok (init_tasking s) [main_thread s] \<and> running_thread (init_tasking s) = main_thread s \<and>
   thread_context (init_tasking s) (main_thread s) = (cpu s, cr3 s)"
  by (simp add: init_tasking_def threads_ok_def thread_context_def Let_def)

text \<open>A thread structure outside the kernel's page table.\<close>

definition clear_of_table :: "'a paging_scheme \<Rightarrow> u32 \<Rightarrow> bool" where
  "clear_of_table s t \<longleftrightarrow> 4096 \<le> t - first_page_table s \<and> 52 \<le> first_page_table s - t"

lemma rd32_set_entry:
  assumes "clear_of_table s t" and "i < 1024" and "k \<le> 48"
  shows "rd32 (set_entry (first_page_table s) i v m) (t + k) = rd32 m (t + k)"
proof -
  define p where "p = first_page_table s"
  have d: "4096 \<le> t - p" "52 \<le> p - t" using assms(1) by (simp_all add: clear_of_table_def p_def)
  have "4 * i \<le> 4092" using assms(2) by (simp add: word_le_nat_alt word_less_nat_alt unat_word_ariths)
  then have "4 \<le> (p - t) + (4 * i - k)" "4 \<le> (t - p) + (k - 4 * i)" using d assms(3) by uint_arith+
  then have "apart 4 (p + 4 * i) (t + k)" by (simp add: apart_def algebra_simps)
  then show ?thesis by (simp add: set_entry_def rd32_wr32_apart p_def)
qed

lemma linked_snoc: "ts \<noteq> [] \<Longrightarrow> linked m (ts @ [t]) \<longleftrightarrow> linked m ts \<and> th_next m (last ts) = t"
  by (induction m ts rule: linked.induct) auto

text \<open>The fields \<^verbatim>\<open>kthread_create\<close> writes before and after it allocates the stack.\<close>

definition new_thread_regs :: "u32 \<Rightarrow> u32 \<Rightarrow> 'a tasking_scheme \<Rightarrow> memory" where
  "new_thread_regs task e s = wr32 (wr32 (wr32 (wr32 (wr32 (wr32 (wr32 (wr32 (wr32 (mem s) task 0) (task + 4) 0)
     (task + 8) 0) (task + 12) 0) (task + 16) 0) (task + 20) 0) (task + 36) (task_flags s)) (task + 32) e)
     (task + 40) (task_page_dir s)"

definition new_thread_links :: "u32 \<Rightarrow> u32 \<Rightarrow> u32 \<Rightarrow> memory \<Rightarrow> memory" where
  "new_thread_links task page lst m = set_th_next lst task (set_th_next task 0
     (wr32 (wr32 m (task + 44) page) (task + 24) (page + 0x1000)))"

lemma kthread_create_eq:
  "kthread_create task e s = obind (kalloc_page (s\<lparr>mem := new_thread_regs task e s\<rparr>)) (\<lambda>page s.
     Done () (preempt (s\<lparr>mem := new_thread_links task page (last_thread s) (mem s), last_thread := task\<rparr>)))"
  by (simp add: kthread_create_def new_thread_regs_def new_thread_links_def th_virtual_addr_def Let_def)

definition new_context :: "memory \<Rightarrow> u32 \<Rightarrow> u32 \<Rightarrow> u32 \<Rightarrow> 'a tasking_scheme \<Rightarrow> cpu_regs \<times> u32" where
  "new_context m task e page s = (\<lparr>c_eax = 0, c_ebx = 0, c_ecx = 0, c_edx = 0, c_esi = 0, c_edi = 0,
     c_esp = page + 0x1000, c_ebp = rd32 m (task + 28), c_eip = e, c_eflags = task_flags s\<rparr>, task_page_dir s)"

lemma new_thread_regs_other:
  assumes "apart 52 task u" and "k \<le> 48"
  shows "rd32 (new_thread_regs task e s) (u + k) = rd32 (mem s) (u + k)"
  using assms fields_apart [OF assms(1) _ assms(2)] fields_apart [OF assms(1) _ assms(2), of 0]
  by (simp add: new_thread_regs_def rd32_wr32_apart)

lemma new_thread_links_other:
  assumes "apart 52 task u" and "k \<le> 44" and "lst = u \<or> apart 52 lst u"
  shows "rd32 (new_thread_links task page lst m) (u + k) = rd32 m (u + k)"
proof -
  have k: "k \<le> 48" using assms(2) by uint_arith
  have "apart 4 (lst + 48) (u + k)"
  proof (cases "lst = u")
    case True
    have "4 \<le> 48 - k" "4 \<le> k - 48" using assms(2) by (simp_all add: word_le_nat_alt unat_sub_if')
    moreover have "u + 48 - (u + k) = 48 - k" "u + k - (u + 48) = k - 48" by simp_all
    ultimately show ?thesis using True by (simp only: apart_def)
  next
    case False
    then show ?thesis using assms(3) k fields_apart by simp
  qed
  then show ?thesis
    using fields_apart [OF assms(1) _ k] by (simp add: new_thread_links_def set_th_next_def rd32_wr32_apart)
qed

lemma butlast_not_last: "distinct ts \<Longrightarrow> t \<in> set (butlast ts) \<Longrightarrow> t \<in> set ts \<and> t \<noteq> last ts"
  by (induction ts) (auto split: if_splits dest: in_set_butlastD)

lemma kthread_create_links:
  fixes page e v :: u32
  assumes ok: "threads_ok s ts" and apart: "\<forall>t \<in> set ts. apart 52 task t"
    and clear: "\<forall>t \<in> insert task (set ts). clear_of_table s t" and i: "i < 1024"
  defines "m \<equiv> new_thread_links task page (last_thread s)
    (set_entry (first_page_table s) i v (new_thread_regs task e s))"
  shows "t \<in> set ts \<Longrightarrow> k \<le> 44 \<Longrightarrow> rd32 m (t + k) = rd32 (mem s) (t + k)"
    "t \<in> set ts \<Longrightarrow> th_next m t = (if t = last ts then task else th_next (mem s) t)"
    "ctx m task = new_context (mem s) task e page s" "th_virtual_addr m task = page"
proof -
  note ok' = ok [unfolded threads_ok_def]
  have last: "last_thread s = last ts" "last ts \<in> set ts" using ok' last_in_set [of ts] by simp_all
  have lt: "last ts = t \<or> apart 52 (last ts) t" if "t \<in> set ts" for t using ok' last that by blast
  have tab: "rd32 (set_entry (first_page_table s) i v n) (t + k) = rd32 n (t + k)"
    if "t \<in> insert task (set ts)" "k \<le> 48" for t k n
    using rd32_set_entry [of s t i k v n] clear i that by blast
  show "rd32 m (t + k) = rd32 (mem s) (t + k)" if t: "t \<in> set ts" "k \<le> 44" for t k
  proof -
    have k: "k \<le> 48" using t(2) by uint_arith
    show ?thesis
      using apart t k lt tab by (simp add: m_def last(1) new_thread_links_other new_thread_regs_other)
  qed
  show "th_next m t = (if t = last ts then task else th_next (mem s) t)" if t: "t \<in> set ts" for t
  proof (cases "t = last ts")
    case True
    then show ?thesis by (simp add: m_def last(1) new_thread_links_def set_th_next_def th_next_def)
  next
    case False
    have "apart 4 (last ts + 48) (t + 48)" "apart 4 (task + 44) (t + 48)" "apart 4 (task + 24) (t + 48)"
      "apart 4 (task + 48) (t + 48)"
      using fields_apart lt [OF t] False apart t by simp_all
    then show ?thesis
      using False tab t apart new_thread_regs_other [of task t 48 e s]
      by (simp add: m_def last(1) new_thread_links_def set_th_next_def th_next_def rd32_wr32_apart)
  qed
  have "apart 4 (last ts + 48) (task + j)" if "j \<le> 48" for j
    using fields_apart apart last(2) that apart_sym by (metis order_refl)
  note a = this this [of 0, simplified]
  have tab0: "rd32 (set_entry (first_page_table s) i v n) task = rd32 n task" for n using tab [of task 0] by simp
  show "th_virtual_addr m task = page"
  proof -
    have "apart 4 (last ts + 48) (task + 44)" using a(1) [of 44] by simp
    moreover have "apart 4 (task + 48) (task + 44)" "apart 4 (task + 24) (task + 44)"
      by (simp_all add: apart_def)
    ultimately show ?thesis
      by (simp add: m_def last(1) th_virtual_addr_def new_thread_links_def set_th_next_def rd32_wr32_apart)
  qed
  have ap: "apart 4 (task + 44) (task + j)" "apart 4 (task + 48) (task + j)" if "j \<le> 40" for j
  proof -
    have "4 \<le> 44 - j" "4 \<le> j - 44" "4 \<le> 48 - j" "4 \<le> j - 48" using that by (simp_all add: word_le_nat_alt unat_sub_if')
    moreover have "task + c - (task + j) = c - j" "task + j - (task + c) = j - c" for c by simp_all
    ultimately show "apart 4 (task + 44) (task + j)" "apart 4 (task + 48) (task + j)" by (simp_all only: apart_def)
  qed
  note ap0 = ap [of 0, simplified]
  show "ctx m task = new_context (mem s) task e page s"
    using a ap ap0 tab tab0
    by (simp add: m_def last(1) ctx_def load_regs_def new_context_def new_thread_links_def set_th_next_def rd32_wr32_apart)
      (simp add: new_thread_regs_def rd32_wr32_apart apart_def)
qed

lemma kthread_create_step:
  assumes ok: "threads_ok s ts" and frames: "frames_ok s" and run: "i < length ts" "running_thread s = ts ! i"
    and apart: "\<forall>t \<in> set ts. apart 52 task t"
    and clear: "\<forall>t \<in> insert task (set ts). clear_of_table s t"
    and result: "kthread_create task e s = Done () u"
  shows "threads_ok u (ts @ [task]) \<and> running_thread u = (ts @ [task]) ! Suc i \<and>
    thread_context u task = new_context (mem s) task e (next_free_page s) s \<and>
    (\<forall>t \<in> set ts. thread_context u t = thread_context s t)"
proof -
  note ok' = ok [unfolded threads_ok_def]
  let ?s1 = "s\<lparr>mem := new_thread_regs task e s\<rparr>"
  obtain page s2 where alloc: "kalloc_page ?s1 = Done page s2" and
    u: "u = preempt (s2\<lparr>mem := new_thread_links task page (last_thread s2) (mem s2), last_thread := task\<rparr>)"
    using result by (auto simp: kthread_create_eq obind_Done_iff)
  have "frames_ok ?s1" using frames by (simp add: frames_ok_def)
  from kalloc_page_shape [OF this alloc] obtain j k v q where page: "page = next_free_page s" and k: "k < 1024"
    and s2: "s2 = (set_frame j ?s1)\<lparr>mem := set_entry (first_page_table s) k v (new_thread_regs task e s), next_free_page := q\<rparr>"
    by auto
  define m where "m = new_thread_links task page (last_thread s) (set_entry (first_page_table s) k v (new_thread_regs task e s))"
  define s3 where "s3 = s2\<lparr>mem := m, last_thread := task\<rparr>"
  have s3: "mem s3 = m" "cpu s3 = cpu s" "cr3 s3 = cr3 s" "running_thread s3 = running_thread s"
    "main_thread s3 = main_thread s" "last_thread s3 = task" "u = preempt s3"
    by (simp_all add: u s3_def s2 m_def set_frame_def)
  note links = kthread_create_links [OF ok apart clear k, where page = page and v = v and e = e, folded m_def]
  have new: "task \<notin> set ts" using apart by (auto simp: apart_def)
  have "linked m ts" using ok' links(2) linked_cong [of ts m "mem s"] butlast_not_last [of ts] by auto
  moreover have "th_next m (last ts) = task" using ok' links(2) [of "last ts"] last_in_set [of ts] by simp
  ultimately have ok3: "threads_ok s3 (ts @ [task])"
    using ok' new apart s3 by (auto simp: threads_ok_def linked_snoc apart_sym)
  have "ctx m t = ctx (mem s) t" if "t \<in> set ts" for t
    using links(1) [OF that] links(1) [OF that, of 0] by (simp add: ctx_def load_regs_def)
  then have c3: "thread_context s3 t = thread_context s t" if "t \<in> set ts" for t
    using that s3 by (simp add: thread_context_def)
  have "thread_context s3 task = new_context (mem s) task e page s"
    using links(3) s3 new ok' by (auto simp: thread_context_def)
  moreover have "i < length (ts @ [task])" "running_thread s3 = (ts @ [task]) ! i" "Suc i mod length (ts @ [task]) = Suc i"
    using run s3 by (simp_all add: nth_append)
  ultimately show ?thesis
    using preempt_step [OF ok3, of i] c3 s3(7) page by simp
qed

text \<open>C21: creating a thread with a structure that overlaps neither the existing ones nor the page
  table appends it to the thread list and switches to the next thread of the list. The new thread
  will start at its entry point with interrupts flags and page directory of the boot thread and the
  stack pointer at the end of the page just allocated; every other thread keeps its context.\<close>

theorem kthread_create_appends:
  assumes ok: "threads_ok s ts" and frames: "frames_ok s" and run: "i < length ts" "running_thread s = ts ! i"
    and apart: "\<forall>t \<in> set ts. apart 52 task t"
    and clear: "\<forall>t \<in> insert task (set ts). clear_of_table s t"
    and result: "kthread_create task e s = Done () u"
  shows "threads_ok u (ts @ [task]) \<and> running_thread u = (ts @ [task]) ! Suc i \<and>
    thread_context u task = new_context (mem s) task e (next_free_page s) s \<and>
    (\<forall>t \<in> set ts. thread_context u t = thread_context s t)"
  by (rule kthread_create_step [OF assms])

lemma join_second:
  assumes "threads_ok s (main_thread s # thread # ts)" and "main_thread s \<noteq> 0"
  shows "kthread_join thread s = kfree_page (kernel_page_dir s) (th_virtual_addr (mem s) thread) s"
proof -
  have "th_next (mem s) (main_thread s) = thread" using assms(1) by (simp add: threads_ok_def)
  then have "join_loop thread (main_thread s) s = Some (Inr s)"
    using assms(2) by (subst join_loop.simps) simp
  then show ?thesis by (simp add: kthread_join_def)
qed

text \<open>\<^verbatim>\<open>kthread_join\<close> does not remove a thread that directly follows the main thread: its loop does
  not run at all, so the list, its end and the running thread stay as they are, and the thread's
  stack page is unmapped and its frame freed while the thread is still scheduled.\<close>

theorem kthread_join_keeps_thread:
  assumes "threads_ok s (main_thread s # thread # ts)" and "main_thread s \<noteq> 0"
  shows "kthread_join thread s = kfree_page (kernel_page_dir s) (th_virtual_addr (mem s) thread) s"
  by (rule join_second [OF assms])

section \<open>Witnesses\<close>

text \<open>A machine with two threads, the second one running, and one with the boot thread only.\<close>

definition sample_cpu :: cpu_regs where
  "sample_cpu = \<lparr>c_eax = 1, c_ebx = 2, c_ecx = 3, c_edx = 4, c_esi = 5, c_edi = 6, c_esp = 0xC0109000, c_ebp = 7,
     c_eip = 0xC0100123, c_eflags = 0x202\<rparr>"

definition boot_thread :: tasking where
  "boot_thread = (devices.extend sample_devices (tasking.fields sample_cpu 0xC0107000 0xC0107000 0xC0107000 0x202 0x101000))
     \<lparr>mem := \<lambda>_. 0, next_free_page := 0xC0113000\<rparr>"

definition two_threads :: tasking where
  "two_threads = boot_thread\<lparr>mem := set_th_next 0xC0107000 0xC0108000 (\<lambda>_. 0), last_thread := 0xC0108000\<rparr>"

lemma boot_thread_simps:
  "main_thread boot_thread = 0xC0107000" "last_thread boot_thread = 0xC0107000" "running_thread boot_thread = 0xC0107000"
  "mem boot_thread = (\<lambda>_. 0)" "next_free_page boot_thread = 0xC0113000" "first_page_table boot_thread = 0xC0102000"
  "nframes boot_thread = 1024" "frame_map boot_thread = (\<lambda>_. 0)"
  by (simp_all add: boot_thread_def devices.extend_def tasking.fields_def sample_devices_def interrupts.extend_def
      devices.fields_def sample_kernel_def heap.extend_def interrupts.fields_def sample_heap_def paging.extend_def
      heap.fields_def boot_paging_def frames.extend_def paging.fields_def boot_frames_def)

lemma boot_thread_ok: "threads_ok boot_thread [0xC0107000]" "frames_ok boot_thread"
  by (simp_all add: threads_ok_def frames_ok_def boot_thread_simps)

lemma two_threads_ok: "threads_ok two_threads [0xC0107000, 0xC0108000]"
  by (simp add: threads_ok_def two_threads_def boot_thread_simps apart_def th_next_def set_th_next_def)

theorem preempt_round_robin_witness:
  "running_thread ((preempt ^^ 1) two_threads) = 0xC0108000"
proof -
  have "running_thread two_threads = [0xC0107000, 0xC0108000] ! 0" by (simp add: two_threads_def boot_thread_simps)
  from preempt_round_robin [OF two_threads_ok _ this, of 1] show ?thesis by simp
qed

theorem preempt_full_cycle_witness:
  "cpu ((preempt ^^ 2) two_threads) = cpu two_threads"
  using preempt_full_cycle [OF two_threads_ok] by (simp add: numeral_2_eq_2)

theorem kthread_create_appends_witness:
  "\<exists>u. kthread_create 0xC0110000 0xC0100500 boot_thread = Done () u \<and>
     threads_ok u [0xC0107000, 0xC0110000] \<and> running_thread u = 0xC0110000"
proof -
  let ?s = "boot_thread\<lparr>mem := new_thread_regs 0xC0110000 0xC0100500 boot_thread\<rparr>"
  have "rd32 (new_thread_regs 0xC0110000 0xC0100500 boot_thread) 0xC0102000 = 0"
    by (simp add: new_thread_regs_def boot_thread_simps rd32_wr32_apart apart_def) (simp add: rd32_def)
  then have "\<exists>t. kalloc_page ?s = Done (next_free_page ?s) t"
    by (intro kalloc_page_succeeds [where j = 0 and k = 0])
      (use boot_thread_ok in \<open>simp_all add: boot_thread_simps frames_ok_def scan_free_def KERNEL_VIRTUAL_BASE_def
        entry_def PAGE_PRESENT_def\<close>)
  then obtain u where u: "kthread_create 0xC0110000 0xC0100500 boot_thread = Done () u"
    by (auto simp: kthread_create_eq)
  have "threads_ok u ([0xC0107000] @ [0xC0110000]) \<and> running_thread u = ([0xC0107000] @ [0xC0110000]) ! Suc 0 \<and>
    thread_context u 0xC0110000 = new_context (mem boot_thread) 0xC0110000 0xC0100500 (next_free_page boot_thread) boot_thread \<and>
    (\<forall>t \<in> set [0xC0107000]. thread_context u t = thread_context boot_thread t)"
    by (rule kthread_create_appends [OF boot_thread_ok _ _ _ _ u])
      (simp_all add: boot_thread_simps apart_def clear_of_table_def)
  then show ?thesis using u by simp
qed

theorem kthread_join_keeps_thread_witness:
  "kthread_join 0xC0108000 two_threads =
     kfree_page (kernel_page_dir two_threads) (th_virtual_addr (mem two_threads) 0xC0108000) two_threads"
proof -
  have m: "main_thread two_threads = 0xC0107000" by (simp add: two_threads_def boot_thread_simps)
  show ?thesis by (rule kthread_join_keeps_thread [where ts = "[]"]) (simp_all add: m two_threads_ok)
qed

end
