(* ===== verification/Ata.thy ===== *)
theory Ata
  imports Heap
begin

unbundle bit_operations_syntax

text \<open>
  The ATA disk driver, \<^verbatim>\<open>src/drivers/ata.c\<close>, and the partition-table reader built on the same
  register protocol, \<^verbatim>\<open>src/fs/mbr.c\<close>. The drive is hardware: it is seen only through the port
  history. A block device is the record of \<^verbatim>\<open>include/fs/devfs/devfs.h\<close>; the driver reads it
  and \<^verbatim>\<open>parse_mbr\<close> updates it.
\<close>

record bdev =
  minor :: u8
  start_lba :: u32
  part_size :: u32
  slave_bit :: u8
  base :: u16
  dev_ctl :: u16
  permissions :: u32
  bdev_next :: u32
  bdev_prev :: u32

section \<open>Registers and commands\<close>

definition REG_INFO_PORT :: u16 where "REG_INFO_PORT = 0x01"
definition REG_SECT_CNT_PORT :: u16 where "REG_SECT_CNT_PORT = 0x02"
definition REG_LBA_LOW_PORT :: u16 where "REG_LBA_LOW_PORT = 0x03"
definition REG_LBA_MID_PORT :: u16 where "REG_LBA_MID_PORT = 0x04"
definition REG_LBA_HIGH_PORT :: u16 where "REG_LBA_HIGH_PORT = 0x05"
definition REG_DEV_SEL_PORT :: u16 where "REG_DEV_SEL_PORT = 0x06"
definition REG_CMD_PORT :: u16 where "REG_CMD_PORT = 0x07"
definition REG_DEV_CTL_PORT :: u16 where "REG_DEV_CTL_PORT = 0x3F6"
definition MASTER_DRIVE :: u8 where "MASTER_DRIVE = 0xA0"
definition SOFT_RESET :: u16 where "SOFT_RESET = 0x04"
definition IDENTIFY_CMD :: u8 where "IDENTIFY_CMD = 0xEC"
definition READ_SECTS_CMD :: u8 where "READ_SECTS_CMD = 0x20"
definition WRITE_SECTS_CMD :: u8 where "WRITE_SECTS_CMD = 0x30"
definition CACHE_FLUSH :: u8 where "CACHE_FLUSH = 0xE7"

lemmas reg_defs = REG_INFO_PORT_def REG_SECT_CNT_PORT_def REG_LBA_LOW_PORT_def REG_LBA_MID_PORT_def
  REG_LBA_HIGH_PORT_def REG_DEV_SEL_PORT_def REG_CMD_PORT_def REG_DEV_CTL_PORT_def

datatype ata_type = ATADEV_UNKNOWN | ATADEV_PATAPI | ATADEV_SATAPI | ATADEV_PATA | ATADEV_SATA

text \<open>The value written to the drive select register: drive bit, LBA mode and bits 24 to 27.\<close>

definition drive_select :: "u8 \<Rightarrow> u32 \<Rightarrow> u8" where
  "drive_select slave lba = ucast ((if slave \<noteq> 0 then 0xF0 else 0xE0) OR (drop_bit 24 lba AND 0x0F))"

text \<open>The register sequence of the transfer routines.\<close>

definition issue28 :: "u16 \<Rightarrow> u8 \<Rightarrow> u32 \<Rightarrow> u8 \<Rightarrow> u8 \<Rightarrow> 'a machine_scheme \<Rightarrow> 'a machine_scheme" where
  "issue28 b slave lba count cmd s =
     (let s = outb (b + REG_DEV_SEL_PORT) (drive_select slave lba) s;
          s = outb (b + REG_INFO_PORT) 0x00 s;
          s = outb (b + REG_SECT_CNT_PORT) count s;
          s = outb (b + REG_LBA_LOW_PORT) (ucast lba) s;
          s = outb (b + REG_LBA_MID_PORT) (ucast (drop_bit 8 lba)) s;
          s = outb (b + REG_LBA_HIGH_PORT) (ucast (drop_bit 16 lba)) s
      in outb (b + REG_CMD_PORT) cmd s)"

text \<open>The sequence of the two single-sector routines, which select the drive last.\<close>

definition issue28_late :: "u8 \<Rightarrow> u32 \<Rightarrow> u8 \<Rightarrow> 'a machine_scheme \<Rightarrow> 'a machine_scheme" where
  "issue28_late slave lba cmd s =
     (let s = outb (0x1F0 + REG_INFO_PORT) 0x00 s;
          s = outb (0x1F0 + REG_SECT_CNT_PORT) 0x01 s;
          s = outb (0x1F0 + REG_LBA_LOW_PORT) (ucast lba) s;
          s = outb (0x1F0 + REG_LBA_MID_PORT) (ucast (drop_bit 8 lba)) s;
          s = outb (0x1F0 + REG_LBA_HIGH_PORT) (ucast (drop_bit 16 lba)) s;
          s = outb (0x1F0 + REG_DEV_SEL_PORT) (drive_select slave lba) s
      in outb (0x1F0 + REG_CMD_PORT) cmd s)"

text \<open>The polling loops: busy and no error, with each status printed; and waiting for data.\<close>

definition busy :: "u8 \<Rightarrow> bool" where
  "busy status \<longleftrightarrow> status AND 0x80 = 0x80 \<and> status AND 0x01 \<noteq> 0x01"

definition print_status :: "u8 \<Rightarrow> 'a console_scheme \<Rightarrow> 'a console_scheme" where
  "print_status status s =
     tty_update (terminal_printhex status) (tty_update (terminal_writestring (''status:'' @ [CHR 10])) s)"

definition poll_status :: "u16 \<Rightarrow> 'a console_scheme \<Rightarrow> (u8 \<times> 'a console_scheme) option" where
  "poll_status b = poll (inb (b + REG_CMD_PORT)) busy print_status"

definition poll_drq :: "'a machine_scheme \<Rightarrow> (u8 \<times> 'a machine_scheme) option" where
  "poll_drq = poll (inb (0x1F0 + REG_CMD_PORT)) (\<lambda>status. status AND 0x08 = 0) (\<lambda>_ s. s)"

section \<open>Drive control\<close>

definition ata_soft_reset :: "u16 \<Rightarrow> 'a machine_scheme \<Rightarrow> 'a machine_scheme" where
  "ata_soft_reset cntrl s =
     (let (old_value, s) = inw REG_DEV_CTL_PORT s;
          s = outw REG_DEV_CTL_PORT (old_value OR SOFT_RESET) s
      in outw REG_DEV_CTL_PORT old_value s)"

definition detect_device_type :: "u8 \<Rightarrow> bdev \<Rightarrow> 'a machine_scheme \<Rightarrow> ata_type \<times> 'a machine_scheme" where
  "detect_device_type slave dev s =
     (let s = ata_soft_reset (dev_ctl dev) s;
          s = outb (base dev + REG_DEV_SEL_PORT) (MASTER_DRIVE OR push_bit 4 slave) s;
          (_, s) = inb (dev_ctl dev) s;
          (_, s) = inb (dev_ctl dev) s;
          (_, s) = inb (dev_ctl dev) s;
          (_, s) = inb (dev_ctl dev) s;
          (cl, s) = inb (base dev + REG_LBA_MID_PORT) s;
          (ch, s) = inb (base dev + REG_LBA_HIGH_PORT) s
      in (if cl = 0x14 \<and> ch = 0xEB then ATADEV_PATAPI
          else if cl = 0x69 \<and> ch = 0x96 then ATADEV_SATAPI
          else if cl = 0 \<and> ch = 0 then ATADEV_PATA
          else if cl = 0x3C \<and> ch = 0xC3 then ATADEV_SATA
          else ATADEV_UNKNOWN, s))"

definition ata_flush_cache :: "bdev \<Rightarrow> 'a console_scheme \<Rightarrow> ('a console_scheme, unit) outcome" where
  "ata_flush_cache dev s =
     (let s = outb (base dev + REG_DEV_SEL_PORT) (MASTER_DRIVE OR push_bit 4 (slave_bit dev)) s;
          s = outb (base dev + REG_CMD_PORT) CACHE_FLUSH s;
          (status, s) = inb (base dev + REG_CMD_PORT) s;
          s = print_status status s
      in if status = 0x00 then Done () s
         else case while_option (\<lambda>(status, s). busy status)
                     (\<lambda>(status, s). let (v, s) = inb (base dev + REG_CMD_PORT) s in (v, print_status v s))
                     (status, s) of
                None \<Rightarrow> Diverged
              | Some (status, s) \<Rightarrow>
                  if status AND 0x01 \<noteq> 0 \<or> status AND 0x50 \<noteq> 0 then kpanic ''ERROR'' s else Done () s)"

section \<open>Transfers\<close>

text \<open>The number of 16-bit words of a transfer; a sector count of 0 means 256 sectors.\<close>

definition words_of :: "u8 \<Rightarrow> nat" where
  "words_of sect_count = (if sect_count = 0 then 256 else unat sect_count) * 256"

text \<open>The copy loops of \<^verbatim>\<open>ata_write_sects_28_pio\<close> and \<^verbatim>\<open>ata_read_sects_28_pio\<close>.\<close>

fun send_words :: "u16 \<Rightarrow> u32 \<Rightarrow> nat \<Rightarrow> 'a console_scheme \<Rightarrow> 'a console_scheme" where
  "send_words b ptr 0 s = s"
| "send_words b ptr (Suc n) s =
     (let w = rd16 (mem s) ptr;
          s = outw b w s;
          s = tty_update (terminal_printhex16 w) s
      in send_words b (ptr + 2) n s)"

fun receive_words :: "u16 \<Rightarrow> u32 \<Rightarrow> nat \<Rightarrow> 'a console_scheme \<Rightarrow> 'a console_scheme" where
  "receive_words b ptr 0 s = s"
| "receive_words b ptr (Suc n) s =
     (let (tmp, s) = inw b s;
          s = s\<lparr>mem := (mem s)(ptr := ucast tmp)\<rparr>;
          s = s\<lparr>mem := (mem s)(ptr + 1 := ucast (drop_bit 8 tmp))\<rparr>;
          s = tty_update (terminal_printhex (mem s ptr)) s;
          s = tty_update (terminal_printhex (mem s (ptr + 1))) s
      in receive_words b (ptr + 2) n s)"

definition ata_write_sects_28_pio ::
    "u32 \<Rightarrow> u8 \<Rightarrow> bdev \<Rightarrow> u32 \<Rightarrow> 'a console_scheme \<Rightarrow> ('a console_scheme, unit) outcome" where
  "ata_write_sects_28_pio src sect_count dev rel_lba s =
     (let s = tty_update (terminal_writestring (''Writing to drive'' @ [CHR 10])) s;
          real_lba = rel_lba + start_lba dev;
          b = base dev;
          s = issue28 b (slave_bit dev) real_lba sect_count WRITE_SECTS_CMD s
      in case poll_status b s of
           None \<Rightarrow> Diverged
         | Some (status, s) \<Rightarrow>
             if status AND 0x01 \<noteq> 0 then kpanic ''Status = 0x01'' s
             else Done () (send_words b src (words_of sect_count) s))"

definition ata_read_sects_28_pio ::
    "u32 \<Rightarrow> u8 \<Rightarrow> bdev \<Rightarrow> u32 \<Rightarrow> 'a console_scheme \<Rightarrow> ('a console_scheme, unit) outcome" where
  "ata_read_sects_28_pio dest sect_count dev rel_lba s =
     (let s = tty_update (terminal_writestring (''Reading from drive'' @ [CHR 10])) s;
          real_lba = rel_lba + start_lba dev;
          b = base dev;
          s = issue28 b (slave_bit dev) real_lba sect_count READ_SECTS_CMD s
      in case poll_status b s of
           None \<Rightarrow> Diverged
         | Some (status, s) \<Rightarrow>
             if status AND 0x01 \<noteq> 0 then kpanic ''Status = 0x01'' s
             else Done () (receive_words b dest (words_of sect_count) s))"

text \<open>The loop of \<^verbatim>\<open>ata_write_28_pio\<close>, whose counter is 16 bits wide.\<close>

partial_function (option) send_words16 ::
    "u16 \<Rightarrow> u32 \<Rightarrow> nat \<Rightarrow> u16 \<Rightarrow> 'a machine_scheme \<Rightarrow> 'a machine_scheme option" where
  "send_words16 b src bound i s =
     (if unat i < bound then send_words16 b src bound (i + 1) (outw b (rd16 (mem s) (src + 2 * ucast i)) s)
      else Some s)"

definition ata_write_28_pio ::
    "u32 \<Rightarrow> u8 \<Rightarrow> bdev \<Rightarrow> u32 \<Rightarrow> 'a console_scheme \<Rightarrow> ('a console_scheme, unit) outcome" where
  "ata_write_28_pio src sect_count dev rel_lba s =
     (let s = tty_update (terminal_writestring ''Writing to drive'') s;
          real_lba = rel_lba + start_lba dev;
          b = base dev;
          s = issue28 b (slave_bit dev) real_lba sect_count WRITE_SECTS_CMD s
      in case send_words16 b src (words_of sect_count) 0 s of
           None \<Rightarrow> Diverged
         | Some s \<Rightarrow> ata_flush_cache dev s)"

definition prepare_disk_read :: "bdev \<Rightarrow> u32 \<Rightarrow> u32 \<Rightarrow> 'a console_scheme \<Rightarrow> ('a console_scheme, unit) outcome" where
  "prepare_disk_read dev lba sect_count s =
     (let s = issue28 (base dev) (slave_bit dev) lba (ucast sect_count) READ_SECTS_CMD s
      in case poll_status (base dev) s of None \<Rightarrow> Diverged | Some (_, s) \<Rightarrow> Done () s)"

text \<open>
  The single-sector routines. The reader issues the identify command and prints each word as the
  two-character string it builds in a string literal; the storage of the literal is not modelled.
\<close>

fun receive_text :: "u32 \<Rightarrow> nat \<Rightarrow> 'a console_scheme \<Rightarrow> 'a console_scheme" where
  "receive_text dest 0 s = s"
| "receive_text dest (Suc n) s =
     (let (w, s) = inw 0x1F0 s;
          s = s\<lparr>mem := wr16 (mem s) dest w\<rparr>;
          text = [ucast (drop_bit 8 w), ucast w];
          s = tty_update (terminal_write (takeWhile (\<lambda>c. c \<noteq> 0) text)) s
      in receive_text (dest + 2) n s)"

definition ata_read_sect_lba28_pio :: "u32 \<Rightarrow> bdev \<Rightarrow> u32 \<Rightarrow> 'a console_scheme \<Rightarrow> ('a console_scheme, unit) outcome" where
  "ata_read_sect_lba28_pio dest dev lba s =
     (let s = issue28_late (slave_bit dev) lba IDENTIFY_CMD s
      in case poll_drq s of None \<Rightarrow> Diverged | Some (_, s) \<Rightarrow> Done () (receive_text dest 256 s))"

fun send_raw :: "u32 \<Rightarrow> nat \<Rightarrow> 'a machine_scheme \<Rightarrow> 'a machine_scheme" where
  "send_raw src 0 s = s"
| "send_raw src (Suc n) s = send_raw (src + 2) n (outw 0x1F0 (rd16 (mem s) src) s)"

definition ata_write_sect_lba28_pio :: "u32 \<Rightarrow> bdev \<Rightarrow> u32 \<Rightarrow> 'a machine_scheme \<Rightarrow> ('a machine_scheme, unit) outcome" where
  "ata_write_sect_lba28_pio src dev lba s =
     (let s = issue28_late (slave_bit dev) lba WRITE_SECTS_CMD s
      in case poll_drq s of None \<Rightarrow> Diverged | Some (_, s) \<Rightarrow> Done () (send_raw src 256 s))"

section \<open>Partition table\<close>

fun mbr_words :: "nat \<Rightarrow> nat \<Rightarrow> bdev \<Rightarrow> 'a console_scheme \<Rightarrow> bdev \<times> 'a console_scheme" where
  "mbr_words i 0 dev s = (dev, s)"
| "mbr_words i (Suc n) dev s =
     (let (tmp, s) = inw (base dev) s;
          dev = (if i = 227 then dev\<lparr>start_lba := ucast tmp\<rparr> else dev);
          s = tty_update (terminal_printhex16 tmp) s
      in mbr_words (i + 1) n dev s)"

definition parse_mbr :: "bdev \<Rightarrow> 'a console_scheme \<Rightarrow> ('a console_scheme, bdev) outcome" where
  "parse_mbr dev s =
     (let s = issue28 (base dev) (slave_bit dev) (start_lba dev) 1 READ_SECTS_CMD s
      in case poll_status (base dev) s of
           None \<Rightarrow> Diverged
         | Some (_, s) \<Rightarrow>
             let (dev, s) = mbr_words 0 256 dev s;
                 s = tty_update (terminal_printhex32 (start_lba dev)) s
             in Done dev (tty_update (terminal_writestring (''Finished parsing mbr'' @ [CHR 10])) s))"

section \<open>What crosses the ports\<close>

definition word_bytes :: "u16 \<Rightarrow> u8 list" where
  "word_bytes w = [ucast w, ucast (drop_bit 8 w)]"

fun load_words :: "memory \<Rightarrow> u32 \<Rightarrow> nat \<Rightarrow> u16 list" where
  "load_words m ptr 0 = []"
| "load_words m ptr (Suc n) = rd16 m ptr # load_words m (ptr + 2) n"

lemma length_load_words [simp]: "length (load_words m ptr n) = n"
  by (induction n arbitrary: ptr) auto

lemma send_words_eq:
  "mem (send_words b ptr n s) = mem s"
  "io_log (send_words b ptr n s) = rev (map (Out16 b) (load_words (mem s) ptr n)) @ io_log s"
  "console.more (send_words b ptr n s) = console.more s" "hw (send_words b ptr n s) = hw s"
  by (induction n arbitrary: ptr s) (simp_all add: outw_def Let_def)

lemma receive_words_more:
  "console.more (receive_words b ptr n s) = console.more s" "hw (receive_words b ptr n s) = hw s"
  by (induction n arbitrary: ptr s) (simp_all add: inw_def Let_def)

lemma store_word_bytes:
  "store_bytes m p (word_bytes w @ bs) = store_bytes (m(p := ucast w, p + 1 := ucast (drop_bit 8 w))) (p + 2) bs"
  by (simp add: word_bytes_def add.assoc)

lemma receive_words_eq:
  "\<exists>ws. length ws = n \<and> io_log (receive_words b ptr n s) = rev (map (In16 b) ws) @ io_log s \<and>
     mem (receive_words b ptr n s) = store_bytes (mem s) ptr (concat (map word_bytes ws))"
proof (induction n arbitrary: ptr s)
  case 0
  then show ?case by (intro exI [of _ "[]"]) simp
next
  case (Suc n)
  define w where "w = fst (inw b s)"
  define t where "t = tty_update (terminal_printhex (ucast (drop_bit 8 w))) (tty_update (terminal_printhex (ucast w))
    ((snd (inw b s))\<lparr>mem := (mem s)(ptr := ucast w, ptr + 1 := ucast (drop_bit 8 w))\<rparr>))"
  have step: "receive_words b ptr (Suc n) s = receive_words b (ptr + 2) n t"
    by (simp add: Let_def t_def w_def split_beta inw_def)
  have t: "io_log t = In16 b w # io_log s" "mem t = (mem s)(ptr := ucast w, ptr + 1 := ucast (drop_bit 8 w))"
    by (simp_all add: t_def w_def inw_def Let_def)
  obtain ws where ws: "length ws = n" "io_log (receive_words b (ptr + 2) n t) = rev (map (In16 b) ws) @ io_log t"
    "mem (receive_words b (ptr + 2) n t) = store_bytes (mem t) (ptr + 2) (concat (map word_bytes ws))"
    using Suc [of "ptr + 2" t] by blast
  then show ?case
    unfolding step using t by (intro exI [of _ "w # ws"]) (simp add: store_word_bytes)
qed

definition issue_events :: "u16 \<Rightarrow> u8 \<Rightarrow> u32 \<Rightarrow> u8 \<Rightarrow> u8 \<Rightarrow> io_event list" where
  "issue_events b slave lba count cmd =
     [Out8 (b + 7) cmd, Out8 (b + 5) (ucast (drop_bit 16 lba)), Out8 (b + 4) (ucast (drop_bit 8 lba)),
      Out8 (b + 3) (ucast lba), Out8 (b + 2) count, Out8 (b + 1) 0, Out8 (b + 6) (drive_select slave lba)]"

lemma issue28_eq: "issue28 b slave lba count cmd s = s\<lparr>io_log := issue_events b slave lba count cmd @ io_log s\<rparr>"
  by (simp add: issue28_def issue_events_def outb_def reg_defs Let_def)

lemma busy_bits: "busy v \<longleftrightarrow> bit v 7 \<and> \<not> bit v 0"
proof -
  have "v AND 2 ^ n = 2 ^ n \<longleftrightarrow> bit v n" if "n < 8" for n using that by (auto simp: bit_eq_iff [of "v AND 2 ^ n" "2 ^ n"] bit_and_iff bit_exp_iff)
  from this [of 7] have "v AND 0x80 = 0x80 \<longleftrightarrow> bit v 7" by simp
  moreover have "v AND 0x01 = 0x01 \<longleftrightarrow> bit v 0" by (simp add: and_one_eq bit_0 odd_iff_mod_2_eq_one)
  ultimately show ?thesis by (simp add: busy_def)
qed

lemma error_bit: "v AND 1 = 0 \<longleftrightarrow> \<not> bit v 0" for v :: u8
  by (simp add: and_one_eq bit_0 even_iff_mod_2_eq_zero)

text \<open>The status reads of a wait: all but the last one are busy.\<close>

lemma poll_status_run:
  assumes "poll_status b s = Some (v, t)"
  shows "\<exists>waits. io_log t = In8 (b + 7) v # map (In8 (b + 7)) waits @ io_log s \<and> (\<forall>w \<in> set waits. busy w)"
proof -
  let ?P = "\<lambda>(v, t). \<exists>waits. io_log t = In8 (b + 7) v # map (In8 (b + 7)) waits @ io_log s \<and> (\<forall>w \<in> set waits. busy w)"
  have "?P (v, t)"
  proof (rule poll_rule [OF assms [unfolded poll_status_def]])
    show "?P (inb (b + REG_CMD_PORT) s)" by (simp add: inb_def reg_defs Let_def)
    show "?P (let (v, s) = inb (b + REG_CMD_PORT) u in (v, print_status v s))" if vu: "?P (v, u)" "busy v"
      for v and u :: "'a console_scheme"
    proof -
      obtain waits where "io_log u = In8 (b + 7) v # map (In8 (b + 7)) waits @ io_log s" "\<forall>w \<in> set waits. busy w" using vu(1) by auto
      then show ?thesis using vu(2) by (auto simp: inb_def reg_defs print_status_def Let_def intro!: exI [of _ "v # waits"])
    qed
  qed
  then show ?thesis by simp
qed

lemma poll_status_eq:
  assumes "poll_status b s = Some (v, t)"
  shows "mem t = mem s" "\<not> busy v" "console.more t = console.more s" "hw t = hw s"
    "\<exists>l. io_log t = l @ io_log s \<and> (\<forall>e \<in> set l. \<exists>v. e = In8 (b + 7) v)"
proof -
  note p = assms [unfolded poll_status_def]
  show "\<not> busy v" by (rule poll_stops [OF p])
  show "mem t = mem s"
    by (rule poll_invariant [OF p, where P = "\<lambda>t. mem t = mem s"]) (simp_all add: inb_def print_status_def Let_def)
  show "console.more t = console.more s"
    by (rule poll_invariant [OF p, where P = "\<lambda>t. console.more t = console.more s"])
      (simp_all add: inb_def print_status_def Let_def)
  show "hw t = hw s"
    by (rule poll_invariant [OF p, where P = "\<lambda>t. hw t = hw s"]) (simp_all add: inb_def print_status_def Let_def)
  obtain waits where "io_log t = In8 (b + 7) v # map (In8 (b + 7)) waits @ io_log s" using poll_status_run [OF assms] by blast
  then show "\<exists>l. io_log t = l @ io_log s \<and> (\<forall>e \<in> set l. \<exists>v. e = In8 (b + 7) v)"
    by (intro exI [of _ "In8 (b + 7) v # map (In8 (b + 7)) waits"]) auto
qed

text \<open>C22: the register sequence of a transfer carries the sector count, the command and exactly the
  low 28 bits of the block address: the drive can recover them from the bytes sent, together with
  the drive number and the LBA mode bit.\<close>

theorem lba28_round_trip:
  "\<exists>sel lo mid hi. io_log (issue28 b slave lba count cmd s) =
     [Out8 (b + 7) cmd, Out8 (b + 5) hi, Out8 (b + 4) mid, Out8 (b + 3) lo, Out8 (b + 2) count,
      Out8 (b + 1) 0, Out8 (b + 6) sel] @ io_log s \<and>
   ucast lo OR push_bit 8 (ucast mid) OR push_bit 16 (ucast hi) OR push_bit 24 (ucast (sel AND 0x0F)) =
     take_bit 28 lba \<and> bit sel 4 = (slave \<noteq> 0) \<and> bit sel 6"
proof -
  have f: "(0x0F :: 'b::len word) = mask 4" by (simp add: mask_eq_exp_minus_1)
  have sel: "bit (drive_select slave lba) n = (n = 4 \<and> slave \<noteq> 0 \<or> n \<in> {5, 6, 7} \<or> n < 4 \<and> bit lba (24 + n))"
    if "n < 8" for n
  proof -
    have "n \<in> {0, 1, 2, 3, 4, 5, 6, 7}" using that by auto
    then show ?thesis by (auto simp: drive_select_def bit_simps f)
  qed
  have "ucast (ucast lba :: u8) OR push_bit 8 (ucast (ucast (drop_bit 8 lba) :: u8)) OR
      push_bit 16 (ucast (ucast (drop_bit 16 lba) :: u8)) OR push_bit 24 (ucast (drive_select slave lba AND 0x0F)) =
      take_bit 28 lba" (is "?l = _")
  proof -
    define y where "y = take_bit 28 lba"
    have "(ucast lba :: u8) = ucast y" "(ucast (drop_bit 8 lba) :: u8) = ucast (drop_bit 8 y)"
      "(ucast (drop_bit 16 lba) :: u8) = ucast (drop_bit 16 y)"
      unfolding y_def by (rule bit_word_eqI; auto simp: bit_simps)+
    moreover have "drive_select slave lba AND 0x0F = ucast (drop_bit 24 y)"
      unfolding y_def by (rule bit_word_eqI) (auto simp: bit_simps f sel)
    ultimately show ?thesis using rd32_bytes [of y] by (simp only: y_def)
  qed
  moreover have "bit (drive_select slave lba) 4 = (slave \<noteq> 0)" "bit (drive_select slave lba) 6"
    using sel [of 4] sel [of 6] by simp_all
  ultimately show ?thesis
    unfolding issue28_eq issue_events_def
    by (intro exI [of _ "drive_select slave lba"] exI [of _ "ucast lba"] exI [of _ "ucast (drop_bit 8 lba)"]
        exI [of _ "ucast (drop_bit 16 lba)"]) simp
qed

section \<open>Transfers\<close>

text \<open>The port history of a wait for the drive after a command: waits, oldest last, then the final status.\<close>

definition polled :: "u16 \<Rightarrow> u8 list \<Rightarrow> u8 \<Rightarrow> io_event list" where
  "polled b waits v = In8 (b + 7) v # map (In8 (b + 7)) waits"

text \<open>What a sector read that returns has done.\<close>

lemma ata_read_run:
  assumes "ata_read_sects_28_pio dest c dev lba s = Done () t"
  shows "\<exists>ws v waits. length ws = words_of c \<and> \<not> bit v 7 \<and> \<not> bit v 0 \<and> (\<forall>w \<in> set waits. bit w 7 \<and> \<not> bit w 0) \<and>
    io_log t = rev (map (In16 (base dev)) ws) @ polled (base dev) waits v @
      issue_events (base dev) (slave_bit dev) (lba + start_lba dev) c READ_SECTS_CMD @ io_log s \<and>
    mem t = store_bytes (mem s) dest (concat (map word_bytes ws)) \<and> console.more t = console.more s \<and> hw t = hw s"
proof -
  let ?s = "issue28 (base dev) (slave_bit dev) (lba + start_lba dev) c READ_SECTS_CMD
    (tty_update (terminal_writestring (''Reading from drive'' @ [CHR 10])) s)"
  obtain v u where u: "poll_status (base dev) ?s = Some (v, u)" "v AND 1 = 0" "t = receive_words (base dev) dest (words_of c) u"
    using assms by (auto simp: ata_read_sects_28_pio_def Let_def kpanic_def split: option.splits if_splits)
  obtain waits where waits: "io_log u = polled (base dev) waits v @ io_log ?s" "\<forall>w \<in> set waits. busy w"
    using poll_status_run [OF u(1)] by (auto simp: polled_def)
  have v: "\<not> bit v 0" "\<not> bit v 7" using u(2) poll_status_eq(2) [OF u(1)] by (simp_all add: busy_bits error_bit)
  have m: "mem u = mem s" "console.more u = console.more s" "hw u = hw s"
    using poll_status_eq(1,3,4) [OF u(1)] by (simp_all add: issue28_eq)
  obtain ws where "length ws = words_of c" "io_log t = rev (map (In16 (base dev)) ws) @ io_log u"
    "mem t = store_bytes (mem u) dest (concat (map word_bytes ws))"
    using receive_words_eq [of "words_of c" "base dev" dest u] u(3) by blast
  with waits v m show ?thesis
    by (intro exI [of _ ws] exI [of _ v] exI [of _ waits]) (simp add: issue28_eq u(3) receive_words_more busy_bits)
qed

lemma polled_status: "\<forall>e \<in> set (polled b waits v). \<exists>w. e = In8 (b + 7) w"
  by (auto simp: polled_def)

lemma ata_read_effect:
  assumes "ata_read_sects_28_pio dest c dev lba s = Done () t"
  shows "\<exists>ws polls. length ws = words_of c \<and> (\<forall>e \<in> set polls. \<exists>v. e = In8 (base dev + 7) v) \<and>
    io_log t = rev (map (In16 (base dev)) ws) @ polls @
      issue_events (base dev) (slave_bit dev) (lba + start_lba dev) c READ_SECTS_CMD @ io_log s \<and>
    mem t = store_bytes (mem s) dest (concat (map word_bytes ws)) \<and> console.more t = console.more s \<and> hw t = hw s"
  using ata_read_run [OF assms] polled_status by blast

text \<open>C10: a sector read that returns has issued the read command for the partition-relative block,
  read the status register at least once and until a status that is neither busy (bit 7) nor an error (bit 0), every status before
  it being busy without error; has then read exactly the number of words of the requested sectors (256
  sectors for a count of 0) from the data port, and stored their bytes, low byte first and in
  order, at the destination; no other memory changed and no other port was used.\<close>

theorem ata_read_stores_sectors:
  assumes "ata_read_sects_28_pio dest c dev lba s = Done () t"
  shows "\<exists>ws v waits. length ws = words_of c \<and> \<not> bit v 7 \<and> \<not> bit v 0 \<and> (\<forall>w \<in> set waits. bit w 7 \<and> \<not> bit w 0) \<and>
    io_log t = rev (map (In16 (base dev)) ws) @ In8 (base dev + 7) v # map (In8 (base dev + 7)) waits @
      issue_events (base dev) (slave_bit dev) (lba + start_lba dev) c READ_SECTS_CMD @ io_log s \<and>
    mem t = store_bytes (mem s) dest (concat (map word_bytes ws))"
  using ata_read_run [OF assms] unfolding polled_def by (simp del: set_map) blast

lemma ata_write_run:
  assumes "ata_write_sects_28_pio src c dev lba s = Done () t"
  shows "mem t = mem s \<and> console.more t = console.more s \<and> hw t = hw s \<and>
    (\<exists>v waits. \<not> bit v 7 \<and> \<not> bit v 0 \<and> (\<forall>w \<in> set waits. bit w 7 \<and> \<not> bit w 0) \<and>
    io_log t = rev (map (Out16 (base dev)) (load_words (mem s) src (words_of c))) @ polled (base dev) waits v @
      issue_events (base dev) (slave_bit dev) (lba + start_lba dev) c WRITE_SECTS_CMD @ io_log s)"
proof -
  let ?s = "issue28 (base dev) (slave_bit dev) (lba + start_lba dev) c WRITE_SECTS_CMD
    (tty_update (terminal_writestring (''Writing to drive'' @ [CHR 10])) s)"
  obtain v u where u: "poll_status (base dev) ?s = Some (v, u)" "v AND 1 = 0" "t = send_words (base dev) src (words_of c) u"
    using assms by (auto simp: ata_write_sects_28_pio_def Let_def kpanic_def split: option.splits if_splits)
  obtain waits where waits: "io_log u = polled (base dev) waits v @ io_log ?s" "\<forall>w \<in> set waits. busy w"
    using poll_status_run [OF u(1)] by (auto simp: polled_def)
  have v: "\<not> bit v 0" "\<not> bit v 7" using u(2) poll_status_eq(2) [OF u(1)] by (simp_all add: busy_bits error_bit)
  have m: "mem u = mem s" "console.more u = console.more s" "hw u = hw s"
    using poll_status_eq(1,3,4) [OF u(1)] by (simp_all add: issue28_eq)
  have "\<exists>v waits. \<not> bit v 7 \<and> \<not> bit v 0 \<and> (\<forall>w \<in> set waits. bit w 7 \<and> \<not> bit w 0) \<and>
    io_log t = rev (map (Out16 (base dev)) (load_words (mem s) src (words_of c))) @ polled (base dev) waits v @
      issue_events (base dev) (slave_bit dev) (lba + start_lba dev) c WRITE_SECTS_CMD @ io_log s"
    using waits v m by (intro exI [of _ v] exI [of _ waits]) (simp add: u(3) send_words_eq issue28_eq busy_bits)
  then show ?thesis using m by (simp add: u(3) send_words_eq)
qed

lemma ata_write_effect:
  assumes "ata_write_sects_28_pio src c dev lba s = Done () t"
  shows "mem t = mem s \<and> console.more t = console.more s \<and> hw t = hw s \<and> (\<exists>polls. (\<forall>e \<in> set polls. \<exists>v. e = In8 (base dev + 7) v) \<and>
    io_log t = rev (map (Out16 (base dev)) (load_words (mem s) src (words_of c))) @ polls @
      issue_events (base dev) (slave_bit dev) (lba + start_lba dev) c WRITE_SECTS_CMD @ io_log s)"
  using ata_write_run [OF assms] polled_status by blast

text \<open>C32: a sector write that returns has issued the write command, polled (at least one status read, up to the first that is not
  busy, which reports no error), and then sent exactly the words found in memory at the source, in order; memory is unchanged.\<close>

theorem ata_write_sends_sectors:
  assumes "ata_write_sects_28_pio src c dev lba s = Done () t"
  shows "mem t = mem s \<and> (\<exists>v waits. \<not> bit v 7 \<and> \<not> bit v 0 \<and> (\<forall>w \<in> set waits. bit w 7 \<and> \<not> bit w 0) \<and>
    io_log t = rev (map (Out16 (base dev)) (load_words (mem s) src (words_of c))) @ In8 (base dev + 7) v # map (In8 (base dev + 7)) waits @
      issue_events (base dev) (slave_bit dev) (lba + start_lba dev) c WRITE_SECTS_CMD @ io_log s)"
  using ata_write_run [OF assms] unfolding polled_def by (simp del: set_map)

text \<open>A drive that completes commands: after a command was written to the command register of the controller at \<open>b\<close> and its status
  read \<open>n\<close> times with nothing in between, the busy bit is clear.\<close>

definition drive_settles :: "nat \<Rightarrow> u16 \<Rightarrow> (io_event list \<Rightarrow> u16 \<Rightarrow> u32) \<Rightarrow> bool" where
  "drive_settles n b h \<longleftrightarrow> (\<forall>cmd vs past. n \<le> length vs \<longrightarrow> \<not> bit (h (map (In8 (b + 7)) vs @ Out8 (b + 7) cmd # past) (b + 7)) 7)"

lemma poll_status_settles:
  fixes s :: "'a console_scheme"
  assumes settles: "drive_settles n b (hw s)" and log: "io_log s = Out8 (b + 7) cmd # past"
  shows "\<exists>v waits t. poll_status b s = Some (v, t) \<and> length waits \<le> n \<and> (\<forall>w \<in> set waits. busy w) \<and> \<not> busy v \<and>
    io_log t = polled b waits v @ io_log s"
proof -
  define I where "I = (\<lambda>k (v, t :: 'a console_scheme). k \<le> n \<and> hw t = hw s \<and> (\<exists>waits. length waits = k \<and> (\<forall>w \<in> set waits. busy w) \<and>
    io_log t = polled b waits v @ io_log s \<and> v = ucast (hw s (map (In8 (b + 7)) waits @ io_log s) (b + 7))))"
  have bound: "k < n" if vt: "I k (v, t)" "busy v" for k v t
  proof (rule ccontr)
    assume "\<not> k < n"
    then obtain waits where "n \<le> length waits" "v = ucast (hw s (map (In8 (b + 7)) waits @ Out8 (b + 7) cmd # past) (b + 7))"
      using vt(1) by (auto simp: I_def log)
    then have "\<not> bit v 7" using settles unfolding drive_settles_def by (auto simp: bit_simps)
    then show False using vt(2) by (simp add: busy_bits)
  qed
  have "\<exists>k v t. poll (inb (b + REG_CMD_PORT)) busy print_status s = Some (v, t) \<and> I k (v, t) \<and> \<not> busy v"
  proof (rule poll_within [where n = n])
    show "I 0 (inb (b + REG_CMD_PORT) s)" by (simp add: I_def inb_def polled_def reg_defs Let_def)
    show "I (Suc k) (let (v, s) = inb (b + REG_CMD_PORT) t in (v, print_status v s))" if vt: "I k (v, t)" "busy v" for k v t
    proof -
      obtain waits where "length waits = k" "\<forall>w \<in> set waits. busy w" "io_log t = polled b waits v @ io_log s" "hw t = hw s"
        using vt(1) by (auto simp: I_def)
      then show ?thesis using vt(2) bound [OF vt]
        by (auto simp: I_def inb_def polled_def print_status_def reg_defs Let_def intro!: exI [of _ "v # waits"])
    qed
  qed (rule bound)
  then show ?thesis by (auto simp: I_def poll_status_def)
qed

text \<open>C23: on a drive that clears its busy bit at the latest after \<open>n\<close> status reads that follow a command, a sector read ends, after at most
  \<open>n\<close> busy statuses. If the last status reports an error it is a kernel panic, and no data was read and memory is unchanged; otherwise all
  words of the requested sectors were read from the data port and stored at the destination.\<close>

theorem ata_read_ends:
  fixes s :: "'a console_scheme"
  assumes "drive_settles n (base dev) (hw s)"
  shows "\<exists>t v waits. length waits \<le> n \<and> (\<forall>w \<in> set waits. bit w 7 \<and> \<not> bit w 0) \<and>
    (let past = In8 (base dev + 7) v # map (In8 (base dev + 7)) waits @
       issue_events (base dev) (slave_bit dev) (lba + start_lba dev) c READ_SECTS_CMD @ io_log s
     in if bit v 0
        then ata_read_sects_28_pio dest c dev lba s = Panicked ''Status = 0x01'' t \<and> io_log t = past \<and> mem t = mem s
        else ata_read_sects_28_pio dest c dev lba s = Done () t \<and>
          (\<exists>ws. length ws = words_of c \<and> io_log t = rev (map (In16 (base dev)) ws) @ past \<and>
             mem t = store_bytes (mem s) dest (concat (map word_bytes ws))))"
proof -
  let ?s = "issue28 (base dev) (slave_bit dev) (lba + start_lba dev) c READ_SECTS_CMD
    (tty_update (terminal_writestring (''Reading from drive'' @ [CHR 10])) s)"
  have l: "\<exists>past. io_log ?s = Out8 (base dev + 7) READ_SECTS_CMD # past" by (simp add: issue28_eq issue_events_def)
  have "drive_settles n (base dev) (hw ?s)" using assms by (simp add: issue28_eq)
  then obtain v waits u where u: "poll_status (base dev) ?s = Some (v, u)" "length waits \<le> n" "\<forall>w \<in> set waits. busy w"
    "io_log u = polled (base dev) waits v @ io_log ?s" using poll_status_settles l by blast
  have m: "mem u = mem s" using poll_status_eq(1) [OF u(1)] by (simp add: issue28_eq)
  have log: "io_log u = In8 (base dev + 7) v # map (In8 (base dev + 7)) waits @
      issue_events (base dev) (slave_bit dev) (lba + start_lba dev) c READ_SECTS_CMD @ io_log s"
    by (simp add: u(4) polled_def issue28_eq)
  have w: "\<forall>w \<in> set waits. bit w 7 \<and> \<not> bit w 0" using u(3) by (simp add: busy_bits)
  show ?thesis
  proof (cases "bit v 0")
    case True
    then have "ata_read_sects_28_pio dest c dev lba s = kpanic ''Status = 0x01'' u"
      using u(1) by (simp add: ata_read_sects_28_pio_def Let_def error_bit)
    then obtain t where "ata_read_sects_28_pio dest c dev lba s = Panicked ''Status = 0x01'' t" "io_log t = io_log u" "mem t = mem u"
      by (simp add: kpanic_def Let_def)
    with True u(2) w log m show ?thesis by (intro exI [of _ t] exI [of _ v] exI [of _ waits]) simp
  next
    case False
    then have "ata_read_sects_28_pio dest c dev lba s = Done () (receive_words (base dev) dest (words_of c) u)"
      using u(1) by (simp add: ata_read_sects_28_pio_def Let_def error_bit)
    with receive_words_eq [of "words_of c" "base dev" dest u] obtain t ws where
      "ata_read_sects_28_pio dest c dev lba s = Done () t" "length ws = words_of c" "io_log t = rev (map (In16 (base dev)) ws) @ io_log u"
      "mem t = store_bytes (mem u) dest (concat (map word_bytes ws))" by blast
    with False u(2) w log m show ?thesis by (intro exI [of _ t] exI [of _ v] exI [of _ waits]) (auto simp: Let_def)
  qed
qed

text \<open>The cache flush panics on a healthy drive: when the status read after the flush command
  is 0x50 (ready, seek complete, no error), \<^verbatim>\<open>ata_flush_cache\<close> ends in a kernel panic.\<close>

theorem ata_flush_panics_on_ready:
  assumes "hw s ([Out8 (base dev + 7) CACHE_FLUSH,
      Out8 (base dev + 6) (MASTER_DRIVE OR push_bit 4 (slave_bit dev))] @ io_log s) (base dev + 7) = 0x50"
  shows "\<exists>t. ata_flush_cache dev s = Panicked ''ERROR'' t"
proof -
  have st: "(0x50 :: u8) AND 0x80 = 0" "(0x50 :: u8) AND 0x50 = 0x50" "(0x50 :: u8) AND 1 = 0" by simp_all
  show ?thesis
    using assms st
    by (simp add: ata_flush_cache_def outb_def inb_def reg_defs Let_def, subst while_option_unfold)
      (simp add: busy_def kpanic_def Let_def)
qed

lemma unat_u16_less: "unat (i :: u16) < 65536"
  using unsigned_less [of i, where 'a = nat] by simp

lemma send_words16_never:
  assumes "65536 \<le> bound"
  shows "send_words16 b src bound i s = None"
proof (rule ccontr)
  assume "send_words16 b src bound i s \<noteq> None"
  then obtain t where t: "send_words16 b src bound i s = Some t" by blast
  have "\<not> 65536 \<le> bound"
  proof (rule send_words16.raw_induct [OF _ t])
    fix f b src bound and i :: u16 and s t :: "'a machine_scheme"
    assume IH: "\<And>b src bound (i :: u16) (s :: 'a machine_scheme) t. f b src bound i s = Some t \<Longrightarrow> \<not> 65536 \<le> bound"
      and eq: "(if unat i < bound then f b src bound (i + 1) (outw b (rd16 (mem s) (src + 2 * ucast i)) s)
        else Some s) = Some t"
    show "\<not> 65536 \<le> bound"
      using IH eq unat_u16_less [of i] by (cases "unat i < bound") auto
  qed
  with assms show False by blast
qed

text \<open>\<^verbatim>\<open>ata_write_28_pio\<close> never returns when asked for 256 sectors (count 0): its 16-bit loop
  counter cannot reach the bound of 65536 words.\<close>

theorem ata_write_28_pio_hangs: "ata_write_28_pio src 0 dev lba s = Diverged"
  by (simp add: ata_write_28_pio_def words_of_def send_words16_never Let_def)

section \<open>The partition table\<close>

lemma mbr_words_eq:
  "i + n \<le> 256 \<Longrightarrow> \<exists>ws. length ws = n \<and>
     io_log (snd (mbr_words i n dev s)) = rev (map (In16 (base dev)) ws) @ io_log s \<and>
     mem (snd (mbr_words i n dev s)) = mem s \<and>
     fst (mbr_words i n dev s) = (if i \<le> 227 \<and> 227 < i + n then dev\<lparr>start_lba := ucast (ws ! (227 - i))\<rparr> else dev)"
proof (induction n arbitrary: i dev s)
  case 0
  then show ?case by (intro exI [of _ "[]"]) auto
next
  case (Suc n)
  define w where "w = fst (inw (base dev) s)"
  define t where "t = tty_update (terminal_printhex16 w) (snd (inw (base dev) s))"
  define d where "d = (if i = 227 then dev\<lparr>start_lba := ucast w\<rparr> else dev)"
  have step: "mbr_words i (Suc n) dev s = mbr_words (i + 1) n d t"
    by (simp add: Let_def split_beta t_def w_def d_def)
  have t: "io_log t = In16 (base dev) w # io_log s" "mem t = mem s" "base d = base dev"
    by (simp_all add: t_def w_def d_def inw_def Let_def)
  obtain ws where ws: "length ws = n"
    "io_log (snd (mbr_words (i + 1) n d t)) = rev (map (In16 (base d)) ws) @ io_log t"
    "mem (snd (mbr_words (i + 1) n d t)) = mem t"
    "fst (mbr_words (i + 1) n d t) = (if i + 1 \<le> 227 \<and> 227 < i + 1 + n
       then d\<lparr>start_lba := ucast (ws ! (227 - (i + 1)))\<rparr> else d)"
    using Suc.IH [of "i + 1" d t] Suc.prems by auto
  have "i < 227 \<Longrightarrow> (w # ws) ! (227 - i) = ws ! (227 - (i + 1))" by (simp add: nth_Cons' )
  then show ?case
    unfolding step using ws t by (intro exI [of _ "w # ws"]) (auto simp: d_def)
qed

text \<open>\<^verbatim>\<open>parse_mbr\<close> reads the one sector of 256 words at the device's start block and takes the
  start of the partition from word 227 alone: only the low 16 bits of the 32-bit block number in
  the first partition entry (bytes 454 to 457) are used. Nothing else of the device and no memory
  changes.\<close>

theorem parse_mbr_start:
  assumes "parse_mbr dev s = Done dev' t"
  shows "\<exists>ws polls. length ws = 256 \<and> dev' = dev\<lparr>start_lba := ucast (ws ! 227 :: u16)\<rparr> \<and> mem t = mem s \<and>
    (\<forall>e \<in> set polls. \<exists>v. e = In8 (base dev + 7) v) \<and>
    io_log t = rev (map (In16 (base dev)) ws) @ polls @
      issue_events (base dev) (slave_bit dev) (start_lba dev) 1 READ_SECTS_CMD @ io_log s"
proof -
  let ?s = "issue28 (base dev) (slave_bit dev) (start_lba dev) 1 READ_SECTS_CMD s"
  obtain v u where u: "poll_status (base dev) ?s = Some (v, u)"
    "dev' = fst (mbr_words 0 256 dev u)" "io_log t = io_log (snd (mbr_words 0 256 dev u))"
    "mem t = mem (snd (mbr_words 0 256 dev u))"
    using assms by (auto simp: parse_mbr_def Let_def split_beta split: option.splits)
  obtain polls where polls: "io_log u = polls @ io_log ?s" "\<forall>e \<in> set polls. \<exists>v. e = In8 (base dev + 7) v"
    using poll_status_eq(5) [OF u(1)] by blast
  have m: "mem u = mem s" using poll_status_eq(1) [OF u(1)] by (simp add: issue28_eq)
  obtain ws where "length ws = 256" "io_log t = rev (map (In16 (base dev)) ws) @ io_log u" "mem t = mem u"
    "dev' = dev\<lparr>start_lba := ucast (ws ! 227)\<rparr>"
    using mbr_words_eq [of 0 256 dev u] u(2-4) by auto
  with polls m show ?thesis by (intro exI [of _ ws] exI [of _ polls]) (simp add: issue28_eq)
qed

section \<open>Witnesses\<close>

text \<open>A primary master drive, and a controller whose every port read returns 0x50 (ready).\<close>

definition sample_bdev :: bdev where
  "sample_bdev = \<lparr>minor = 0, start_lba = 2048, part_size = 0, slave_bit = 0, base = 0x1F0, dev_ctl = 0x3F6,
     permissions = 0, bdev_next = 0, bdev_prev = 0\<rparr>"

definition ready_drive :: heap where
  "ready_drive = sample_heap\<lparr>hw := \<lambda>_ _. 0x50\<rparr>"

lemma ready_drive_poll:
  "hw s = (\<lambda>_ _. 0x50) \<Longrightarrow> poll_status b s = Some (0x50, s\<lparr>io_log := In8 (b + 7) 0x50 # io_log s\<rparr>)"
  unfolding poll_status_def
  by (subst poll_ready) (simp_all add: inb_def busy_def reg_defs Let_def)

lemma ready_drive_hw [simp]: "hw (tty_update f ready_drive) = (\<lambda>_ _. 0x50)" "hw ready_drive = (\<lambda>_ _. 0x50)"
  by (simp_all add: ready_drive_def)

lemmas status_ready = ready_drive_poll [where s = "s\<lparr>io_log := l\<rparr>" for s l]

theorem ata_read_stores_sectors_witness:
  "\<exists>t ws. ata_read_sects_28_pio 0xC0200000 1 sample_bdev 2 ready_drive = Done () t \<and> length ws = 256 \<and>
     mem t = store_bytes (mem ready_drive) 0xC0200000 (concat (map word_bytes ws))"
proof -
  have "\<exists>t. ata_read_sects_28_pio 0xC0200000 1 sample_bdev 2 ready_drive = Done () t"
    by (simp add: ata_read_sects_28_pio_def Let_def issue28_eq status_ready del: receive_words.simps)
  then obtain t where t: "ata_read_sects_28_pio 0xC0200000 1 sample_bdev 2 ready_drive = Done () t" by blast
  with ata_read_stores_sectors [OF t] show ?thesis by (auto simp: words_of_def)
qed

theorem ata_write_sends_sectors_witness:
  "\<exists>t. ata_write_sects_28_pio 0xC0200000 1 sample_bdev 2 ready_drive = Done () t \<and> mem t = mem ready_drive"
proof -
  have "\<exists>t. ata_write_sects_28_pio 0xC0200000 1 sample_bdev 2 ready_drive = Done () t"
    by (simp add: ata_write_sects_28_pio_def Let_def issue28_eq status_ready)
  then obtain t where t: "ata_write_sects_28_pio 0xC0200000 1 sample_bdev 2 ready_drive = Done () t" by blast
  with ata_write_sends_sectors [OF t] show ?thesis by blast
qed

theorem ata_read_ends_witness:
  "\<exists>t ws. ata_read_sects_28_pio 0xC0200000 1 sample_bdev 2 ready_drive = Done () t \<and> length ws = 256 \<and>
     mem t = store_bytes (mem ready_drive) 0xC0200000 (concat (map word_bytes ws))"
proof -
  have "drive_settles 0 (base sample_bdev) (hw ready_drive)" by (simp add: drive_settles_def)
  note ends = ata_read_ends [OF this, where dest = "0xC0200000" and c = 1 and lba = 2]
  have "\<exists>t. ata_read_sects_28_pio 0xC0200000 1 sample_bdev 2 ready_drive = Done () t"
    by (simp add: ata_read_sects_28_pio_def Let_def issue28_eq status_ready del: receive_words.simps)
  then obtain t where "ata_read_sects_28_pio 0xC0200000 1 sample_bdev 2 ready_drive = Done () t" by blast
  with ends show ?thesis by (auto simp: words_of_def Let_def split: if_splits)
qed

theorem ata_flush_panics_on_ready_witness:
  "\<exists>t. ata_flush_cache sample_bdev ready_drive = Panicked ''ERROR'' t"
  by (rule ata_flush_panics_on_ready) simp

theorem parse_mbr_start_witness:
  "\<exists>dev t ws. parse_mbr sample_bdev ready_drive = Done dev t \<and> length ws = 256 \<and>
     dev = sample_bdev\<lparr>start_lba := ucast (ws ! 227 :: u16)\<rparr>"
proof -
  have "\<exists>dev t. parse_mbr sample_bdev ready_drive = Done dev t"
    by (simp add: parse_mbr_def Let_def issue28_eq status_ready split_beta del: mbr_words.simps)
  then obtain dev t where t: "parse_mbr sample_bdev ready_drive = Done dev t" by blast
  with parse_mbr_start [OF t] show ?thesis by auto
qed

end
