(* ===== verification/Buffer.thy ===== *)
theory Buffer
  imports Task Ata
begin

unbundle bit_operations_syntax

text \<open>
  The table of block devices (\<^verbatim>\<open>find_bdev\<close> and \<^verbatim>\<open>add_bdev\<close> of \<^verbatim>\<open>src/fs/devfs/devfs.c\<close>) and
  the buffer cache built on it, \<^verbatim>\<open>src/fs/devfs/buffer.c\<close>. A \<^verbatim>\<open>struct buffer_head\<close> lies in byte
  memory: \<^verbatim>\<open>flags\<close> at offset 0, \<^verbatim>\<open>block_num\<close> at 4, \<^verbatim>\<open>dirty\<close> at 8, \<^verbatim>\<open>dev\<close> at 10, \<^verbatim>\<open>count\<close> at
  12, \<^verbatim>\<open>next\<close> at 16, \<^verbatim>\<open>prev\<close> at 20, \<^verbatim>\<open>next_free\<close> at 24, \<^verbatim>\<open>prev_free\<close> at 28, the 512 bytes of
  \<^verbatim>\<open>buff\<close> from 32. Block devices are records of \<open>bdev\<close> in a store indexed by their address, apart
  from byte memory: the code reaches them only as whole structures through pointers of type \<^verbatim>\<open>struct bdev\<close>, and stray writes to them are outside the model.
\<close>

section \<open>Block devices\<close>

record cache = tasking +
  bdevs :: "u32 \<Rightarrow> bdev"
  block_head :: u32
  buff_head :: "u8 \<Rightarrow> u32"
  mru_buff :: u32
  lru_buff :: u32

definition MINOR_NUMBER :: "u16 \<Rightarrow> u8" where "MINOR_NUMBER flags = ucast flags"
definition BLOCK_DEV :: u16 where "BLOCK_DEV = 3"

text \<open>\<open>None\<close>: the list of devices is cyclic and none matches; \<open>Some 0\<close>: the end was reached.\<close>

partial_function (option) find_bdev_loop :: "(u32 \<Rightarrow> bdev) \<Rightarrow> u8 \<Rightarrow> u32 \<Rightarrow> u32 option" where
  "find_bdev_loop devs n ptr =
     (if ptr = 0 then Some 0
      else if n = minor (devs ptr) then Some ptr
      else find_bdev_loop devs n (bdev_next (devs ptr)))"

text \<open>A search that reaches the end of the list leaves the function without a value to return.\<close>

definition find_bdev :: "u16 \<Rightarrow> 'a cache_scheme \<Rightarrow> ('a cache_scheme, u32) outcome" where
  "find_bdev dev s =
     (case find_bdev_loop (bdevs s) (MINOR_NUMBER dev) (block_head s) of
        None \<Rightarrow> Diverged
      | Some ptr \<Rightarrow> if ptr = 0 then Faulted s else Done ptr s)"

definition add_bdev :: "u32 \<Rightarrow> 'a cache_scheme \<Rightarrow> u16 \<times> 'a cache_scheme" where
  "add_bdev dev s = (push_bit 8 BLOCK_DEV OR 0, s\<lparr>block_head := dev\<rparr>)"

section \<open>Buffer heads\<close>

definition bh_flags :: "memory \<Rightarrow> u32 \<Rightarrow> u8" where "bh_flags m b = m b"
definition bh_block_num :: "memory \<Rightarrow> u32 \<Rightarrow> u32" where "bh_block_num m b = rd32 m (b + 4)"
definition bh_dirty :: "memory \<Rightarrow> u32 \<Rightarrow> u8" where "bh_dirty m b = m (b + 8)"
definition bh_dev :: "memory \<Rightarrow> u32 \<Rightarrow> u16" where "bh_dev m b = rd16 m (b + 10)"
definition bh_count :: "memory \<Rightarrow> u32 \<Rightarrow> u32" where "bh_count m b = rd32 m (b + 12)"
definition bh_next :: "memory \<Rightarrow> u32 \<Rightarrow> u32" where "bh_next m b = rd32 m (b + 16)"
definition bh_prev :: "memory \<Rightarrow> u32 \<Rightarrow> u32" where "bh_prev m b = rd32 m (b + 20)"
definition bh_next_free :: "memory \<Rightarrow> u32 \<Rightarrow> u32" where "bh_next_free m b = rd32 m (b + 24)"
definition bh_prev_free :: "memory \<Rightarrow> u32 \<Rightarrow> u32" where "bh_prev_free m b = rd32 m (b + 28)"
definition bh_buff :: "u32 \<Rightarrow> u32" where "bh_buff b = b + 32"

definition set_block_num :: "u32 \<Rightarrow> u32 \<Rightarrow> memory \<Rightarrow> memory" where "set_block_num b v m = wr32 m (b + 4) v"
definition set_dirty :: "u32 \<Rightarrow> u8 \<Rightarrow> memory \<Rightarrow> memory" where "set_dirty b v m = m(b + 8 := v)"
definition set_dev :: "u32 \<Rightarrow> u16 \<Rightarrow> memory \<Rightarrow> memory" where "set_dev b v m = wr16 m (b + 10) v"
definition set_count :: "u32 \<Rightarrow> u32 \<Rightarrow> memory \<Rightarrow> memory" where "set_count b v m = wr32 m (b + 12) v"
definition set_bh_next :: "u32 \<Rightarrow> u32 \<Rightarrow> memory \<Rightarrow> memory" where "set_bh_next b v m = wr32 m (b + 16) v"
definition set_bh_prev :: "u32 \<Rightarrow> u32 \<Rightarrow> memory \<Rightarrow> memory" where "set_bh_prev b v m = wr32 m (b + 20) v"
definition set_next_free :: "u32 \<Rightarrow> u32 \<Rightarrow> memory \<Rightarrow> memory" where "set_next_free b v m = wr32 m (b + 24) v"
definition set_prev_free :: "u32 \<Rightarrow> u32 \<Rightarrow> memory \<Rightarrow> memory" where "set_prev_free b v m = wr32 m (b + 28) v"

lemmas bh_get_defs = bh_flags_def bh_block_num_def bh_dirty_def bh_dev_def bh_count_def bh_next_def bh_prev_def
  bh_next_free_def bh_prev_free_def
lemmas bh_set_defs = set_block_num_def set_dirty_def set_dev_def set_count_def set_bh_next_def set_bh_prev_def
  set_next_free_def set_prev_free_def

definition MAX_BUFFER :: nat where "MAX_BUFFER = 100"
definition CLASS_DIR :: u8 where "CLASS_DIR = 1"

text \<open>\<^verbatim>\<open>sizeof(struct buffer_head)\<close>\<close>

definition BUFFER_HEAD_SIZE :: u32 where "BUFFER_HEAD_SIZE = 544"

section \<open>Operations\<close>

text \<open>The loop of \<^verbatim>\<open>init_buffer\<close>; its result is the last buffer.\<close>

fun init_chain :: "nat \<Rightarrow> u32 \<Rightarrow> 'a cache_scheme \<Rightarrow> ('a cache_scheme, u32) outcome" where
  "init_chain 0 current_buff s = Done current_buff s"
| "init_chain (Suc n) current_buff s =
     obind (kmalloc BUFFER_HEAD_SIZE s) (\<lambda>p s.
       let m = set_bh_next current_buff p (mem s);
           m = set_next_free current_buff (bh_next m current_buff) m;
           m = set_bh_prev (bh_next m current_buff) current_buff m;
           m = set_prev_free (bh_next m current_buff) current_buff m
       in init_chain n (bh_next m current_buff) (s\<lparr>mem := m\<rparr>))"

definition init_buffer :: "'a cache_scheme \<Rightarrow> ('a cache_scheme, unit) outcome" where
  "init_buffer s =
     (let s = s\<lparr>buff_head := (\<lambda>i. if 1 \<le> i then 0 else buff_head s i)\<rparr>
      in obind (kmalloc BUFFER_HEAD_SIZE s) (\<lambda>p s.
           let s = s\<lparr>buff_head := (buff_head s)(0 := p)\<rparr>;
               m = set_bh_prev (buff_head s 0) 0 (mem s);
               m = set_prev_free (buff_head s 0) 0 m;
               s = s\<lparr>mem := m, lru_buff := buff_head s 0\<rparr>
           in obind (init_chain (MAX_BUFFER - 1) (buff_head s 0) s) (\<lambda>last s.
                Done () (s\<lparr>mru_buff := last\<rparr>))))"

text \<open>The lookup loop of \<^verbatim>\<open>get_block\<close> along a hash chain; \<open>None\<close> on a cyclic chain with no match.\<close>

partial_function (option) find_buffer :: "memory \<Rightarrow> u32 \<Rightarrow> u16 \<Rightarrow> u32 \<Rightarrow> u32 option" where
  "find_buffer m block dev head =
     (if head = 0 then Some 0
      else if bh_block_num m head = block \<and> bh_dev m head = dev then Some head
      else find_buffer m block dev (bh_next m head))"

definition unlink_free :: "u32 \<Rightarrow> memory \<Rightarrow> memory" where
  "unlink_free b m =
     (let m = (if bh_prev_free m b \<noteq> 0 then set_next_free (bh_prev_free m b) (bh_next_free m b) m else m);
          m = (if bh_next_free m b \<noteq> 0 then set_prev_free (bh_next_free m b) (bh_prev_free m b) m else m);
          m = set_next_free b 0 m
      in set_prev_free b 0 m)"

text \<open>Writing a dirty buffer to its block.\<close>

definition write_back :: "u32 \<Rightarrow> u16 \<Rightarrow> u32 \<Rightarrow> 'a cache_scheme \<Rightarrow> ('a cache_scheme, unit) outcome" where
  "write_back b dev block s =
     (if bh_dirty (mem s) b = 1
      then obind (find_bdev dev s) (\<lambda>p s.
           obind (ata_write_sects_28_pio (bh_buff b) 1 (bdevs s p) block s) (\<lambda>_ s.
             Done () (s\<lparr>mem := set_dirty b 0 (mem s)\<rparr>)))
      else Done () s)"

definition get_hit :: "u32 \<Rightarrow> u32 \<Rightarrow> u16 \<Rightarrow> 'a cache_scheme \<Rightarrow> ('a cache_scheme, u32) outcome" where
  "get_hit b block dev s =
     (let s = tty_update (terminal_printhex32 block) s
      in obind (if bh_count (mem s) b = 0 then write_back b dev block (s\<lparr>mem := unlink_free b (mem s)\<rparr>)
                else Done () s) (\<lambda>_ s.
           Done b (s\<lparr>mem := set_count b (bh_count (mem s) b + 1) (mem s)\<rparr>)))"

definition get_miss :: "u32 \<Rightarrow> u16 \<Rightarrow> 'a cache_scheme \<Rightarrow> ('a cache_scheme, u32) outcome" where
  "get_miss block dev s =
     (let new_head = lru_buff s
      in if new_head = 0 then Faulted s
         else let s = s\<lparr>lru_buff := bh_next_free (mem s) new_head\<rparr>;
                  s = (if lru_buff s \<noteq> 0 then s\<lparr>mem := set_prev_free (lru_buff s) 0 (mem s)\<rparr> else s)
              in obind (write_back new_head (bh_dev (mem s) new_head) (bh_block_num (mem s) new_head) s) (\<lambda>_ s.
                 let m = set_count new_head (bh_count (mem s) new_head + 1) (mem s);
                     m = set_block_num new_head block m;
                     m = set_dev new_head dev m
                 in obind (find_bdev dev (s\<lparr>mem := m\<rparr>)) (\<lambda>p s.
                    obind (ata_read_sects_28_pio (bh_buff new_head) 1 (bdevs s p) block s) (\<lambda>_ s.
                      let m = set_bh_next new_head (buff_head s (ucast block)) (mem s);
                          m = (if bh_next m new_head \<noteq> 0 then set_bh_prev (bh_next m new_head) new_head m else m);
                          s = s\<lparr>buff_head := (buff_head s)(ucast block := new_head)\<rparr>;
                          m = set_next_free new_head 0 m;
                          m = set_prev_free new_head 0 m;
                          m = set_bh_prev new_head 0 m
                      in Done new_head (s\<lparr>mem := m\<rparr>)))))"

definition get_block :: "u32 \<Rightarrow> u16 \<Rightarrow> 'a cache_scheme \<Rightarrow> ('a cache_scheme, u32) outcome" where
  "get_block block dev s =
     (case find_buffer (mem s) block dev (buff_head s (ucast block)) of
        None \<Rightarrow> Diverged
      | Some b \<Rightarrow> if b \<noteq> 0 then get_hit b block dev s else get_miss block dev s)"

definition put_block :: "u32 \<Rightarrow> 'a cache_scheme \<Rightarrow> ('a cache_scheme, unit) outcome" where
  "put_block block s =
     (if bh_count (mem s) block > 1
      then Done () (s\<lparr>mem := set_count block (bh_count (mem s) block - 1) (mem s)\<rparr>)
      else if bh_flags (mem s) block = CLASS_DIR
      then if mru_buff s = 0 then Faulted s
           else let m = set_next_free (mru_buff s) block (mem s);
                    m = set_prev_free block (mru_buff s) m
                in Done () (s\<lparr>mem := m, mru_buff := block\<rparr>)
      else if lru_buff s = 0 then Faulted s
           else let m = set_prev_free (lru_buff s) block (mem s);
                    m = set_next_free block (lru_buff s) m
                in Done () (s\<lparr>mem := m, lru_buff := block\<rparr>))"

section \<open>Fields under writes\<close>

lemma rd16_bytes: "(ucast (ucast v :: u8) :: u16) OR push_bit 8 (ucast (ucast (drop_bit 8 v) :: u8)) = v"
proof (rule bit_word_eqI)
  fix n :: nat
  assume n: "n < LENGTH(16)"
  have "\<not> n < 8 \<Longrightarrow> 8 + (n - 8) = n" by simp
  with n show "bit ((ucast (ucast v :: u8) :: u16) OR push_bit 8 (ucast (ucast (drop_bit 8 v) :: u8))) n = bit v n"
    by (cases "n < 8") (auto simp: bit_simps)
qed

lemma rd16_wr16_same [simp]: "rd16 (wr16 m a v) a = v"
  unfolding rd16_def wr16_def using rd16_bytes [of v] by simp

text \<open>Writes to a head and reads of the same head.\<close>

lemma bh_self [simp]:
  "bh_block_num (set_block_num b v m) b = v" "bh_dirty (set_dirty b d m) b = d" "bh_dev (set_dev b e m) b = e"
  "bh_count (set_count b v m) b = v" "bh_next (set_bh_next b v m) b = v" "bh_prev (set_bh_prev b v m) b = v"
  "bh_next_free (set_next_free b v m) b = v" "bh_prev_free (set_prev_free b v m) b = v"
  by (simp_all add: bh_get_defs bh_set_defs)

lemmas byte_defs = rd32_def rd16_def wr32_def wr16_def

lemma bh_same32 [simp]:
  "bh_flags (set_block_num b v m) b = bh_flags m b" "bh_dirty (set_block_num b v m) b = bh_dirty m b"
  "bh_dev (set_block_num b v m) b = bh_dev m b" "bh_count (set_block_num b v m) b = bh_count m b"
  "bh_next (set_block_num b v m) b = bh_next m b" "bh_prev (set_block_num b v m) b = bh_prev m b"
  "bh_next_free (set_block_num b v m) b = bh_next_free m b" "bh_prev_free (set_block_num b v m) b = bh_prev_free m b"
  "bh_flags (set_count b v m) b = bh_flags m b" "bh_dirty (set_count b v m) b = bh_dirty m b"
  "bh_dev (set_count b v m) b = bh_dev m b" "bh_block_num (set_count b v m) b = bh_block_num m b"
  "bh_next (set_count b v m) b = bh_next m b" "bh_prev (set_count b v m) b = bh_prev m b"
  "bh_next_free (set_count b v m) b = bh_next_free m b" "bh_prev_free (set_count b v m) b = bh_prev_free m b"
  by (simp_all add: bh_get_defs bh_set_defs byte_defs)

lemma bh_same_links [simp]:
  "bh_flags (set_bh_next b v m) b = bh_flags m b" "bh_dirty (set_bh_next b v m) b = bh_dirty m b"
  "bh_dev (set_bh_next b v m) b = bh_dev m b" "bh_count (set_bh_next b v m) b = bh_count m b"
  "bh_block_num (set_bh_next b v m) b = bh_block_num m b" "bh_prev (set_bh_next b v m) b = bh_prev m b"
  "bh_next_free (set_bh_next b v m) b = bh_next_free m b" "bh_prev_free (set_bh_next b v m) b = bh_prev_free m b"
  "bh_flags (set_bh_prev b v m) b = bh_flags m b" "bh_dirty (set_bh_prev b v m) b = bh_dirty m b"
  "bh_dev (set_bh_prev b v m) b = bh_dev m b" "bh_count (set_bh_prev b v m) b = bh_count m b"
  "bh_block_num (set_bh_prev b v m) b = bh_block_num m b" "bh_next (set_bh_prev b v m) b = bh_next m b"
  "bh_next_free (set_bh_prev b v m) b = bh_next_free m b" "bh_prev_free (set_bh_prev b v m) b = bh_prev_free m b"
  by (simp_all add: bh_get_defs bh_set_defs byte_defs)

lemma bh_same_free [simp]:
  "bh_flags (set_next_free b v m) b = bh_flags m b" "bh_dirty (set_next_free b v m) b = bh_dirty m b"
  "bh_dev (set_next_free b v m) b = bh_dev m b" "bh_count (set_next_free b v m) b = bh_count m b"
  "bh_block_num (set_next_free b v m) b = bh_block_num m b" "bh_prev (set_next_free b v m) b = bh_prev m b"
  "bh_next (set_next_free b v m) b = bh_next m b" "bh_prev_free (set_next_free b v m) b = bh_prev_free m b"
  "bh_flags (set_prev_free b v m) b = bh_flags m b" "bh_dirty (set_prev_free b v m) b = bh_dirty m b"
  "bh_dev (set_prev_free b v m) b = bh_dev m b" "bh_count (set_prev_free b v m) b = bh_count m b"
  "bh_block_num (set_prev_free b v m) b = bh_block_num m b" "bh_next (set_prev_free b v m) b = bh_next m b"
  "bh_next_free (set_prev_free b v m) b = bh_next_free m b" "bh_prev (set_prev_free b v m) b = bh_prev m b"
  by (simp_all add: bh_get_defs bh_set_defs byte_defs)

lemma bh_same_small [simp]:
  "bh_flags (set_dirty b v m) b = bh_flags m b" "bh_block_num (set_dirty b v m) b = bh_block_num m b"
  "bh_dev (set_dirty b v m) b = bh_dev m b" "bh_count (set_dirty b v m) b = bh_count m b"
  "bh_next (set_dirty b v m) b = bh_next m b" "bh_prev (set_dirty b v m) b = bh_prev m b"
  "bh_next_free (set_dirty b v m) b = bh_next_free m b" "bh_prev_free (set_dirty b v m) b = bh_prev_free m b"
  "bh_flags (set_dev b e m) b = bh_flags m b" "bh_block_num (set_dev b e m) b = bh_block_num m b"
  "bh_dirty (set_dev b e m) b = bh_dirty m b" "bh_count (set_dev b e m) b = bh_count m b"
  "bh_next (set_dev b e m) b = bh_next m b" "bh_prev (set_dev b e m) b = bh_prev m b"
  "bh_next_free (set_dev b e m) b = bh_next_free m b" "bh_prev_free (set_dev b e m) b = bh_prev_free m b"
  by (simp_all add: bh_get_defs bh_set_defs byte_defs)

text \<open>Writes to a head change only its 32 bytes; a head is determined by its 32 bytes.\<close>

lemma bh_set_outside:
  assumes "32 \<le> x - b"
  shows "set_block_num b v m x = m x" "set_dirty b d m x = m x" "set_dev b e m x = m x" "set_count b v m x = m x"
    "set_bh_next b v m x = m x" "set_bh_prev b v m x = m x" "set_next_free b v m x = m x" "set_prev_free b v m x = m x"
proof -
  have *: "x \<noteq> b + of_nat k" if "k < 32" for k
    using assms that by (auto simp: word_le_nat_alt unat_of_nat)
  have "x \<noteq> b + 4" "x \<noteq> b + 5" "x \<noteq> b + 6" "x \<noteq> b + 7" "x \<noteq> b + 8" "x \<noteq> b + 10" "x \<noteq> b + 11"
    "x \<noteq> b + 12" "x \<noteq> b + 13" "x \<noteq> b + 14" "x \<noteq> b + 15" "x \<noteq> b + 16" "x \<noteq> b + 17" "x \<noteq> b + 18" "x \<noteq> b + 19"
    "x \<noteq> b + 20" "x \<noteq> b + 21" "x \<noteq> b + 22" "x \<noteq> b + 23" "x \<noteq> b + 24" "x \<noteq> b + 25" "x \<noteq> b + 26" "x \<noteq> b + 27"
    "x \<noteq> b + 28" "x \<noteq> b + 29" "x \<noteq> b + 30" "x \<noteq> b + 31"
    using * [of 4] * [of 5] * [of 6] * [of 7] * [of 8] * [of 10] * [of 11] * [of 12] * [of 13] * [of 14] * [of 15]
      * [of 16] * [of 17] * [of 18] * [of 19] * [of 20] * [of 21] * [of 22] * [of 23] * [of 24] * [of 25] * [of 26]
      * [of 27] * [of 28] * [of 29] * [of 30] * [of 31] by simp_all
  then show "set_block_num b v m x = m x" "set_dirty b d m x = m x" "set_dev b e m x = m x" "set_count b v m x = m x"
    "set_bh_next b v m x = m x" "set_bh_prev b v m x = m x" "set_next_free b v m x = m x" "set_prev_free b v m x = m x"
    by (simp_all add: bh_set_defs byte_defs add.assoc)
qed

lemma bh_cong:
  assumes "\<And>k. k < 32 \<Longrightarrow> m' (b + k) = m (b + k)"
  shows "bh_flags m' b = bh_flags m b" "bh_block_num m' b = bh_block_num m b" "bh_dirty m' b = bh_dirty m b"
    "bh_dev m' b = bh_dev m b" "bh_count m' b = bh_count m b" "bh_next m' b = bh_next m b" "bh_prev m' b = bh_prev m b"
    "bh_next_free m' b = bh_next_free m b" "bh_prev_free m' b = bh_prev_free m b"
  using assms [of 0] assms [of 4] assms [of 5] assms [of 6] assms [of 7] assms [of 8] assms [of 10] assms [of 11]
    assms [of 12] assms [of 13] assms [of 14] assms [of 15] assms [of 16] assms [of 17] assms [of 18] assms [of 19]
    assms [of 20] assms [of 21] assms [of 22] assms [of 23] assms [of 24] assms [of 25] assms [of 26] assms [of 27]
    assms [of 28] assms [of 29] assms [of 30] assms [of 31]
  by (simp_all add: bh_get_defs byte_defs add.assoc)

section \<open>The pool of buffers\<close>

text \<open>
  The fields of a head as a value, and a pool \<open>P\<close> of pairwise disjoint buffers: a write to one
  head leaves the heads of the others unchanged.
\<close>

record head =
  h_flags :: u8
  h_block_num :: u32
  h_dirty :: u8
  h_dev :: u16
  h_count :: u32
  h_next :: u32
  h_prev :: u32
  h_next_free :: u32
  h_prev_free :: u32

definition head :: "memory \<Rightarrow> u32 \<Rightarrow> head" where
  "head m b = \<lparr>h_flags = bh_flags m b, h_block_num = bh_block_num m b, h_dirty = bh_dirty m b, h_dev = bh_dev m b,
     h_count = bh_count m b, h_next = bh_next m b, h_prev = bh_prev m b, h_next_free = bh_next_free m b,
     h_prev_free = bh_prev_free m b\<rparr>"

lemma bh_head:
  "bh_flags m b = h_flags (head m b)" "bh_block_num m b = h_block_num (head m b)" "bh_dirty m b = h_dirty (head m b)"
  "bh_dev m b = h_dev (head m b)" "bh_count m b = h_count (head m b)" "bh_next m b = h_next (head m b)"
  "bh_prev m b = h_prev (head m b)" "bh_next_free m b = h_next_free (head m b)"
  "bh_prev_free m b = h_prev_free (head m b)"
  by (simp_all add: head_def)

definition pool_ok :: "u32 set \<Rightarrow> bool" where
  "pool_ok P \<longleftrightarrow> 0 \<notin> P \<and> (\<forall>b \<in> P. \<forall>c \<in> P. b \<noteq> c \<longrightarrow> apart 544 b c)"

lemma apart_offset:
  assumes "apart n b c" and "k < n"
  shows "n \<le> c + k - b"
proof -
  have "n \<le> b - c" "n \<le> c - b" using assms(1) by (simp_all add: apart_def)
  then show ?thesis using assms(2) by uint_arith
qed

lemma head_cong: "(\<And>k. k < 32 \<Longrightarrow> m' (b + k) = m (b + k)) \<Longrightarrow> head m' b = head m b"
  by (simp add: head_def bh_cong [of m' b m])

lemma head_other:
  assumes P: "pool_ok P" "b \<in> P" "c \<in> P" "c \<noteq> b"
  shows "head (set_block_num b v m) c = head m c" "head (set_dirty b d m) c = head m c"
    "head (set_dev b e m) c = head m c" "head (set_count b v m) c = head m c"
    "head (set_bh_next b v m) c = head m c" "head (set_bh_prev b v m) c = head m c"
    "head (set_next_free b v m) c = head m c" "head (set_prev_free b v m) c = head m c"
proof -
  have "apart 544 b c" using P by (auto simp: pool_ok_def)
  then have far: "32 \<le> c + k - b" if "k < 32" for k
  proof -
    have "k < 544" using that by (rule less_trans) simp
    with \<open>apart 544 b c\<close> have "544 \<le> c + k - b" by (rule apart_offset)
    then show ?thesis by (rule order_trans [rotated]) simp
  qed
  show "head (set_block_num b v m) c = head m c" "head (set_dirty b d m) c = head m c"
    "head (set_dev b e m) c = head m c" "head (set_count b v m) c = head m c"
    "head (set_bh_next b v m) c = head m c" "head (set_bh_prev b v m) c = head m c"
    "head (set_next_free b v m) c = head m c" "head (set_prev_free b v m) c = head m c"
    by (rule head_cong, simp add: bh_set_outside far)+
qed

lemma head_set:
  assumes "pool_ok P" and "b \<in> P" and "c \<in> P"
  shows "head (set_block_num b v m) c = (if c = b then (head m c)\<lparr>h_block_num := v\<rparr> else head m c)"
    "head (set_dirty b d m) c = (if c = b then (head m c)\<lparr>h_dirty := d\<rparr> else head m c)"
    "head (set_dev b e m) c = (if c = b then (head m c)\<lparr>h_dev := e\<rparr> else head m c)"
    "head (set_count b v m) c = (if c = b then (head m c)\<lparr>h_count := v\<rparr> else head m c)"
    "head (set_bh_next b v m) c = (if c = b then (head m c)\<lparr>h_next := v\<rparr> else head m c)"
    "head (set_bh_prev b v m) c = (if c = b then (head m c)\<lparr>h_prev := v\<rparr> else head m c)"
    "head (set_next_free b v m) c = (if c = b then (head m c)\<lparr>h_next_free := v\<rparr> else head m c)"
    "head (set_prev_free b v m) c = (if c = b then (head m c)\<lparr>h_prev_free := v\<rparr> else head m c)"
  using head_other [OF assms] by (auto simp: head_def)

text \<open>The links of the pool and of the anchors stay inside the pool.\<close>

definition links_ok :: "u32 set \<Rightarrow> memory \<Rightarrow> bool" where
  "links_ok P m \<longleftrightarrow> (\<forall>b \<in> P. {h_next (head m b), h_prev (head m b), h_next_free (head m b), h_prev_free (head m b)}
     \<subseteq> insert 0 P)"

definition cache_inv :: "u32 set \<Rightarrow> 'a cache_scheme \<Rightarrow> bool" where
  "cache_inv P s \<longleftrightarrow> pool_ok P \<and> links_ok P (mem s) \<and> lru_buff s \<in> insert 0 P \<and> mru_buff s \<in> insert 0 P \<and>
     (\<forall>i. buff_head s i \<in> insert 0 P)"

text \<open>Only heads of the pool, respectively only buffers of the pool, differ.\<close>

definition heads_only :: "u32 set \<Rightarrow> memory \<Rightarrow> memory \<Rightarrow> bool" where
  "heads_only P m m' \<longleftrightarrow> (\<forall>x. (\<forall>b \<in> P. 32 \<le> x - b) \<longrightarrow> m' x = m x)"

definition pool_only :: "u32 set \<Rightarrow> memory \<Rightarrow> memory \<Rightarrow> bool" where
  "pool_only P m m' \<longleftrightarrow> (\<forall>x. (\<forall>b \<in> P. 544 \<le> x - b) \<longrightarrow> m' x = m x)"

lemma heads_only_refl [simp]: "heads_only P m m"
  by (simp add: heads_only_def)

lemma heads_only_trans [trans]: "heads_only P m m' \<Longrightarrow> heads_only P m' m'' \<Longrightarrow> heads_only P m m''"
  by (simp add: heads_only_def)

lemma pool_only_refl [simp]: "pool_only P m m"
  by (simp add: pool_only_def)

lemma pool_only_trans [trans]: "pool_only P m m' \<Longrightarrow> pool_only P m' m'' \<Longrightarrow> pool_only P m m''"
  by (simp add: pool_only_def)

lemma heads_only_pool: "heads_only P m m' \<Longrightarrow> pool_only P m m'"
proof -
  have "544 \<le> y \<Longrightarrow> 32 \<le> y" for y :: u32 by (rule order_trans [of _ 544]) simp_all
  then show "heads_only P m m' \<Longrightarrow> pool_only P m m'" by (auto simp: heads_only_def pool_only_def)
qed

lemma heads_only_set [intro]:
  assumes "b \<in> P"
  shows "heads_only P m (set_block_num b v m)" "heads_only P m (set_dirty b d m)" "heads_only P m (set_dev b e m)"
    "heads_only P m (set_count b v m)" "heads_only P m (set_bh_next b v m)" "heads_only P m (set_bh_prev b v m)"
    "heads_only P m (set_next_free b v m)" "heads_only P m (set_prev_free b v m)"
  using assms by (auto simp: heads_only_def bh_set_outside)

section \<open>The driver under the cache\<close>

lemma more_cache:
  fixes s t :: "'a cache_scheme"
  assumes "console.more t = console.more s"
  shows "lru_buff t = lru_buff s" "mru_buff t = mru_buff s" "buff_head t = buff_head s" "bdevs t = bdevs s"
    "block_head t = block_head s" "cache.more t = cache.more s"
  using assms by (cases s; cases t; simp)+

definition bdev_of :: "'a cache_scheme \<Rightarrow> u16 \<Rightarrow> u32 option" where
  "bdev_of s dev = find_bdev_loop (bdevs s) (MINOR_NUMBER dev) (block_head s)"

lemma find_bdev_Done: "find_bdev dev s = Done p t \<longleftrightarrow> t = s \<and> bdev_of s dev = Some p \<and> p \<noteq> 0"
  by (auto simp: find_bdev_def bdev_of_def split: option.splits)

lemma bdev_of_upd [simp]: "bdev_of (mem_update f s) dev = bdev_of s dev" "bdev_of (tty_update g s) dev = bdev_of s dev"
  "bdev_of (lru_buff_update h s) dev = bdev_of s dev" "bdev_of (io_log_update k s) dev = bdev_of s dev"
  by (simp_all add: bdev_of_def)

lemma bdev_of_more: "console.more t = console.more s \<Longrightarrow> bdev_of t dev = bdev_of s dev"
  using more_cache(4,5) [of t s] by (simp add: bdev_of_def)

text \<open>The port events of a sector write: the words last, then the polls, then the command.\<close>

definition wrote_sector :: "bdev \<Rightarrow> u32 \<Rightarrow> u16 list \<Rightarrow> io_event list \<Rightarrow> bool" where
  "wrote_sector d block ws l \<longleftrightarrow> length ws = 256 \<and> (\<exists>polls. (\<forall>e \<in> set polls. \<exists>v. e = In8 (base d + 7) v) \<and>
     l = rev (map (Out16 (base d)) ws) @ polls @
       issue_events (base d) (slave_bit d) (block + start_lba d) 1 WRITE_SECTS_CMD)"

definition read_sector :: "bdev \<Rightarrow> u32 \<Rightarrow> u16 list \<Rightarrow> io_event list \<Rightarrow> bool" where
  "read_sector d block ws l \<longleftrightarrow> length ws = 256 \<and> (\<exists>polls. (\<forall>e \<in> set polls. \<exists>v. e = In8 (base d + 7) v) \<and>
     l = rev (map (In16 (base d)) ws) @ polls @
       issue_events (base d) (slave_bit d) (block + start_lba d) 1 READ_SECTS_CMD)"

lemma words_of_1 [simp]: "words_of 1 = 256"
  by (simp add: words_of_def)

lemma write_back_effect:
  fixes s t :: "'a cache_scheme"
  assumes "write_back b dev block s = Done () t"
  shows "mem t = (if bh_dirty (mem s) b = 1 then set_dirty b 0 (mem s) else mem s)" (is ?m)
    and "console.more t = console.more s" (is ?c) and "hw t = hw s" (is ?h)
    and "if bh_dirty (mem s) b = 1
      then \<exists>p l. bdev_of s dev = Some p \<and> io_log t = l @ io_log s \<and>
        wrote_sector (bdevs s p) block (load_words (mem s) (bh_buff b) 256) l
      else io_log t = io_log s" (is ?l)
proof -
  have "?m \<and> ?c \<and> ?h \<and> ?l"
  proof (cases "bh_dirty (mem s) b = 1")
    case True
    then obtain p u where p: "bdev_of s dev = Some p"
      and u: "ata_write_sects_28_pio (bh_buff b) 1 (bdevs s p) block s = Done () u" "t = u\<lparr>mem := set_dirty b 0 (mem u)\<rparr>"
      using assms by (auto simp: write_back_def obind_Done_iff find_bdev_Done)
    show ?thesis using ata_write_effect [OF u(1)] p u(2) True by (auto simp: wrote_sector_def)
  next
    case False
    then show ?thesis using assms by (simp add: write_back_def)
  qed
  then show ?m ?c ?h ?l by blast+
qed

lemma length_word_bytes [simp]: "length (concat (map word_bytes ws)) = 2 * length ws"
  by (induction ws) (simp_all add: word_bytes_def)

lemma store_sector:
  assumes "length bs = 512"
  shows "512 \<le> x - a \<Longrightarrow> store_bytes m a bs x = m x"
    and "k < 512 \<Longrightarrow> store_bytes m a bs (a + of_nat k) = bs ! k"
proof -
  show "512 \<le> x - a \<Longrightarrow> store_bytes m a bs x = m x"
    using assms by (simp add: store_bytes_eq word_le_nat_alt)
  show "k < 512 \<Longrightarrow> store_bytes m a bs (a + of_nat k) = bs ! k"
    using assms by (simp add: store_bytes_eq unat_of_nat)
qed

lemma head_store_sector:
  assumes "pool_ok P" and "b \<in> P" and "c \<in> P" and "length bs = 512"
  shows "head (store_bytes m (bh_buff b) bs) c = head m c"
proof (rule head_cong)
  fix k :: u32
  assume k: "k < 32"
  have "512 \<le> c + k - bh_buff b"
  proof (cases "c = b")
    case True
    have "512 \<le> k - 32" using k by (simp add: word_le_nat_alt word_less_nat_alt unat_sub_if')
    then show ?thesis by (simp add: True bh_buff_def)
  next
    case False
    then have "544 \<le> c - b" "544 \<le> b - c" using assms(1-3) by (auto simp: pool_ok_def apart_def)
    then have "512 \<le> (c - b) + k - 32" using k by uint_arith
    then show ?thesis by (simp add: bh_buff_def algebra_simps)
  qed
  then show "store_bytes m (bh_buff b) bs (c + k) = m (c + k)" by (rule store_sector(1) [OF assms(4)])
qed

text \<open>The 512 data bytes of a buffer.\<close>

definition contents :: "memory \<Rightarrow> u32 \<Rightarrow> u8 list" where
  "contents m b = load_bytes m (bh_buff b) 512"

lemma load_bytes_cong:
  "(\<And>k. k < n \<Longrightarrow> m' (a + of_nat k) = m (a + of_nat k)) \<Longrightarrow> load_bytes m' a n = load_bytes m a n"
  by (rule nth_equalityI) (simp_all add: load_bytes_nth)

lemma load_words_cong:
  "(\<And>k. k < 2 * n \<Longrightarrow> m' (a + of_nat k) = m (a + of_nat k)) \<Longrightarrow> load_words m' a n = load_words m a n"
proof (induction n arbitrary: a)
  case (Suc n)
  have "m' (a + 2 + of_nat k) = m (a + 2 + of_nat k)" if "k < 2 * n" for k
    using Suc.prems [of "k + 2"] that by (simp add: add.assoc add.left_commute)
  then have "load_words m' (a + 2) n = load_words m (a + 2) n" by (rule Suc.IH)
  moreover have "rd16 m' a = rd16 m a" using Suc.prems [of 0] Suc.prems [of 1] by (simp add: rd16_def)
  ultimately show ?case by simp
qed simp

lemma heads_only_data:
  assumes "heads_only P m m'" and "pool_ok P" and "c \<in> P" and "k < 512"
  shows "m' (bh_buff c + of_nat k) = m (bh_buff c + of_nat k)"
proof -
  have u: "unat (of_nat k :: u32) = k" using assms(4) by (simp add: unat_of_nat)
  have "32 \<le> bh_buff c + of_nat k - b" if "b \<in> P" for b
  proof (cases "b = c")
    case True
    have "32 \<le> 32 + (of_nat k :: u32)" using assms(4) u by (simp add: word_le_nat_alt unat_word_ariths)
    then show ?thesis by (simp add: True bh_buff_def)
  next
    case False
    have lt: "32 + (of_nat k :: u32) < 544" using assms(4) u by (simp add: word_less_nat_alt unat_word_ariths)
    have "544 \<le> c + (32 + of_nat k) - b"
      using False that assms(2,3) lt by (intro apart_offset) (auto simp: pool_ok_def)
    then have "32 \<le> c + (32 + of_nat k) - b" by (rule order_trans [rotated]) simp
    then show ?thesis by (simp add: bh_buff_def add.assoc)
  qed
  then show ?thesis using assms(1) by (auto simp: heads_only_def)
qed

lemma heads_only_contents:
  assumes "heads_only P m m'" and "pool_ok P" and "c \<in> P"
  shows "contents m' c = contents m c" "load_words m' (bh_buff c) 256 = load_words m (bh_buff c) 256"
  unfolding contents_def
  by (rule load_bytes_cong, rule heads_only_data [OF assms], simp)
    (rule load_words_cong, rule heads_only_data [OF assms], simp)

lemma add_far: "544 \<le> c - b \<Longrightarrow> 544 \<le> b - c \<Longrightarrow> k < 512 \<Longrightarrow> 512 \<le> c - b + (k :: u32)"
  by uint_arith

lemma contents_store:
  assumes "pool_ok P" and "b \<in> P" and "c \<in> P" and "length bs = 512"
  shows "contents (store_bytes m (bh_buff b) bs) c = (if c = b then bs else contents m c)"
proof (cases "c = b")
  case True
  have "contents (store_bytes m (bh_buff b) bs) b = bs"
    unfolding contents_def by (rule nth_equalityI) (simp_all add: assms(4) load_bytes_nth store_sector(2))
  with True show ?thesis by simp
next
  case False
  have "store_bytes m (bh_buff b) bs (bh_buff c + of_nat k) = m (bh_buff c + of_nat k)" if "k < 512" for k
  proof (rule store_sector(1) [OF assms(4)])
    have far: "544 \<le> c - b" "544 \<le> b - c" using False assms(1-3) by (auto simp: pool_ok_def apart_def)
    have "(of_nat k :: u32) < 512" using that by (simp add: word_less_nat_alt unat_of_nat)
    from add_far [OF far this] have "512 \<le> c - b + of_nat k" .
    then show "512 \<le> bh_buff c + of_nat k - bh_buff b" by (simp add: bh_buff_def algebra_simps)
  qed
  then have "load_bytes (store_bytes m (bh_buff b) bs) (bh_buff c) 512 = load_bytes m (bh_buff c) 512"
    by (rule load_bytes_cong)
  then show ?thesis using False by (simp add: contents_def)
qed

section \<open>What the operations do\<close>

lemma links_ok_set:
  assumes "pool_ok P" and "b \<in> P" and "links_ok P m"
  shows "v \<in> insert 0 P \<Longrightarrow> links_ok P (set_bh_next b v m)" "v \<in> insert 0 P \<Longrightarrow> links_ok P (set_bh_prev b v m)"
    "v \<in> insert 0 P \<Longrightarrow> links_ok P (set_next_free b v m)" "v \<in> insert 0 P \<Longrightarrow> links_ok P (set_prev_free b v m)"
    "links_ok P (set_block_num b v m)" "links_ok P (set_dirty b d m)" "links_ok P (set_dev b e m)"
    "links_ok P (set_count b v m)"
  using assms by (auto simp: links_ok_def head_set [OF assms(1,2)])

lemma links_okD:
  assumes "links_ok P m" and "b \<in> P"
  shows "h_next (head m b) \<in> insert 0 P" "h_prev (head m b) \<in> insert 0 P" "h_next_free (head m b) \<in> insert 0 P"
    "h_prev_free (head m b) \<in> insert 0 P"
  using assms by (auto simp: links_ok_def)

text \<open>The fields by which a buffer is found and counted.\<close>

definition label :: "memory \<Rightarrow> u32 \<Rightarrow> u32 \<times> u16 \<times> u32 \<times> u8" where
  "label m b = (h_block_num (head m b), h_dev (head m b), h_next (head m b), h_flags (head m b))"

text \<open>Steps on the memory that keep the links inside the pool and touch only heads, and steps that also
  leave every label alone.\<close>

definition quiet :: "u32 set \<Rightarrow> memory \<Rightarrow> memory \<Rightarrow> bool" where
  "quiet P m m' \<longleftrightarrow> links_ok P m' \<and> heads_only P m m' \<and>
     (\<forall>c \<in> P. label m' c = label m c \<and> h_count (head m' c) = h_count (head m c))"

lemma quiet_refl: "links_ok P m \<Longrightarrow> quiet P m m"
  by (simp add: quiet_def)

lemma quiet_trans [trans]: "quiet P m m' \<Longrightarrow> quiet P m' m'' \<Longrightarrow> quiet P m m''"
  by (auto simp: quiet_def intro: heads_only_trans)

lemma quiet_set:
  assumes "pool_ok P" and "b \<in> P" and "links_ok P m"
  shows "v \<in> insert 0 P \<Longrightarrow> quiet P m (set_next_free b v m)" "v \<in> insert 0 P \<Longrightarrow> quiet P m (set_prev_free b v m)"
    "v \<in> insert 0 P \<Longrightarrow> quiet P m (set_bh_prev b v m)" "quiet P m (set_dirty b d m)"
  using links_ok_set [OF assms] assms(2)
  by (auto simp: quiet_def label_def head_set [OF assms(1,2)] heads_only_set)

lemma unlink_free_quiet:
  assumes P: "pool_ok P" "b \<in> P" and "links_ok P m"
  shows "quiet P m (unlink_free b m)"
proof -
  define m1 where "m1 = (if bh_prev_free m b \<noteq> 0 then set_next_free (bh_prev_free m b) (bh_next_free m b) m else m)"
  define m2 where "m2 = (if bh_next_free m1 b \<noteq> 0 then set_prev_free (bh_next_free m1 b) (bh_prev_free m1 b) m1 else m1)"
  have "quiet P m m1"
    unfolding m1_def using assms(3) links_okD [OF assms(3) P(2)]
    by (auto simp: bh_head quiet_refl intro!: quiet_set P)
  moreover from this have m1: "links_ok P m1" by (simp add: quiet_def)
  then have "quiet P m1 m2"
    unfolding m2_def using links_okD [OF m1 P(2)] by (auto simp: bh_head quiet_refl intro!: quiet_set P)
  moreover from this have m2: "links_ok P m2" by (simp add: quiet_def)
  then have "quiet P m2 (set_next_free b 0 m2)" by (simp add: quiet_set P)
  moreover from this have "links_ok P (set_next_free b 0 m2)" by (simp add: quiet_def)
  then have "quiet P (set_next_free b 0 m2) (set_prev_free b 0 (set_next_free b 0 m2))" by (simp add: quiet_set P)
  ultimately show ?thesis
    unfolding unlink_free_def Let_def m1_def [symmetric] m2_def [symmetric] by (blast intro: quiet_trans)
qed

lemma write_back_quiet:
  fixes s t :: "'a cache_scheme"
  assumes "write_back b dev block s = Done () t" and "pool_ok P" and "b \<in> P" and "links_ok P (mem s)"
  shows "quiet P (mem s) (mem t)"
  unfolding write_back_effect(1) [OF assms(1)] using assms(2-4) by (simp add: quiet_refl quiet_set)

lemma get_hit_effect:
  fixes s t :: "'a cache_scheme"
  assumes inv: "cache_inv P s" and b: "b \<in> P" and run: "get_hit b block dev s = Done r t"
  shows "r = b \<and> cache_inv P t \<and> console.more t = console.more s \<and> hw t = hw s \<and> heads_only P (mem s) (mem t) \<and>
    (\<forall>c \<in> P. label (mem t) c = label (mem s) c) \<and>
    (\<forall>c \<in> P. h_count (head (mem t) c) = h_count (head (mem s) c) + (if c = b then 1 else 0)) \<and>
    (h_count (head (mem s) b) \<noteq> 0 \<longrightarrow> io_log t = io_log s \<and> mem t = set_count b (bh_count (mem s) b + 1) (mem s))"
proof -
  define s1 where "s1 = tty_update (terminal_printhex32 block) s"
  have s1: "mem s1 = mem s" "console.more s1 = console.more s" "hw s1 = hw s" "io_log s1 = io_log s"
    by (simp_all add: s1_def)
  have P: "pool_ok P" "links_ok P (mem s)" using inv by (simp_all add: cache_inv_def)
  let ?step = "if bh_count (mem s1) b = 0 then write_back b dev block (s1\<lparr>mem := unlink_free b (mem s1)\<rparr>) else Done () s1"
  obtain u where u: "?step = Done () u" and t: "r = b" "t = u\<lparr>mem := set_count b (bh_count (mem u) b + 1) (mem u)\<rparr>"
    using run unfolding get_hit_def Let_def s1_def [symmetric] obind_Done_iff by auto
  have q: "quiet P (mem s) (mem u) \<and> console.more u = console.more s \<and> hw u = hw s \<and>
      (bh_count (mem s) b \<noteq> 0 \<longrightarrow> u = s1)"
  proof (cases "bh_count (mem s) b = 0")
    case True
    with u s1 have w: "write_back b dev block (s1\<lparr>mem := unlink_free b (mem s1)\<rparr>) = Done () u" by simp
    have "quiet P (mem s) (unlink_free b (mem s))" by (rule unlink_free_quiet [OF P(1) b P(2)])
    moreover from this have "quiet P (unlink_free b (mem s)) (mem u)"
      using write_back_quiet [OF w P(1) b] s1 by (simp add: quiet_def)
    ultimately show ?thesis
      using write_back_effect(2,3) [OF w] s1 True by (auto intro: quiet_trans)
  next
    case False
    then show ?thesis using u s1 P(2) by (simp add: quiet_refl)
  qed
  have "cache_inv P t"
    using inv q more_cache [of t s] P b unfolding t(2) cache_inv_def by (auto simp: quiet_def links_ok_set)
  moreover have "heads_only P (mem s) (mem t)"
    using q heads_only_set(4) [OF b] unfolding t(2) quiet_def by (auto intro: heads_only_trans)
  ultimately show ?thesis
    using q s1 unfolding t(1) unfolding t(2)
    by (auto simp: quiet_def label_def head_set [OF P(1) b] bh_head)
qed

text \<open>Taking the head of the free list, and linking the loaded buffer into its hash chain.\<close>

definition take_lru :: "'a cache_scheme \<Rightarrow> 'a cache_scheme" where
  "take_lru s =
     (let s = s\<lparr>lru_buff := bh_next_free (mem s) (lru_buff s)\<rparr>
      in if lru_buff s \<noteq> 0 then s\<lparr>mem := set_prev_free (lru_buff s) 0 (mem s)\<rparr> else s)"

definition relabel :: "u32 \<Rightarrow> u32 \<Rightarrow> u16 \<Rightarrow> memory \<Rightarrow> memory" where
  "relabel b block dev m = set_dev b dev (set_block_num b block (set_count b (bh_count m b + 1) m))"

definition chain_in :: "u32 \<Rightarrow> u32 \<Rightarrow> memory \<Rightarrow> memory" where
  "chain_in b nh m =
     (let m = set_bh_next b nh m;
          m = (if nh \<noteq> 0 then set_bh_prev nh b m else m)
      in set_bh_prev b 0 (set_prev_free b 0 (set_next_free b 0 m)))"

lemma get_miss_steps:
  assumes "get_miss block dev s = Done r t"
  obtains u p v where "lru_buff s \<noteq> 0" "r = lru_buff s"
    "write_back r (bh_dev (mem (take_lru s)) r) (bh_block_num (mem (take_lru s)) r) (take_lru s) = Done () u"
    "bdev_of u dev = Some p"
    "ata_read_sects_28_pio (bh_buff r) 1 (bdevs u p) block (u\<lparr>mem := relabel r block dev (mem u)\<rparr>) = Done () v"
    "t = v\<lparr>buff_head := (buff_head v)(ucast block := r), mem := chain_in r (buff_head v (ucast block)) (mem v)\<rparr>"
proof -
  have ne: "lru_buff s \<noteq> 0" using assms by (auto simp: get_miss_def)
  have eq: "get_miss block dev s =
      obind (write_back (lru_buff s) (bh_dev (mem (take_lru s)) (lru_buff s)) (bh_block_num (mem (take_lru s)) (lru_buff s)) (take_lru s))
        (\<lambda>_ u. obind (find_bdev dev (u\<lparr>mem := relabel (lru_buff s) block dev (mem u)\<rparr>)) (\<lambda>p u.
           obind (ata_read_sects_28_pio (bh_buff (lru_buff s)) 1 (bdevs u p) block u) (\<lambda>_ v.
             Done (lru_buff s) (v\<lparr>buff_head := (buff_head v)(ucast block := lru_buff s),
               mem := chain_in (lru_buff s) (buff_head v (ucast block)) (mem v)\<rparr>))))"
    using ne by (simp add: get_miss_def take_lru_def relabel_def chain_in_def Let_def cong: if_cong)
  show ?thesis
    using assms unfolding eq by (auto simp: obind_Done_iff find_bdev_Done intro!: that [OF ne])
qed

lemma take_lru_effect:
  assumes inv: "cache_inv P s" and b: "lru_buff s \<in> P"
  shows "quiet P (mem s) (mem (take_lru s))" "lru_buff (take_lru s) = h_next_free (head (mem s) (lru_buff s))"
    "mru_buff (take_lru s) = mru_buff s" "buff_head (take_lru s) = buff_head s" "bdevs (take_lru s) = bdevs s"
    "bdev_of (take_lru s) dev = bdev_of s dev" "hw (take_lru s) = hw s" "io_log (take_lru s) = io_log s"
    "block_head (take_lru s) = block_head s" "h_dirty (head (mem (take_lru s)) (lru_buff s)) = h_dirty (head (mem s) (lru_buff s))"
proof -
  have P: "pool_ok P" "links_ok P (mem s)" using inv by (simp_all add: cache_inv_def)
  note n = links_okD(3) [OF P(2) b]
  show "quiet P (mem s) (mem (take_lru s))"
    using n by (auto simp: take_lru_def bh_head Let_def quiet_refl quiet_set P)
  show "h_dirty (head (mem (take_lru s)) (lru_buff s)) = h_dirty (head (mem s) (lru_buff s))"
    using n b by (auto simp: take_lru_def bh_head Let_def head_set [OF P(1)])
qed (simp_all add: take_lru_def bh_head Let_def)

lemma relabel_effect:
  assumes P: "pool_ok P" "b \<in> P" "links_ok P m"
  shows "links_ok P (relabel b block dev m)" "heads_only P m (relabel b block dev m)"
    "c \<in> P \<Longrightarrow> head (relabel b block dev m) c = (if c = b then (head m b)\<lparr>h_count := h_count (head m b) + 1,
       h_block_num := block, h_dev := dev\<rparr> else head m c)"
  unfolding relabel_def using P
  by (simp_all add: links_ok_set head_set [OF P(1,2)] bh_head)
    (auto simp: heads_only_def bh_set_outside)

lemma chain_in_effect:
  assumes P: "pool_ok P" "b \<in> P" "links_ok P m" and nh: "nh \<in> insert 0 P"
  shows "links_ok P (chain_in b nh m)" "heads_only P m (chain_in b nh m)"
    "head (chain_in b nh m) b = (head m b)\<lparr>h_next := nh, h_prev := 0, h_next_free := 0, h_prev_free := 0\<rparr>"
    "c \<in> P \<Longrightarrow> c \<noteq> b \<Longrightarrow> label (chain_in b nh m) c = label m c \<and> h_count (head (chain_in b nh m) c) = h_count (head m c)"
proof -
  define m1 where "m1 = (if nh \<noteq> 0 then set_bh_prev nh b (set_bh_next b nh m) else set_bh_next b nh m)"
  have e: "chain_in b nh m = set_bh_prev b 0 (set_prev_free b 0 (set_next_free b 0 m1))"
    by (simp add: chain_in_def m1_def Let_def)
  have m1: "links_ok P m1" using P nh by (auto simp: m1_def links_ok_set)
  then show "links_ok P (chain_in b nh m)" by (simp add: e P links_ok_set)
  have "heads_only P m m1"
    using P nh by (auto simp: m1_def heads_only_def bh_set_outside)
  then show "heads_only P m (chain_in b nh m)"
    using P(2) by (auto simp: e heads_only_def bh_set_outside)
  show "head (chain_in b nh m) b = (head m b)\<lparr>h_next := nh, h_prev := 0, h_next_free := 0, h_prev_free := 0\<rparr>"
    using nh P by (auto simp: e m1_def head_set [OF P(1)])
  show "c \<in> P \<Longrightarrow> c \<noteq> b \<Longrightarrow> label (chain_in b nh m) c = label m c \<and> h_count (head (chain_in b nh m) c) = h_count (head m c)"
    using nh P by (auto simp: e m1_def label_def head_set [OF P(1)])
qed

text \<open>Loading a sector into a buffer, seen on the memory alone.\<close>

definition load_buffer :: "u32 \<Rightarrow> u32 \<Rightarrow> u16 \<Rightarrow> u32 \<Rightarrow> u8 list \<Rightarrow> memory \<Rightarrow> memory" where
  "load_buffer b block dev nh bs m = chain_in b nh (store_bytes (relabel b block dev m) (bh_buff b) bs)"

lemma store_pool_only:
  assumes "b \<in> P" and "length bs = 512"
  shows "pool_only P m (store_bytes m (bh_buff b) bs)"
proof (unfold pool_only_def, intro allI impI)
  fix x assume "\<forall>b \<in> P. 544 \<le> x - b"
  then have "544 \<le> x - b" using assms(1) by blast
  then have "512 \<le> x - b - 32" by uint_arith
  then show "store_bytes m (bh_buff b) bs x = m x"
    by (intro store_sector(1) [OF assms(2)]) (simp add: bh_buff_def diff_diff_add)
qed

lemma load_buffer_effect:
  assumes P: "pool_ok P" "b \<in> P" "links_ok P m" and nh: "nh \<in> insert 0 P" and len: "length bs = 512"
  shows "links_ok P (load_buffer b block dev nh bs m)" "pool_only P m (load_buffer b block dev nh bs m)"
    "c \<in> P \<Longrightarrow> contents (load_buffer b block dev nh bs m) c = (if c = b then bs else contents m c)"
    "c \<in> P \<Longrightarrow> c \<noteq> b \<Longrightarrow> label (load_buffer b block dev nh bs m) c = label m c \<and>
       h_count (head (load_buffer b block dev nh bs m) c) = h_count (head m c)"
    "head (load_buffer b block dev nh bs m) b = (head m b)\<lparr>h_count := h_count (head m b) + 1, h_block_num := block,
       h_dev := dev, h_next := nh, h_prev := 0, h_next_free := 0, h_prev_free := 0\<rparr>"
proof -
  note re = relabel_effect [OF P, where block = block and dev = dev]
  define v where "v = store_bytes (relabel b block dev m) (bh_buff b) bs"
  have hv: "head v c = head (relabel b block dev m) c" if "c \<in> P" for c
    using head_store_sector [OF P(1,2) that len] by (simp add: v_def)
  have lv: "links_ok P v" using re(1) by (simp add: links_ok_def hv)
  note ce = chain_in_effect [OF P(1,2) lv nh]
  have e: "load_buffer b block dev nh bs m = chain_in b nh v" by (simp add: load_buffer_def v_def)
  show "links_ok P (load_buffer b block dev nh bs m)" by (simp add: e ce)
  show "pool_only P m (load_buffer b block dev nh bs m)"
    using heads_only_pool [OF re(2)] heads_only_pool [OF ce(2)] store_pool_only [OF P(2) len]
    unfolding e v_def by (blast intro: pool_only_trans)
  show "contents (load_buffer b block dev nh bs m) c = (if c = b then bs else contents m c)" if "c \<in> P"
    using heads_only_contents(1) [OF re(2) P(1) that] heads_only_contents(1) [OF ce(2) P(1) that]
      contents_store [OF P(1,2) that len] by (simp add: e v_def)
  show "label (load_buffer b block dev nh bs m) c = label m c \<and>
      h_count (head (load_buffer b block dev nh bs m) c) = h_count (head m c)" if "c \<in> P" "c \<noteq> b"
    using ce(4) [OF that] hv [OF that(1)] re(3) [OF that(1)] that by (simp add: e label_def)
  show "head (load_buffer b block dev nh bs m) b = (head m b)\<lparr>h_count := h_count (head m b) + 1, h_block_num := block,
       h_dev := dev, h_next := nh, h_prev := 0, h_next_free := 0, h_prev_free := 0\<rparr>"
    using ce(3) hv [OF P(2)] re(3) [OF P(2)] by (simp add: e)
qed

text \<open>What is left of a buffer taken from the free list once its old contents are safe.\<close>

lemma evict_effect:
  fixes s u :: "'a cache_scheme"
  assumes inv: "cache_inv P s" and r: "r = lru_buff s" "r \<in> P" and w:
    "write_back r (bh_dev (mem (take_lru s)) r) (bh_block_num (mem (take_lru s)) r) (take_lru s) = Done () u"
  obtains l where "quiet P (mem s) (mem u)" "h_dirty (head (mem u) r) \<noteq> 1" "io_log u = l @ io_log s"
    "if h_dirty (head (mem s) r) = 1
     then \<exists>q. bdev_of s (h_dev (head (mem s) r)) = Some q \<and>
       wrote_sector (bdevs s q) (h_block_num (head (mem s) r)) (load_words (mem s) (bh_buff r) 256) l
     else l = []"
    "lru_buff u = h_next_free (head (mem s) r)" "mru_buff u = mru_buff s" "buff_head u = buff_head s"
    "bdevs u = bdevs s" "block_head u = block_head s" "hw u = hw s"
proof -
  have P: "pool_ok P" using inv by (simp add: cache_inv_def)
  note tl = take_lru_effect [OF inv, folded r(1), OF r(2)]
  note we = write_back_effect [OF w]
  note um = more_cache [OF we(2)]
  have q: "quiet P (mem s) (mem u)"
    using quiet_trans [OF tl(1) write_back_quiet [OF w P r(2)]] tl(1) by (simp add: quiet_def)
  have old: "h_dev (head (mem (take_lru s)) r) = h_dev (head (mem s) r)"
    "h_block_num (head (mem (take_lru s)) r) = h_block_num (head (mem s) r)"
    "load_words (mem (take_lru s)) (bh_buff r) 256 = load_words (mem s) (bh_buff r) 256"
    using tl(1) r(2) heads_only_contents(2) [OF _ P r(2), of "mem s" "mem (take_lru s)"]
    by (auto simp: quiet_def label_def)
  have d: "h_dirty (head (mem u) r) \<noteq> 1"
    using we(1) by (auto simp: bh_head head_set [OF P r(2) r(2)])
  obtain l where "io_log u = l @ io_log s" "if h_dirty (head (mem s) r) = 1
     then \<exists>q. bdev_of s (h_dev (head (mem s) r)) = Some q \<and>
       wrote_sector (bdevs s q) (h_block_num (head (mem s) r)) (load_words (mem s) (bh_buff r) 256) l
     else l = []"
    using we(4) by (fastforce simp: bh_head old tl split: if_splits)
  from that [OF q d this] show ?thesis using um tl we(3) by simp
qed

lemma get_miss_effect:
  fixes s t :: "'a cache_scheme"
  assumes inv: "cache_inv P s" and run: "get_miss block dev s = Done r t"
  obtains p ws l1 l2 where "r = lru_buff s" "r \<in> P" "cache_inv P t" "hw t = hw s" "bdev_of s dev = Some p"
    "io_log t = l2 @ l1 @ io_log s" "read_sector (bdevs s p) block ws l2"
    "if h_dirty (head (mem s) r) = 1
     then \<exists>q. bdev_of s (h_dev (head (mem s) r)) = Some q \<and>
       wrote_sector (bdevs s q) (h_block_num (head (mem s) r)) (load_words (mem s) (bh_buff r) 256) l1
     else l1 = []"
    "contents (mem t) r = concat (map word_bytes ws)"
    "\<forall>c \<in> P - {r}. contents (mem t) c = contents (mem s) c \<and> label (mem t) c = label (mem s) c \<and>
       h_count (head (mem t) c) = h_count (head (mem s) c)"
    "label (mem t) r = (block, dev, buff_head s (ucast block), h_flags (head (mem s) r))"
    "h_count (head (mem t) r) = h_count (head (mem s) r) + 1" "h_dirty (head (mem t) r) \<noteq> 1"
    "h_next_free (head (mem t) r) = 0" "h_prev_free (head (mem t) r) = 0"
    "lru_buff t = h_next_free (head (mem s) r)" "mru_buff t = mru_buff s"
    "buff_head t = (buff_head s)(ucast block := r)" "bdevs t = bdevs s" "block_head t = block_head s"
    "pool_only P (mem s) (mem t)"
proof -
  have P: "pool_ok P" "links_ok P (mem s)" using inv by (simp_all add: cache_inv_def)
  obtain u p v where r: "lru_buff s \<noteq> 0" "r = lru_buff s" and w:
    "write_back r (bh_dev (mem (take_lru s)) r) (bh_block_num (mem (take_lru s)) r) (take_lru s) = Done () u"
    and p: "bdev_of u dev = Some p"
    and v: "ata_read_sects_28_pio (bh_buff r) 1 (bdevs u p) block (u\<lparr>mem := relabel r block dev (mem u)\<rparr>) = Done () v"
    and t: "t = v\<lparr>buff_head := (buff_head v)(ucast block := r), mem := chain_in r (buff_head v (ucast block)) (mem v)\<rparr>"
    using get_miss_steps [OF run] by metis
  have rP: "r \<in> P" using inv r by (auto simp: cache_inv_def)
  obtain l1 where q: "quiet P (mem s) (mem u)" and d: "h_dirty (head (mem u) r) \<noteq> 1" and l1: "io_log u = l1 @ io_log s"
    "if h_dirty (head (mem s) r) = 1
     then \<exists>q. bdev_of s (h_dev (head (mem s) r)) = Some q \<and>
       wrote_sector (bdevs s q) (h_block_num (head (mem s) r)) (load_words (mem s) (bh_buff r) 256) l1
     else l1 = []"
    and um: "lru_buff u = h_next_free (head (mem s) r)" "mru_buff u = mru_buff s" "buff_head u = buff_head s"
    "bdevs u = bdevs s" "block_head u = block_head s" "hw u = hw s"
    using evict_effect [OF inv r(2) rP w] by metis
  obtain ws l2 where ws: "read_sector (bdevs s p) block ws l2" "io_log v = l2 @ io_log u"
    "mem v = store_bytes (relabel r block dev (mem u)) (bh_buff r) (concat (map word_bytes ws))"
    and more: "console.more v = console.more u" "hw v = hw u"
    using ata_read_effect [OF v] by (fastforce simp: read_sector_def um(4))
  note vm = more_cache [OF more(1)]
  have len: "length (concat (map word_bytes ws)) = 512" using ws(1) by (simp add: read_sector_def)
  have lu: "links_ok P (mem u)" using q by (simp add: quiet_def)
  have nh: "buff_head s (ucast block) \<in> insert 0 P" using inv by (simp add: cache_inv_def)
  have mt: "mem t = load_buffer r block dev (buff_head s (ucast block)) (concat (map word_bytes ws)) (mem u)"
    by (simp add: t ws(3) load_buffer_def vm um)
  note lb = load_buffer_effect [OF P(1) rP lu nh len, where block = block and dev = dev, folded mt]
  have hu: "label (mem u) c = label (mem s) c \<and> h_count (head (mem u) c) = h_count (head (mem s) c) \<and>
      contents (mem u) c = contents (mem s) c" if "c \<in> P" for c
    using q that heads_only_contents(1) [OF _ P(1) that] by (simp add: quiet_def)
  have inv': "cache_inv P t"
    using inv lb(1) P rP links_okD(3) [OF P(2) rP] by (simp add: cache_inv_def t vm um)
  have po: "pool_only P (mem s) (mem t)"
    using q lb(2) heads_only_pool by (auto simp: quiet_def intro: pool_only_trans)
  have dv: "bdev_of s dev = Some p" using p um(4,5) by (simp add: bdev_of_def)
  show ?thesis
    using hu [OF rP] lb(3-5) hu rP d po l1(2)
    by (intro that [OF r(2) rP inv' _ dv _ ws(1), of l1]) (simp_all add: t more vm um ws(2) l1(1) label_def)
qed

text \<open>The operations leave the rest of the kernel alone.\<close>

lemma write_back_more: "write_back b dev block s = Done () t \<Longrightarrow> cache.more t = cache.more s"
  by (rule more_cache(6) [OF write_back_effect(2)])

lemma get_hit_fields: "get_hit b block dev s = Done r t \<Longrightarrow> console.more t = console.more s"
  by (auto simp: get_hit_def Let_def obind_Done_iff dest!: write_back_effect(2) split: if_splits)

lemma heap_of_more:
  fixes s t :: "'a cache_scheme"
  shows "console.more t = console.more s \<Longrightarrow> first t = first s"
  by (cases s; cases t) simp

lemma get_block_fields:
  fixes s t :: "'a cache_scheme"
  assumes "get_block block dev s = Done r t"
  shows "first t = first s" "cache.more t = cache.more s"
proof -
  consider b where "get_hit b block dev s = Done r t" | "get_miss block dev s = Done r t"
    using assms by (auto simp: get_block_def split: option.splits if_splits)
  then have "first t = first s \<and> cache.more t = cache.more s"
  proof cases
    case 1
    from get_hit_fields [OF this] show ?thesis using heap_of_more [of t s] more_cache(6) [of t s] by blast
  next
    case 2
    then show ?thesis
    proof (rule get_miss_steps)
      fix u p v
      assume w: "write_back r (bh_dev (mem (take_lru s)) r) (bh_block_num (mem (take_lru s)) r) (take_lru s) = Done () u"
        and v: "ata_read_sects_28_pio (bh_buff r) 1 (bdevs u p) block (u\<lparr>mem := relabel r block dev (mem u)\<rparr>) = Done () v"
        and t: "t = v\<lparr>buff_head := (buff_head v)(ucast block := r), mem := chain_in r (buff_head v (ucast block)) (mem v)\<rparr>"
      have "console.more v = console.more u" using ata_read_effect [OF v] by auto
      then have e: "console.more v = console.more (take_lru s)" using write_back_effect(2) [OF w] by simp
      show ?thesis using heap_of_more [OF e] more_cache(6) [OF e] by (simp add: t take_lru_def Let_def)
    qed
  qed
  then show "first t = first s" "cache.more t = cache.more s" by blast+
qed

lemmas get_block_more = get_block_fields(2)

lemma put_block_heap: "put_block b s = Done () t \<Longrightarrow> first t = first s"
  by (auto simp: put_block_def Let_def split: if_splits)

lemma put_block_more: "put_block b s = Done () t \<Longrightarrow> cache.more t = cache.more s"
  by (auto simp: put_block_def Let_def split: if_splits)

text \<open>Lookup along a chain inside the pool.\<close>

lemma find_buffer_Some:
  assumes "find_buffer m block dev h = Some b" and "links_ok P m" and "h \<in> insert 0 P"
  shows "b \<in> insert 0 P \<and> (b \<noteq> 0 \<longrightarrow> h_block_num (head m b) = block \<and> h_dev (head m b) = dev)"
  using assms(2,3)
proof (induction rule: find_buffer.raw_induct [OF _ assms(1)])
  case (1 f m block dev h b)
  note eq = 1(2) [unfolded bh_head]
  show ?case
  proof (cases "h = 0 \<or> h_block_num (head m h) = block \<and> h_dev (head m h) = dev")
    case True
    then have "b = h" using eq by (auto split: if_splits)
    then show ?thesis using True 1(4) by auto
  next
    case False
    then have "f m block dev (h_next (head m h)) = Some b" using eq by (auto split: if_splits)
    moreover have "h_next (head m h) \<in> insert 0 P" using False 1(3,4) links_okD(1) by auto
    ultimately show ?thesis using 1(1,3) by blast
  qed
qed

lemma find_buffer_cong:
  assumes "find_buffer m block dev h = Some b" and "links_ok P m" and "h \<in> insert 0 P"
    and "\<forall>c \<in> P. label m' c = label m c"
  shows "find_buffer m' block dev h = Some b"
  using assms(2-4)
proof (induction rule: find_buffer.raw_induct [OF _ assms(1)])
  case (1 f m block dev h b)
  show ?case
  proof (cases "h = 0")
    case True
    then show ?thesis using 1(2) by (simp add: find_buffer.simps)
  next
    case False
    then have "h \<in> P" using 1 by simp
    moreover from this have "label m' h = label m h" using 1 by blast
    ultimately show ?thesis
      using 1 False links_okD(1) [of P m h]
      by (subst find_buffer.simps) (auto simp: bh_head label_def split: if_splits)
  qed
qed

lemma get_block_cases:
  assumes inv: "cache_inv P s" and run: "get_block block dev s = Done r t"
  obtains "find_buffer (mem s) block dev (buff_head s (ucast block)) = Some r" "r \<in> P" "get_hit r block dev s = Done r t"
      "h_block_num (head (mem s) r) = block" "h_dev (head (mem s) r) = dev"
  | "find_buffer (mem s) block dev (buff_head s (ucast block)) = Some 0" "get_miss block dev s = Done r t"
proof -
  have P: "links_ok P (mem s)" "buff_head s (ucast block) \<in> insert 0 P" "0 \<notin> P"
    using inv by (simp_all add: cache_inv_def pool_ok_def)
  obtain b where b: "find_buffer (mem s) block dev (buff_head s (ucast block)) = Some b"
    "(if b \<noteq> 0 then get_hit b block dev s else get_miss block dev s) = Done r t"
    using run by (auto simp: get_block_def split: option.splits)
  note f = find_buffer_Some [OF b(1) P(1,2)]
  show ?thesis
  proof (cases "b = 0")
    case False
    then have "b \<in> P" "get_hit b block dev s = Done r t" using f b(2) by auto
    moreover from this have "r = b" using get_hit_effect [OF inv] by blast
    ultimately show ?thesis using that(1) b f False by simp
  qed (use that(2) b in simp)
qed

lemma get_block_safe:
  fixes s t :: "'a cache_scheme"
  assumes inv: "cache_inv P s" and run: "get_block block dev s = Done r t"
  shows "r \<in> P \<and> cache_inv P t \<and> pool_only P (mem s) (mem t)"
  using get_block_cases [OF inv run]
proof cases
  case 1
  then show ?thesis using get_hit_effect [OF inv 1(2,3)] heads_only_pool by blast
next
  case 2
  show ?thesis by (rule get_miss_effect [OF inv 2(2)]) blast
qed

lemma put_block_effect:
  fixes s t :: "'a cache_scheme"
  assumes inv: "cache_inv P s" and b: "b \<in> P" and run: "put_block b s = Done () t"
  shows "cache_inv P t \<and> heads_only P (mem s) (mem t) \<and> io_log t = io_log s \<and> hw t = hw s \<and>
    buff_head t = buff_head s \<and> bdevs t = bdevs s \<and> block_head t = block_head s \<and>
    (\<forall>c \<in> P. label (mem t) c = label (mem s) c \<and> h_count (head (mem t) c) =
      h_count (head (mem s) c) - (if c = b \<and> h_count (head (mem s) b) > 1 then 1 else 0))"
proof -
  have P: "pool_ok P" "links_ok P (mem s)" "lru_buff s \<in> insert 0 P" "mru_buff s \<in> insert 0 P"
    using inv by (simp_all add: cache_inv_def)
  note set = links_ok_set [OF P(1)] head_set [OF P(1)]
  consider "h_count (head (mem s) b) > 1" "t = s\<lparr>mem := set_count b (h_count (head (mem s) b) - 1) (mem s)\<rparr>"
    | "\<not> h_count (head (mem s) b) > 1" "mru_buff s \<in> P"
      "t = s\<lparr>mem := set_prev_free b (mru_buff s) (set_next_free (mru_buff s) b (mem s)), mru_buff := b\<rparr>"
    | "\<not> h_count (head (mem s) b) > 1" "lru_buff s \<in> P"
      "t = s\<lparr>mem := set_next_free b (lru_buff s) (set_prev_free (lru_buff s) b (mem s)), lru_buff := b\<rparr>"
    using run P(3,4) by (auto simp: put_block_def bh_head Let_def split: if_splits)
  then show ?thesis
  proof cases
    case 1
    then show ?thesis using inv P b by (auto simp: cache_inv_def set label_def heads_only_set)
  next
    case 2
    have "heads_only P (mem s) (mem t)"
      using heads_only_trans [OF heads_only_set(7) [OF 2(2)] heads_only_set(8) [OF b]] by (simp add: 2(3))
    then show ?thesis using 2 inv P b by (auto simp: cache_inv_def set label_def)
  next
    case 3
    have "heads_only P (mem s) (mem t)"
      using heads_only_trans [OF heads_only_set(8) [OF 3(2)] heads_only_set(7) [OF b]] by (simp add: 3(3))
    then show ?thesis using 3 inv P b by (auto simp: cache_inv_def set label_def)
  qed
qed

section \<open>Clients of the cache\<close>

datatype cache_call = Get u32 u16 | Put u32

fun cache_call_run :: "cache_call \<Rightarrow> 'a cache_scheme \<Rightarrow> ('a cache_scheme, u32) outcome" where
  "cache_call_run (Get block dev) s = get_block block dev s"
| "cache_call_run (Put b) s = obind (put_block b s) (\<lambda>_ s. Done b s)"

interpretation cache_calls: guarded_calls cache_call_run "\<lambda>c. \<forall>b. c = Put b \<longrightarrow> b \<in> P" "cache_inv P"
  "\<lambda>r. r \<in> P" "\<lambda>s t. pool_only P (mem s) (mem t)" for P
proof (unfold_locales, goal_cases)
  case (1 s c r t)
  then show ?case
  proof (cases c)
    case (Get block dev)
    then show ?thesis using get_block_safe [OF 1(1)] 1(3) by simp
  next
    case (Put b)
    then show ?thesis
      using put_block_effect [OF 1(1)] 1(2,3) heads_only_pool by (auto simp: obind_Done_iff)
  qed
qed (auto intro: pool_only_trans)

section \<open>Properties\<close>

text \<open>C7: The cache never leaves its buffers: whatever sequence of \<^verbatim>\<open>get_block\<close> and
  \<^verbatim>\<open>put_block\<close> calls on buffers of the pool returns, every pointer of the cache (hash chains, free list,
  anchors) is still null or one of the disjoint buffers of the pool, every buffer handed out is
  one of them, and no memory outside them has changed.\<close>

theorem cache_pointers_safe:
  assumes "cache_inv P s" and "\<forall>b. Put b \<in> set cs \<longrightarrow> b \<in> P" and "run_calls cache_call_run cs s = Done rs t"
  shows "cache_inv P t \<and> set rs \<subseteq> P \<and> pool_only P (mem s) (mem t)"
  using cache_calls.run_safe [OF assms(1) _ assms(3)] assms(2) by blast

text \<open>C16: A block that is not cached is loaded into the buffer at the head of the free list.
  If that buffer was dirty, its 256 words are first written to the block and device it held. Then
  the sector of the wanted block is read, its 512 bytes become the contents of the buffer, and the
  buffer is labelled with block and device and becomes the head of its hash chain. No other
  buffer's contents change.\<close>

theorem get_block_loads_block:
  assumes inv: "cache_inv P s" and miss: "find_buffer (mem s) block dev (buff_head s (ucast block)) = Some 0"
    and run: "get_block block dev s = Done b t"
  shows "\<exists>p ws l1 l2. b = lru_buff s \<and> bdev_of s dev = Some p \<and> io_log t = l2 @ l1 @ io_log s \<and>
    read_sector (bdevs s p) block ws l2 \<and> contents (mem t) b = concat (map word_bytes ws) \<and>
    (if bh_dirty (mem s) b = 1
     then \<exists>q. bdev_of s (bh_dev (mem s) b) = Some q \<and>
       wrote_sector (bdevs s q) (bh_block_num (mem s) b) (load_words (mem s) (bh_buff b) 256) l1
     else l1 = []) \<and>
    (\<forall>c \<in> P - {b}. contents (mem t) c = contents (mem s) c) \<and>
    bh_block_num (mem t) b = block \<and> bh_dev (mem t) b = dev \<and> bh_dirty (mem t) b \<noteq> 1 \<and>
    buff_head t = (buff_head s)(ucast block := b) \<and> lru_buff t = bh_next_free (mem s) b"
proof -
  have "get_miss block dev s = Done b t" using run miss by (simp add: get_block_def)
  from get_miss_effect [OF inv this] show ?thesis by (simp add: label_def bh_head) metis
qed

lemma get_block_found:
  fixes s t :: "'a cache_scheme"
  assumes inv: "cache_inv P s" and run: "get_block block dev s = Done b t"
  shows "find_buffer (mem t) block dev (buff_head t (ucast block)) = Some b"
  using get_block_cases [OF inv run]
proof cases
  case 1
  note h = get_hit_effect [OF inv 1(2,3)]
  have "buff_head t = buff_head s" using h more_cache(3) by blast
  then show ?thesis
    using find_buffer_cong [OF 1(1), of P "mem t"] h inv by (simp add: cache_inv_def)
next
  case 2
  have "label (mem t) b = (block, dev, buff_head s (ucast block), h_flags (head (mem s) b))"
    "buff_head t = (buff_head s)(ucast block := b)" "b \<in> P"
    by (rule get_miss_effect [OF inv 2(2)], assumption)+
  moreover have "0 \<notin> P" using inv by (simp add: cache_inv_def pool_ok_def)
  ultimately show ?thesis by (auto simp: find_buffer.simps bh_head label_def)
qed

text \<open>A block just obtained is cached: asking for it again returns the same buffer with
  the same contents, without any access to the drive, and counts the second user (provided the
  32-bit use count has not wrapped to 0).\<close>

theorem get_block_cached:
  fixes s t :: "'a cache_scheme"
  assumes inv: "cache_inv P s" and run: "get_block block dev s = Done b t" and cnt: "bh_count (mem t) b \<noteq> 0"
  shows "\<exists>u :: 'a cache_scheme. get_block block dev t = Done b u \<and> io_log u = io_log t \<and> (\<forall>c \<in> P. contents (mem u) c = contents (mem t) c) \<and>
    bh_count (mem u) b = bh_count (mem t) b + 1"
proof -
  have b: "b \<in> P" and inv': "cache_inv P t" using get_block_safe [OF inv run] by blast+
  have b0: "b \<noteq> 0" and P: "pool_ok P" using b inv by (auto simp: cache_inv_def pool_ok_def)
  note get_block_found [OF inv run]
  moreover obtain u where u: "get_hit b block dev t = Done b u"
    using cnt by (simp add: get_hit_def Let_def)
  ultimately have "get_block block dev t = Done b u" using b0 by (simp add: get_block_def)
  moreover have "io_log u = io_log t" "mem u = set_count b (bh_count (mem t) b + 1) (mem t)" "heads_only P (mem t) (mem u)"
    using get_hit_effect [OF inv' b u] cnt by (simp_all add: bh_head heads_only_set b)
  ultimately show ?thesis using heads_only_contents(1) [OF _ P, of "mem t" "mem u"] by auto
qed

lemma find_buffer_loop:
  assumes "h \<noteq> 0" and "bh_next m h = h" and "bh_block_num m h \<noteq> block"
  shows "find_buffer m block dev h = None"
proof (rule ccontr)
  assume "find_buffer m block dev h \<noteq> None"
  then obtain b where b: "find_buffer m block dev h = Some b" by blast
  have "\<not> (h \<noteq> 0 \<and> bh_next m h = h \<and> bh_block_num m h \<noteq> block)"
  proof (induction rule: find_buffer.raw_induct [OF _ b])
    case (1 f m block dev h b)
    show ?case using 1(1) [of m block dev h b] 1(2) by (auto split: if_splits)
  qed
  with assms show False by blast
qed

text \<open>C37: Recycling the buffer that heads the very hash chain it is put into makes it its own
  successor, because it is not taken out of its old chain first: from then on a lookup of any other block of
  that chain never ends. Right after \<^verbatim>\<open>init_buffer\<close> this is the case for the first block
  whose number is a multiple of 256.\<close>

theorem get_block_cyclic_chain:
  assumes inv: "cache_inv P s" and miss: "find_buffer (mem s) block dev (buff_head s (ucast block)) = Some 0"
    and "lru_buff s = buff_head s (ucast block)" and run: "get_block block dev s = Done b t"
    and "(ucast block' :: u8) = ucast block" and "block' \<noteq> block"
  shows "get_block block' dev' t = Diverged"
proof -
  have m: "get_miss block dev s = Done b t" using run miss by (simp add: get_block_def)
  have "label (mem t) b = (block, dev, buff_head s (ucast block), h_flags (head (mem s) b))"
    "buff_head t = (buff_head s)(ucast block := b)" "b = lru_buff s" "b \<in> P"
    by (rule get_miss_effect [OF inv m], assumption)+
  moreover from this have "b \<noteq> 0" using inv by (auto simp: cache_inv_def pool_ok_def)
  ultimately have "find_buffer (mem t) block' dev' (buff_head t (ucast block')) = None"
    using assms(3,5,6) find_buffer_loop [of b "mem t" block' dev'] by (simp add: label_def bh_head)
  then show ?thesis by (simp add: get_block_def)
qed

section \<open>Building the cache\<close>

text \<open>The blocks of the heap after \<open>i\<close> buffers were allocated from one free block of \<open>n\<close> bytes, and the
  address of buffer number \<open>i\<close>.\<close>

definition buf_blocks :: "nat \<Rightarrow> nat \<Rightarrow> blocks" where
  "buf_blocks n i = replicate i (True, 544) @ [(False, n - 560 * i)]"

definition buf_addr :: "nat \<Rightarrow> nat \<Rightarrow> u32" where
  "buf_addr F i = of_nat (F + 16 + 560 * i)"

definition buf_pool :: "nat \<Rightarrow> u32 set" where
  "buf_pool F = buf_addr F ` {..<100}"

lemma unat_buf_addr: "i < 100 \<Longrightarrow> F + 56000 \<le> 2 ^ 32 \<Longrightarrow> unat (buf_addr F i) = F + 16 + 560 * i"
  unfolding buf_addr_def by (subst unat_of_nat) simp

lemma buf_addr_eq: "i < 100 \<Longrightarrow> j < 100 \<Longrightarrow> F + 56000 \<le> 2 ^ 32 \<Longrightarrow> buf_addr F i = buf_addr F j \<longleftrightarrow> i = j"
  by (auto simp: word_unat_eq_iff unat_buf_addr)

lemma buf_pool_ok:
  assumes "F + 56000 \<le> 2 ^ 32"
  shows "pool_ok (buf_pool F)"
proof -
  have apart: "apart 544 (buf_addr F i) (buf_addr F j)" if "i < j" "j < 100" for i j
  proof -
    have "unat (buf_addr F i) + 544 \<le> unat (buf_addr F j)" "unat (buf_addr F j) + 544 \<le> 2 ^ 32"
      using that assms by (simp_all add: unat_buf_addr)
    from apart_unat(1) [OF this] show ?thesis by simp
  qed
  have "buf_addr F i \<noteq> 0" if "i < 100" for i
    using unat_buf_addr [OF that assms] by auto
  moreover have "apart 544 (buf_addr F i) (buf_addr F j)" if "i < 100" "j < 100" "i \<noteq> j" for i j
    using apart [of i j] apart [of j i] that apart_sym by (metis nat_neq_iff)
  ultimately show ?thesis by (fastforce simp: pool_ok_def buf_pool_def)
qed

lemma hbytes_buf_blocks: "x \<in> hbytes F (buf_blocks n i) \<Longrightarrow> \<exists>j \<le> i. x \<in> {F + 560 * j..<F + 560 * j + 16}"
proof -
  have "x \<in> hbytes F (replicate i (True, 544) @ [(False, r)]) \<Longrightarrow> \<exists>j \<le> i. x \<in> {F + 560 * j..<F + 560 * j + 16}" for r
  proof (induction i arbitrary: F)
    case (Suc i)
    then consider "x \<in> {F..<F + 16}" | "x \<in> hbytes (F + 560) (replicate i (True, 544) @ [(False, r)])"
      by (auto simp: add.assoc)
    then show ?case
    proof cases
      case 2
      then obtain j where "j \<le> i" "x \<in> {F + 560 + 560 * j..<F + 560 + 560 * j + 16}" using Suc.IH by blast
      then show ?thesis by (intro exI [of _ "Suc j"]) simp
    qed (intro exI [of _ 0], simp)
  qed simp
  then show "x \<in> hbytes F (buf_blocks n i) \<Longrightarrow> ?thesis" by (simp add: buf_blocks_def)
qed

lemma header_not_in_buffer:
  assumes "F + 56000 \<le> 2 ^ 32" and "x \<in> hbytes F (buf_blocks n i)" and "x < 2 ^ 32" and "b \<in> buf_pool F"
  shows "544 \<le> (of_nat x :: u32) - b"
proof -
  obtain j where j: "F + 560 * j \<le> x" "x < F + 560 * j + 16" using hbytes_buf_blocks [OF assms(2)] by auto
  obtain k where k: "b = buf_addr F k" "k < 100" using assms(4) by (auto simp: buf_pool_def)
  have x: "unat (of_nat x :: u32) = x" using assms(3) by (simp add: unat_of_nat)
  show ?thesis
  proof (cases "j \<le> k")
    case True
    then have "x < F + 16 + 560 * k" using j(2) by simp
    then show ?thesis
      using x j(1) assms(1) k by (simp add: word_le_nat_alt unat_sub_if' unat_buf_addr)
  next
    case False
    then have "F + 16 + 560 * k + 544 \<le> x" using j(1) by simp
    then show ?thesis using x assms(1) k by (simp add: word_le_nat_alt unat_sub_if' unat_buf_addr)
  qed
qed

lemma kmalloc_only_mem:
  assumes "kmalloc sz s = Done p t"
  shows "\<exists>m. t = s\<lparr>mem := m\<rparr>"
proof -
  have "\<exists>m. s = s\<lparr>mem := m\<rparr>" by (rule exI [of _ "mem s"]) simp
  then show ?thesis
    using assms by (auto simp: kmalloc_def kmalloc_alligned_def kpanic_def Let_def
        split: if_splits option.splits sum.splits prod.splits)
qed

lemma heads_only_heap_ok:
  assumes ok: "heap_ok s (buf_blocks n i)" and m: "pool_only (buf_pool (unat (first s))) (mem s) m"
    and F: "unat (first s) + 56000 \<le> 2 ^ 32"
  shows "heap_ok (s\<lparr>mem := m\<rparr>) (buf_blocks n i)"
proof -
  have top: "unat (first s) + extent (buf_blocks n i) \<le> 2 ^ 32" using ok by (simp add: heap_ok_def heap_rep_def)
  have "m (of_nat x) = mem s (of_nat x)" if x: "x \<in> hbytes (unat (first s)) (buf_blocks n i)" for x
  proof -
    have "x < 2 ^ 32" using hbytes_range [OF x] top by simp
    then show ?thesis using m header_not_in_buffer [OF F x] by (auto simp: pool_only_def)
  qed
  then have "seg m 0 (unat (first s)) (buf_blocks n i) 0 = seg (mem s) 0 (unat (first s)) (buf_blocks n i) 0"
    by (intro seg_cong) blast
  with ok show ?thesis by (simp add: heap_ok_def heap_rep_def)
qed

lemma kmalloc_buffer:
  fixes s :: "'a heap_scheme"
  assumes ok: "heap_ok s (buf_blocks n i)" and room: "560 * Suc i < n" and F: "unat (first s) + 56000 \<le> 2 ^ 32" and i: "i < 100"
  obtains m where "kmalloc BUFFER_HEAD_SIZE s = Done (buf_addr (unat (first s)) i) (s\<lparr>mem := m\<rparr>)"
    "heap_ok (s\<lparr>mem := m\<rparr>) (buf_blocks n (Suc i))"
    "\<forall>b \<in> buf_pool (unat (first s)). head m b = head (mem s) b"
proof -
  have ext: "extent (replicate i (True, 544)) = 560 * i" by (induction i) simp_all
  have "alloc_list 544 (replicate i (True, 544) @ (False, n - 560 * i) # []) =
      Some (560 * i, replicate i (True, 544) @ [(True, 544), (False, n - 560 * i - 544 - 16)])"
    using room by (subst alloc_list_append) (auto simp: ext)
  then have al: "alloc_list (unat BUFFER_HEAD_SIZE) (buf_blocks n i) = Some (560 * i, buf_blocks n (Suc i))"
    by (simp add: buf_blocks_def BUFFER_HEAD_SIZE_def replicate_append_same [symmetric])
  have "4 dvd unat BUFFER_HEAD_SIZE" by (simp add: BUFFER_HEAD_SIZE_def)
  from kmalloc_simulation [OF ok this] obtain t where t: "kmalloc BUFFER_HEAD_SIZE s = Done (first s + of_nat (560 * i) + 16) t"
    "heap_ok t (buf_blocks n (Suc i))" "first t = first s"
    "only_headers (headers s (buf_blocks n i) \<union> headers s (buf_blocks n (Suc i))) (mem s) (mem t)"
    by (auto simp: al)
  obtain m where m: "t = s\<lparr>mem := m\<rparr>" using kmalloc_only_mem [OF t(1)] by blast
  have addr: "first s + of_nat (560 * i) + 16 = buf_addr (unat (first s)) i"
    by (simp add: buf_addr_def)
  have "head m b = head (mem s) b" if b: "b \<in> buf_pool (unat (first s))" for b
  proof (rule head_cong)
    fix k :: u32
    assume k: "k < 32"
    have "x \<notin> headers s (buf_blocks n i) \<union> headers s (buf_blocks n (Suc i))" if "b + k = of_nat x" "x < 2 ^ 32" for x
    proof
      assume "x \<in> headers s (buf_blocks n i) \<union> headers s (buf_blocks n (Suc i))"
      then have "544 \<le> (of_nat x :: u32) - b"
        using header_not_in_buffer [OF F _ that(2) b] unfolding headers_def by blast
      then have "544 \<le> k" by (simp add: that(1) [symmetric])
      then show False using k by (simp add: word_le_nat_alt word_less_nat_alt)
    qed
    from this [of "unat (b + k)"] show "m (b + k) = mem s (b + k)"
      using t(4) unat_u32_less [of "b + k"] spec [of _ "unat (b + k)"] by (auto simp: only_headers_def m)
  qed
  then show ?thesis using that [of m] t(1,2) unfolding addr by (simp add: m)
qed

text \<open>The links after buffers 0 to \<open>i\<close> are chained; \<open>m0\<close> is the memory before.\<close>

definition chained :: "nat \<Rightarrow> nat \<Rightarrow> memory \<Rightarrow> memory \<Rightarrow> bool" where
  "chained F i m0 m \<longleftrightarrow> (\<forall>j < 100.
     h_next (head m (buf_addr F j)) = (if j < i then buf_addr F (j + 1) else h_next (head m0 (buf_addr F j))) \<and>
     h_next_free (head m (buf_addr F j)) = (if j < i then buf_addr F (j + 1) else h_next_free (head m0 (buf_addr F j))) \<and>
     (j \<le> i \<longrightarrow> h_prev (head m (buf_addr F j)) = (if j = 0 then 0 else buf_addr F (j - 1)) \<and>
        h_prev_free (head m (buf_addr F j)) = (if j = 0 then 0 else buf_addr F (j - 1))))"

lemma chained_step:
  assumes "chained F i m0 m" and "Suc i < 100" and "F + 56000 \<le> 2 ^ 32"
  shows "chained F (Suc i) m0 (set_prev_free (buf_addr F (Suc i)) (buf_addr F i) (set_bh_prev (buf_addr F (Suc i)) (buf_addr F i)
    (set_next_free (buf_addr F i) (buf_addr F (Suc i)) (set_bh_next (buf_addr F i) (buf_addr F (Suc i)) m))))"
proof -
  have P: "buf_addr F j \<in> buf_pool F" if "j < 100" for j using that by (simp add: buf_pool_def)
  note hs = head_set [OF buf_pool_ok [OF assms(3)] P P]
  show ?thesis
    using assms unfolding chained_def by (auto simp: hs buf_addr_eq)
qed

lemma init_chain_builds:
  fixes s :: "'a cache_scheme"
  assumes "i + k = 99" and "heap_ok s (buf_blocks n (Suc i))" and "56000 < n" and "F + 56000 \<le> 2 ^ 32"
    and "F = unat (first s)" and "chained F i m0 (mem s)"
  shows "\<exists>m. init_chain k (buf_addr F i) s = Done (buf_addr F 99) (s\<lparr>mem := m\<rparr>) \<and>
    heap_ok (s\<lparr>mem := m\<rparr>) (buf_blocks n 100) \<and> chained F 99 m0 m"
  using assms
proof (induction k arbitrary: i s)
  case 0
  then show ?case by (auto intro!: exI [of _ "mem s"])
next
  case (Suc k)
  then have i: "Suc i < 100" by simp
  have room: "560 * Suc (Suc i) < n" "unat (first s) + 56000 \<le> 2 ^ 32" using Suc.prems i by simp_all
  obtain m where m: "kmalloc BUFFER_HEAD_SIZE s = Done (buf_addr F (Suc i)) (s\<lparr>mem := m\<rparr>)"
    "heap_ok (s\<lparr>mem := m\<rparr>) (buf_blocks n (Suc (Suc i)))" "\<forall>b \<in> buf_pool F. head m b = head (mem s) b"
    using kmalloc_buffer [OF Suc.prems(2) room i] Suc.prems(5) by metis
  let ?m = "set_prev_free (buf_addr F (Suc i)) (buf_addr F i) (set_bh_prev (buf_addr F (Suc i)) (buf_addr F i)
    (set_next_free (buf_addr F i) (buf_addr F (Suc i)) (set_bh_next (buf_addr F i) (buf_addr F (Suc i)) m)))"
  have P: "buf_addr F i \<in> buf_pool F" "buf_addr F (Suc i) \<in> buf_pool F" using i by (simp_all add: buf_pool_def)
  have "chained F i m0 m" using Suc.prems(6) m(3) by (simp add: chained_def buf_pool_def)
  then have c: "chained F (Suc i) m0 ?m" by (rule chained_step [OF _ i Suc.prems(4)])
  have "heads_only (buf_pool F) m ?m" using P by (auto simp: heads_only_def bh_set_outside)
  then have ok: "heap_ok (s\<lparr>mem := ?m\<rparr>) (buf_blocks n (Suc (Suc i)))"
    using heads_only_heap_ok [OF m(2), of ?m] heads_only_pool Suc.prems(4,5) by simp
  have nx: "bh_next (set_prev_free (buf_addr F (Suc i)) (buf_addr F i) (set_bh_prev (buf_addr F (Suc i)) (buf_addr F i)
      (set_next_free (buf_addr F i) (buf_addr F (Suc i)) (set_bh_next (buf_addr F i) (buf_addr F (Suc i)) m)))) (buf_addr F i)
      = buf_addr F (Suc i)"
    "bh_next (set_bh_prev (buf_addr F (Suc i)) (buf_addr F i) (set_next_free (buf_addr F i) (buf_addr F (Suc i))
      (set_bh_next (buf_addr F i) (buf_addr F (Suc i)) m))) (buf_addr F i) = buf_addr F (Suc i)"
    using P i head_set [OF buf_pool_ok [OF Suc.prems(4)]] Suc.prems(4) by (simp_all add: bh_head buf_addr_eq)
  have "init_chain (Suc k) (buf_addr F i) s = init_chain k (buf_addr F (Suc i)) (s\<lparr>mem := ?m\<rparr>)"
    by (simp add: m(1) Let_def nx)
  with Suc.IH [of "Suc i" "s\<lparr>mem := ?m\<rparr>"] ok c Suc.prems show ?case by simp
qed

lemma chained_links:
  assumes c: "chained F 99 m0 m" and "h_next (head m0 (buf_addr F 99)) = 0" "h_next_free (head m0 (buf_addr F 99)) = 0"
  shows "links_ok (buf_pool F) m"
proof -
  have P: "buf_addr F j \<in> buf_pool F" if "j < 100" for j using that by (simp add: buf_pool_def)
  have "{h_next (head m (buf_addr F j)), h_prev (head m (buf_addr F j)), h_next_free (head m (buf_addr F j)),
      h_prev_free (head m (buf_addr F j))} \<subseteq> insert 0 (buf_pool F)" if j: "j < 100" for j
  proof (cases "j = 99")
    case True
    then show ?thesis using c assms(2,3) P by (simp add: chained_def)
  next
    case False
    then have "j < 99" using j by simp
    then show ?thesis using c P [of "j + 1"] P [of "j - 1"] by (simp add: chained_def)
  qed
  then show ?thesis by (auto simp: links_ok_def buf_pool_def)
qed

text \<open>C27: \<^verbatim>\<open>init_buffer\<close> on a heap with one free block of more than 56000 bytes returns and
  builds the cache: 100 disjoint heap regions, chained in address order both as hash chain 0 and
  as free list from \<^verbatim>\<open>lru_buff\<close> to \<^verbatim>\<open>mru_buff\<close>; the other chains are empty. The links of the last
  buffer are not initialised: they must happen to be null (as on the cleared heap after
  \<^verbatim>\<open>kheap_init\<close>).\<close>

theorem init_buffer_builds_pool:
  fixes s :: "'a cache_scheme"
  assumes ok: "heap_ok s [(False, n)]" and n: "56000 < n"
    and tail: "bh_next (mem s) (buf_addr (unat (first s)) 99) = 0" "bh_next_free (mem s) (buf_addr (unat (first s)) 99) = 0"
  shows "\<exists>t. init_buffer s = Done () t \<and> heap_ok t (buf_blocks n 100) \<and> cache_inv (buf_pool (unat (first s))) t \<and>
    lru_buff t = buf_addr (unat (first s)) 0 \<and> mru_buff t = buf_addr (unat (first s)) 99 \<and>
    buff_head t = (\<lambda>_. 0)(0 := buf_addr (unat (first s)) 0) \<and>
    (\<forall>i < 99. bh_next_free (mem t) (buf_addr (unat (first s)) i) = buf_addr (unat (first s)) (i + 1) \<and>
       bh_prev_free (mem t) (buf_addr (unat (first s)) (i + 1)) = buf_addr (unat (first s)) i)"
proof -
  let ?F = "unat (first s)" and ?s = "s\<lparr>buff_head := \<lambda>i. if 1 \<le> i then 0 else buff_head s i\<rparr>"
  have F: "?F + 56000 \<le> 2 ^ 32" using ok n by (simp add: heap_ok_def heap_rep_def)
  have ok0: "heap_ok ?s (buf_blocks n 0)" using ok by (simp add: heap_ok_def heap_rep_def buf_blocks_def)
  obtain m where m: "kmalloc BUFFER_HEAD_SIZE ?s = Done (buf_addr ?F 0) (?s\<lparr>mem := m\<rparr>)"
    "heap_ok (?s\<lparr>mem := m\<rparr>) (buf_blocks n (Suc 0))" "\<forall>b \<in> buf_pool ?F. head m b = head (mem s) b"
    using kmalloc_buffer [OF ok0] n F by auto
  let ?m = "set_prev_free (buf_addr ?F 0) 0 (set_bh_prev (buf_addr ?F 0) 0 m)"
  let ?t = "?s\<lparr>buff_head := (\<lambda>_. 0)(0 := buf_addr ?F 0), mem := ?m, lru_buff := buf_addr ?F 0\<rparr>"
  have P0: "buf_addr ?F j \<in> buf_pool ?F" if "j < 100" for j using that by (simp add: buf_pool_def)
  note hs = head_set [OF buf_pool_ok [OF F] P0 [of 0] P0]
  have "chained ?F 0 (mem s) ?m"
    using m(3) P0 by (auto simp: chained_def hs)
  moreover have "heads_only (buf_pool ?F) m ?m" using P0 [of 0] by (auto simp: heads_only_def bh_set_outside)
  then have "heap_ok (?s\<lparr>mem := ?m\<rparr>) (buf_blocks n (Suc 0))"
    using heads_only_heap_ok [OF m(2), of ?m] heads_only_pool F by simp
  then have "heap_ok ?t (buf_blocks n (Suc 0))" by (simp add: heap_ok_def heap_rep_def)
  ultimately obtain m' where m': "init_chain 99 (buf_addr ?F 0) ?t = Done (buf_addr ?F 99) (?t\<lparr>mem := m'\<rparr>)"
    "heap_ok (?t\<lparr>mem := m'\<rparr>) (buf_blocks n 100)" "chained ?F 99 (mem s) m'"
    using init_chain_builds [of 0 99 ?t n ?F "mem s"] n F by auto
  let ?u = "?t\<lparr>mem := m', mru_buff := buf_addr ?F 99\<rparr>"
  have bh: "(\<lambda>i. if 1 \<le> i then 0 else buff_head s i)(0 := buf_addr ?F 0) = (\<lambda>_. 0)(0 := buf_addr ?F 0)"
    by (rule ext) (auto simp: word_le_nat_alt word_unat_eq_iff)
  have "init_buffer s = Done () ?u"
    using m'(1) bh by (simp add: init_buffer_def m(1) MAX_BUFFER_def Let_def)
  moreover have "heap_ok ?u (buf_blocks n 100)" using m'(2) by (simp add: heap_ok_def heap_rep_def)
  moreover have "links_ok (buf_pool ?F) m'"
    using chained_links [OF m'(3)] tail by (simp add: bh_head)
  then have "cache_inv (buf_pool ?F) ?u" using P0 [of 0] P0 [of 99] buf_pool_ok [OF F] by (simp add: cache_inv_def)
  ultimately show ?thesis using m'(3) by (simp add: chained_def bh_head)
qed

section \<open>Witnesses\<close>

lemma ready_drive_transfers:
  assumes "hw s = (\<lambda>_ _. 0x50)"
  shows "\<exists>t. ata_read_sects_28_pio a 1 d block s = Done () t" "\<exists>t. ata_write_sects_28_pio a 1 d block s = Done () t"
proof -
  let ?r = "issue28 (base d) (slave_bit d) (block + start_lba d) 1 READ_SECTS_CMD
    (tty_update (terminal_writestring (''Reading from drive'' @ [CHR 10])) s)"
  let ?w = "issue28 (base d) (slave_bit d) (block + start_lba d) 1 WRITE_SECTS_CMD
    (tty_update (terminal_writestring (''Writing to drive'' @ [CHR 10])) s)"
  have "hw ?r = (\<lambda>_ _. 0x50)" "hw ?w = (\<lambda>_ _. 0x50)" using assms by (simp_all add: issue28_eq)
  note p = this [THEN ready_drive_poll, of "base d"]
  have e: "(0x50 :: u8) AND 1 = 0" by simp
  show "\<exists>t. ata_read_sects_28_pio a 1 d block s = Done () t" "\<exists>t. ata_write_sects_28_pio a 1 d block s = Done () t"
    by (simp_all only: ata_read_sects_28_pio_def ata_write_sects_28_pio_def Let_def p e option.case prod.case) simp_all
qed

lemma find_buffer_cached:
  "h \<noteq> 0 \<Longrightarrow> bh_block_num m h = block \<Longrightarrow> bh_dev m h = dev \<Longrightarrow> find_buffer m block dev h = Some h"
  by (simp add: find_buffer.simps)

lemma get_miss_returns:
  assumes hw: "hw s = (\<lambda>_ _. 0x50)" and b: "lru_buff s \<noteq> 0" and p: "bdev_of s dev = Some p" "p \<noteq> 0"
    and clean: "bh_dirty (mem (take_lru s)) (lru_buff s) \<noteq> 1"
  shows "\<exists>t. get_miss block dev s = Done (lru_buff s) t"
proof -
  let ?s = "(take_lru s)\<lparr>mem := relabel (lru_buff s) block dev (mem (take_lru s))\<rparr>"
  have "hw ?s = (\<lambda>_ _. 0x50)" using hw by (simp add: take_lru_def Let_def)
  from ready_drive_transfers(1) [OF this, of "bh_buff (lru_buff s)" "bdevs ?s p" block]
  obtain t where "ata_read_sects_28_pio (bh_buff (lru_buff s)) 1 (bdevs ?s p) block ?s = Done () t" by blast
  moreover have "find_bdev dev ?s = Done p ?s"
    using p by (simp add: find_bdev_Done take_lru_def Let_def)
  ultimately show ?thesis
    using b clean by (simp add: get_miss_def write_back_def take_lru_def relabel_def Let_def cong: if_cong)
qed

text \<open>Two free buffers, the first at the head of hash chain 0, and a drive that is always ready.\<close>

definition sample_pool :: "u32 set" where "sample_pool = {0xC0200000, 0xC0201000}"

definition sample_cache :: cache where
  "sample_cache = (tasking.extend two_threads
       (cache.fields (\<lambda>_. sample_bdev) 0xC0109000 ((\<lambda>_. 0)(0 := 0xC0200000)) 0xC0201000 0xC0200000))
     \<lparr>hw := \<lambda>_ _. 0x50, mem := set_prev_free 0xC0201000 0xC0200000 (set_next_free 0xC0200000 0xC0201000 (\<lambda>_. 0))\<rparr>"

lemma sample_cache_simps:
  "hw sample_cache = (\<lambda>_ _. 0x50)" "lru_buff sample_cache = 0xC0200000" "mru_buff sample_cache = 0xC0201000"
  "buff_head sample_cache = (\<lambda>_. 0)(0 := 0xC0200000)" "bdevs sample_cache = (\<lambda>_. sample_bdev)"
  "block_head sample_cache = 0xC0109000"
  "mem sample_cache = set_prev_free 0xC0201000 0xC0200000 (set_next_free 0xC0200000 0xC0201000 (\<lambda>_. 0))"
  by (simp_all add: sample_cache_def tasking.extend_def cache.fields_def)

lemma sample_pool_ok: "pool_ok sample_pool"
  by (simp add: pool_ok_def sample_pool_def apart_def)

lemma sample_heads:
  "head (mem sample_cache) 0xC0200000 = \<lparr>h_flags = 0, h_block_num = 0, h_dirty = 0, h_dev = 0, h_count = 0, h_next = 0,
     h_prev = 0, h_next_free = 0xC0201000, h_prev_free = 0\<rparr>"
  "head (mem sample_cache) 0xC0201000 = \<lparr>h_flags = 0, h_block_num = 0, h_dirty = 0, h_dev = 0, h_count = 0, h_next = 0,
     h_prev = 0, h_next_free = 0, h_prev_free = 0xC0200000\<rparr>"
proof -
  have z: "head (\<lambda>_. 0) b = \<lparr>h_flags = 0, h_block_num = 0, h_dirty = 0, h_dev = 0, h_count = 0, h_next = 0,
     h_prev = 0, h_next_free = 0, h_prev_free = 0\<rparr>" for b
    by (simp add: head_def bh_get_defs byte_defs)
  have P: "0xC0200000 \<in> sample_pool" "0xC0201000 \<in> sample_pool" by (simp_all add: sample_pool_def)
  note hs = head_set(7,8) [OF sample_pool_ok]
  show "head (mem sample_cache) 0xC0200000 = \<lparr>h_flags = 0, h_block_num = 0, h_dirty = 0, h_dev = 0, h_count = 0, h_next = 0,
     h_prev = 0, h_next_free = 0xC0201000, h_prev_free = 0\<rparr>"
    "head (mem sample_cache) 0xC0201000 = \<lparr>h_flags = 0, h_block_num = 0, h_dirty = 0, h_dev = 0, h_count = 0, h_next = 0,
     h_prev = 0, h_next_free = 0, h_prev_free = 0xC0200000\<rparr>"
    unfolding sample_cache_simps hs(2) [OF P(2,1)] hs(2) [OF P(2,2)] hs(1) [OF P(1,1)] hs(1) [OF P(1,2)] z by simp_all
qed

lemma sample_cache_inv: "cache_inv sample_pool sample_cache"
  using sample_pool_ok by (simp add: cache_inv_def links_ok_def sample_pool_def sample_heads sample_cache_simps(1-6))

lemma sample_bdev_of: "bdev_of sample_cache dev = Some 0xC0109000" if "MINOR_NUMBER dev = 0"
  using that by (simp add: bdev_of_def sample_cache_simps find_bdev_loop.simps sample_bdev_def)

lemma sample_get:
  assumes "MINOR_NUMBER dev = 0" and "block \<noteq> 0 \<or> dev \<noteq> 0"
  shows "find_buffer (mem sample_cache) block dev (buff_head sample_cache (ucast block)) = Some 0"
    "\<exists>t. get_block block dev sample_cache = Done 0xC0200000 t"
proof -
  show f: "find_buffer (mem sample_cache) block dev (buff_head sample_cache (ucast block)) = Some 0"
    using assms(2) by (auto simp: sample_cache_simps(1-6) find_buffer.simps bh_head sample_heads)
  have "bh_dirty (mem (take_lru sample_cache)) (lru_buff sample_cache) \<noteq> 1"
    using take_lru_effect(10) [OF sample_cache_inv] by (simp add: bh_head sample_heads sample_cache_simps(1-6) sample_pool_def)
  from get_miss_returns [OF _ _ sample_bdev_of [OF assms(1)] _ this, of block] f
  show "\<exists>t. get_block block dev sample_cache = Done 0xC0200000 t"
    by (simp add: sample_cache_simps(1-6) get_block_def)
qed

theorem cache_pointers_safe_witness:
  "\<exists>t. run_calls cache_call_run [Get 2 0x300] sample_cache = Done [0xC0200000] t \<and> cache_inv sample_pool t"
proof -
  obtain t where "get_block 2 0x300 sample_cache = Done 0xC0200000 t"
    using sample_get(2) [where dev = "0x300" and block = 2] by (auto simp: MINOR_NUMBER_def)
  then have t: "run_calls cache_call_run [Get 2 0x300] sample_cache = Done [0xC0200000] t" by simp
  from cache_pointers_safe [OF sample_cache_inv _ t] t show ?thesis by auto
qed

theorem get_block_loads_block_witness:
  "\<exists>t ws. get_block 2 0x300 sample_cache = Done 0xC0200000 t \<and> length ws = 256 \<and>
     contents (mem t) 0xC0200000 = concat (map word_bytes ws)"
proof -
  obtain t where t: "get_block 2 0x300 sample_cache = Done 0xC0200000 t"
    using sample_get(2) [where dev = "0x300" and block = 2] by (auto simp: MINOR_NUMBER_def)
  have "find_buffer (mem sample_cache) 2 0x300 (buff_head sample_cache (ucast (2 :: u32))) = Some 0"
    by (rule sample_get(1)) (simp_all add: MINOR_NUMBER_def)
  from get_block_loads_block [OF sample_cache_inv this t] t show ?thesis by (auto simp: read_sector_def)
qed

theorem get_block_cached_witness:
  "\<exists>t u. get_block 2 0x300 sample_cache = Done 0xC0200000 t \<and> get_block 2 0x300 t = Done 0xC0200000 (u :: cache) \<and>
     io_log u = io_log t"
proof -
  obtain t where t: "get_block 2 0x300 sample_cache = Done 0xC0200000 t"
    using sample_get(2) [where dev = "0x300" and block = 2] by (auto simp: MINOR_NUMBER_def)
  have f: "find_buffer (mem sample_cache) 2 0x300 (buff_head sample_cache (ucast (2 :: u32))) = Some 0"
    by (rule sample_get(1)) (simp_all add: MINOR_NUMBER_def)
  then have "get_miss 2 0x300 sample_cache = Done 0xC0200000 t" using t by (simp add: get_block_def)
  then have "bh_count (mem t) 0xC0200000 = h_count (head (mem sample_cache) 0xC0200000) + 1"
    unfolding bh_head by (rule get_miss_effect [OF sample_cache_inv])
  then have "bh_count (mem t) 0xC0200000 \<noteq> 0" by (simp add: sample_heads)
  from get_block_cached [OF sample_cache_inv t this] t show ?thesis by blast
qed

theorem get_block_cyclic_chain_witness:
  "\<exists>t. get_block 256 0x300 sample_cache = Done 0xC0200000 t \<and> get_block 512 0x300 t = Diverged"
proof -
  obtain t where t: "get_block 256 0x300 sample_cache = Done 0xC0200000 t"
    using sample_get(2) [where dev = "0x300" and block = 256] by (auto simp: MINOR_NUMBER_def)
  have "find_buffer (mem sample_cache) 256 0x300 (buff_head sample_cache (ucast (256 :: u32))) = Some 0"
    by (rule sample_get(1)) (simp_all add: MINOR_NUMBER_def)
  from get_block_cyclic_chain [OF sample_cache_inv this _ t, of 512 "0x300"] t show ?thesis
    by (auto simp: sample_cache_simps(1-6))
qed

text \<open>A cleared heap of 60 KiB under the cache.\<close>

definition sample_fresh :: cache where
  "sample_fresh = sample_cache\<lparr>mem := mem sample_heap, first := 0xC0113000\<rparr>"

lemma sample_fresh_ok: "heap_ok sample_fresh [(False, 0xEFF0)]"
  using sample_heap_ok by (simp add: sample_fresh_def heap_ok_def heap_rep_def)

theorem init_buffer_builds_pool_witness:
  "\<exists>t. init_buffer sample_fresh = Done () t \<and> cache_inv (buf_pool 0xC0113000) t \<and> lru_buff t = 0xC0113010"
proof -
  have f: "unat (first sample_fresh) = 0xC0113000" by (simp add: sample_fresh_def)
  have "bh_next (mem sample_fresh) (buf_addr 0xC0113000 99) = 0" "bh_next_free (mem sample_fresh) (buf_addr 0xC0113000 99) = 0"
    by (simp_all add: sample_fresh_def sample_heap_def buf_addr_def bh_get_defs rd32_def header_defs wr32_def)
  from init_buffer_builds_pool [OF sample_fresh_ok, unfolded f, OF _ this] show ?thesis
    by (auto simp: buf_addr_def)
qed

end
