(* ===== verification/Vfs.thy ===== *)
theory Vfs
  imports Buffer
begin

unbundle bit_operations_syntax

text \<open>
  The virtual file system, \<^verbatim>\<open>src/fs/vfs/vfs.c\<close>, with the structures of
  \<^verbatim>\<open>include/fs/vfs/vfs.h\<close> at their offsets in byte memory. A pointer to a pointer to a file
  system type, as \<^verbatim>\<open>find_file_system\<close> returns it, is a \<open>fs_link\<close>: the list head or the
  \<^verbatim>\<open>next\<close> field of an element. The \<^verbatim>\<open>read_super\<close> function behind a function pointer is a
  parameter of \<^verbatim>\<open>init_fs\<close>, given by the address called.
\<close>

section \<open>Structures\<close>

record vfs = cache +
  file_systems :: u32
  sb_head :: u32
  i_head :: u32
  d_head :: u32

text \<open>\<^verbatim>\<open>struct file_system_type\<close>, 12 bytes\<close>

definition fs_read_super :: "memory \<Rightarrow> u32 \<Rightarrow> u32" where "fs_read_super m f = rd32 m f"
definition fs_name :: "memory \<Rightarrow> u32 \<Rightarrow> u32" where "fs_name m f = rd32 m (f + 4)"
definition fs_next :: "memory \<Rightarrow> u32 \<Rightarrow> u32" where "fs_next m f = rd32 m (f + 8)"
definition set_fs_next :: "u32 \<Rightarrow> u32 \<Rightarrow> memory \<Rightarrow> memory" where "set_fs_next f v m = wr32 m (f + 8) v"

text \<open>\<^verbatim>\<open>struct super_block\<close>, 24 bytes\<close>

definition sb_dev :: "memory \<Rightarrow> u32 \<Rightarrow> u16" where "sb_dev m sb = rd16 m sb"
definition sb_fs_type :: "memory \<Rightarrow> u32 \<Rightarrow> u32" where "sb_fs_type m sb = rd32 m (sb + 4)"
definition sb_root :: "memory \<Rightarrow> u32 \<Rightarrow> u32" where "sb_root m sb = rd32 m (sb + 16)"
definition sb_next :: "memory \<Rightarrow> u32 \<Rightarrow> u32" where "sb_next m sb = rd32 m (sb + 20)"
definition set_sb_dev :: "u32 \<Rightarrow> u16 \<Rightarrow> memory \<Rightarrow> memory" where "set_sb_dev sb v m = wr16 m sb v"
definition set_sb_fs_type :: "u32 \<Rightarrow> u32 \<Rightarrow> memory \<Rightarrow> memory" where "set_sb_fs_type sb v m = wr32 m (sb + 4) v"
definition set_sb_ops :: "u32 \<Rightarrow> u32 \<Rightarrow> memory \<Rightarrow> memory" where "set_sb_ops sb v m = wr32 m (sb + 8) v"
definition set_sb_root :: "u32 \<Rightarrow> u32 \<Rightarrow> memory \<Rightarrow> memory" where "set_sb_root sb v m = wr32 m (sb + 16) v"
definition set_sb_next :: "u32 \<Rightarrow> u32 \<Rightarrow> memory \<Rightarrow> memory" where "set_sb_next sb v m = wr32 m (sb + 20) v"

text \<open>\<^verbatim>\<open>struct inode\<close>, 52 bytes\<close>

definition i_dev :: "memory \<Rightarrow> u32 \<Rightarrow> u32" where "i_dev m i = rd32 m i"
definition i_no :: "memory \<Rightarrow> u32 \<Rightarrow> u32" where "i_no m i = rd32 m (i + 4)"
definition i_size :: "memory \<Rightarrow> u32 \<Rightarrow> u32" where "i_size m i = rd32 m (i + 8)"
definition i_sb :: "memory \<Rightarrow> u32 \<Rightarrow> u32" where "i_sb m i = rd32 m (i + 16)"
definition i_flags :: "memory \<Rightarrow> u32 \<Rightarrow> u32" where "i_flags m i = rd32 m (i + 28)"
definition set_i_dev :: "u32 \<Rightarrow> u32 \<Rightarrow> memory \<Rightarrow> memory" where "set_i_dev i v m = wr32 m i v"
definition set_i_no :: "u32 \<Rightarrow> u32 \<Rightarrow> memory \<Rightarrow> memory" where "set_i_no i v m = wr32 m (i + 4) v"
definition set_i_size :: "u32 \<Rightarrow> u32 \<Rightarrow> memory \<Rightarrow> memory" where "set_i_size i v m = wr32 m (i + 8) v"
definition set_i_ops :: "u32 \<Rightarrow> u32 \<Rightarrow> memory \<Rightarrow> memory" where "set_i_ops i v m = wr32 m (i + 12) v"
definition set_i_sb :: "u32 \<Rightarrow> u32 \<Rightarrow> memory \<Rightarrow> memory" where "set_i_sb i v m = wr32 m (i + 16) v"
definition set_i_gid :: "u32 \<Rightarrow> u32 \<Rightarrow> memory \<Rightarrow> memory" where "set_i_gid i v m = wr32 m (i + 20) v"
definition set_i_uid :: "u32 \<Rightarrow> u32 \<Rightarrow> memory \<Rightarrow> memory" where "set_i_uid i v m = wr32 m (i + 24) v"
definition set_i_flags :: "u32 \<Rightarrow> u32 \<Rightarrow> memory \<Rightarrow> memory" where "set_i_flags i v m = wr32 m (i + 28) v"
definition set_i_permissions :: "u32 \<Rightarrow> u32 \<Rightarrow> memory \<Rightarrow> memory" where "set_i_permissions i v m = wr32 m (i + 32) v"
definition set_i_mount_point :: "u32 \<Rightarrow> u8 \<Rightarrow> memory \<Rightarrow> memory" where "set_i_mount_point i v m = m(i + 36 := v)"
definition set_i_counter :: "u32 \<Rightarrow> u32 \<Rightarrow> memory \<Rightarrow> memory" where "set_i_counter i v m = wr32 m (i + 40) v"
definition set_i_next :: "u32 \<Rightarrow> u32 \<Rightarrow> memory \<Rightarrow> memory" where "set_i_next i v m = wr32 m (i + 44) v"

text \<open>\<^verbatim>\<open>struct file\<close>, 12 bytes, and \<^verbatim>\<open>struct dentry\<close>, 32 bytes\<close>

definition f_inode :: "memory \<Rightarrow> u32 \<Rightarrow> u32" where "f_inode m f = rd32 m f"
definition set_f_inode :: "u32 \<Rightarrow> u32 \<Rightarrow> memory \<Rightarrow> memory" where "set_f_inode f v m = wr32 m f v"
definition set_f_pos :: "u32 \<Rightarrow> u32 \<Rightarrow> memory \<Rightarrow> memory" where "set_f_pos f v m = wr32 m (f + 8) v"
definition set_d_name :: "u32 \<Rightarrow> u32 \<Rightarrow> memory \<Rightarrow> memory" where "set_d_name d v m = wr32 m d v"
definition set_d_inode :: "u32 \<Rightarrow> u32 \<Rightarrow> memory \<Rightarrow> memory" where "set_d_inode d v m = wr32 m (d + 4) v"
definition set_d_next :: "u32 \<Rightarrow> u32 \<Rightarrow> memory \<Rightarrow> memory" where "set_d_next d v m = wr32 m (d + 24) v"
definition set_d_prev :: "u32 \<Rightarrow> u32 \<Rightarrow> memory \<Rightarrow> memory" where "set_d_prev d v m = wr32 m (d + 28) v"

section \<open>Lists of inodes, directory entries and superblocks\<close>

definition add_inode :: "u32 \<Rightarrow> 'a vfs_scheme \<Rightarrow> 'a vfs_scheme" where
  "add_inode inode s = s\<lparr>mem := set_i_next inode (i_head s) (mem s), i_head := inode\<rparr>"

definition add_dir :: "u32 \<Rightarrow> 'a vfs_scheme \<Rightarrow> ('a vfs_scheme, unit) outcome" where
  "add_dir dentry s =
     (let s = s\<lparr>mem := set_d_next dentry (d_head s) (mem s)\<rparr>
      in if d_head s = 0 then Faulted s
         else Done () (s\<lparr>mem := set_d_prev (d_head s) dentry (mem s), d_head := dentry\<rparr>))"

definition add_sb :: "u32 \<Rightarrow> 'a vfs_scheme \<Rightarrow> 'a vfs_scheme" where
  "add_sb sb s = s\<lparr>mem := set_sb_next sb (sb_head s) (mem s), sb_head := sb\<rparr>"

section \<open>File system types\<close>

datatype fs_link = Fs_head | Fs_next u32

fun load_link :: "fs_link \<Rightarrow> 'a vfs_scheme \<Rightarrow> u32" where
  "load_link Fs_head s = file_systems s"
| "load_link (Fs_next f) s = fs_next (mem s) f"

fun store_link :: "fs_link \<Rightarrow> u32 \<Rightarrow> 'a vfs_scheme \<Rightarrow> 'a vfs_scheme" where
  "store_link Fs_head v s = s\<lparr>file_systems := v\<rparr>"
| "store_link (Fs_next f) v s = s\<lparr>mem := set_fs_next f v (mem s)\<rparr>"

text \<open>The condition under which the search stops at the element \<open>f\<close>.\<close>

definition fs_match :: "memory \<Rightarrow> u32 \<Rightarrow> u8 \<Rightarrow> u32 \<Rightarrow> bool" where
  "fs_match m name len f \<longleftrightarrow> len \<noteq> 0 \<and> strncmp m name (fs_name m f) (ucast len) = 0"

text \<open>The loop of \<^verbatim>\<open>find_file_system\<close>; \<open>cur\<close> is \<^verbatim>\<open>*ptr\<close>. \<open>None\<close> on a cyclic list.\<close>

partial_function (option) find_fs_loop :: "memory \<Rightarrow> u32 \<Rightarrow> u8 \<Rightarrow> fs_link \<Rightarrow> u32 \<Rightarrow> fs_link option" where
  "find_fs_loop m name len ptr cur =
     (if cur = 0 \<or> fs_match m name len cur then Some ptr
      else find_fs_loop m name len (Fs_next cur) (fs_next m cur))"

definition find_file_system :: "u32 \<Rightarrow> u8 \<Rightarrow> 'a vfs_scheme \<Rightarrow> fs_link option" where
  "find_file_system name len s = find_fs_loop (mem s) name len Fs_head (file_systems s)"

text \<open>The length is passed in a byte: \<^verbatim>\<open>strlen(name)\<close> is taken modulo 256.\<close>

definition register_filesystem :: "u32 \<Rightarrow> 'a vfs_scheme \<Rightarrow> ('a vfs_scheme, int) outcome" where
  "register_filesystem fs s =
     (if fs_next (mem s) fs \<noteq> 0 then Done (- 1) s
      else case strlen (mem s) (fs_name (mem s) fs) of
             None \<Rightarrow> Diverged
           | Some n \<Rightarrow>
               (case find_file_system (fs_name (mem s) fs) (ucast n) s of
                  None \<Rightarrow> Diverged
                | Some ptr \<Rightarrow> if load_link ptr s \<noteq> 0 then Done (- 1) s else Done 0 (store_link ptr fs s)))"

text \<open>The loop of \<^verbatim>\<open>unregister_filesystem\<close>: \<open>Some None\<close> when the end is reached.\<close>

partial_function (option) find_fs_entry :: "memory \<Rightarrow> u32 \<Rightarrow> fs_link \<Rightarrow> u32 \<Rightarrow> fs_link option option" where
  "find_fs_entry m fs ptr cur =
     (if cur = 0 then Some None
      else if cur = fs then Some (Some ptr)
      else find_fs_entry m fs (Fs_next cur) (fs_next m cur))"

definition unregister_filesystem :: "u32 \<Rightarrow> 'a vfs_scheme \<Rightarrow> ('a vfs_scheme, int) outcome" where
  "unregister_filesystem fs s =
     (case find_fs_entry (mem s) fs Fs_head (file_systems s) of
        None \<Rightarrow> Diverged
      | Some None \<Rightarrow> Done (- 1) s
      | Some (Some ptr) \<Rightarrow>
          let s = store_link ptr (fs_next (mem s) fs) s
          in Done 0 (s\<lparr>mem := set_fs_next fs 0 (mem s)\<rparr>))"

partial_function (option) find_sb_loop :: "memory \<Rightarrow> u32 \<Rightarrow> u32 \<Rightarrow> u32 option" where
  "find_sb_loop m fs_type sb =
     (if sb = 0 then Some 0
      else if sb_fs_type m sb = fs_type then Some sb
      else find_sb_loop m fs_type (sb_next m sb))"

definition find_super_block :: "u32 \<Rightarrow> 'a vfs_scheme \<Rightarrow> ('a vfs_scheme, u32) outcome" where
  "find_super_block name s =
     (case strlen (mem s) name of
        None \<Rightarrow> Diverged
      | Some n \<Rightarrow>
          (case find_file_system name (ucast n) s of
             None \<Rightarrow> Diverged
           | Some ptr \<Rightarrow>
               let fs_type = load_link ptr s
               in if fs_type = 0 then Done 0 s
                  else case find_sb_loop (mem s) fs_type (sb_head s) of None \<Rightarrow> Diverged | Some sb \<Rightarrow> Done sb s))"

section \<open>Mounting the root file system\<close>

text \<open>\<open>read_super fn sb dev s\<close>: the call of the function at address \<open>fn\<close> with these arguments.\<close>

definition init_fs ::
    "(u32 \<Rightarrow> u32 \<Rightarrow> u16 \<Rightarrow> 'a vfs_scheme \<Rightarrow> ('a vfs_scheme, u32) outcome) \<Rightarrow> u32 \<Rightarrow> u16 \<Rightarrow> 'a vfs_scheme \<Rightarrow>
     ('a vfs_scheme, unit) outcome" where
  "init_fs read_super root_fs dev s =
     obind (register_filesystem root_fs s) (\<lambda>_ s.
     let s = tty_update (terminal_printhex32 (fs_read_super (mem s) root_fs)) s
     in obind (kmalloc 24 s) (\<lambda>p s.
     let s = s\<lparr>sb_head := p\<rparr>;
         s = s\<lparr>mem := set_sb_dev (sb_head s) dev (mem s)\<rparr>
     in obind (read_super (fs_read_super (mem s) root_fs) (sb_head s) (sb_dev (mem s) (sb_head s)) s) (\<lambda>_ s.
     let s = tty_update (terminal_writestring ''in init_fs'') s
     in if sb_root (mem s) (sb_head s) = 0 then kpanic ''no root inode'' s
        else let s = s\<lparr>i_head := sb_root (mem s) (sb_head s)\<rparr>
             in obind (kmalloc 32 s) (\<lambda>d s.
                let s = s\<lparr>d_head := d\<rparr>;
                    s = s\<lparr>mem := set_d_inode (d_head s) (i_head s) (mem s)\<rparr>
                in Done () (s\<lparr>mem := set_d_name (d_head s) 0 (mem s)\<rparr>)))))"

section \<open>The list of registered file systems\<close>

fun fs_chain :: "memory \<Rightarrow> u32 \<Rightarrow> u32 list \<Rightarrow> bool" where
  "fs_chain m p [] = (p = 0)"
| "fs_chain m p (x # xs) = (p = x \<and> x \<noteq> 0 \<and> fs_chain m (fs_next m x) xs)"

text \<open>The abstract registry: the structures in the order of the list, at disjoint addresses.\<close>

definition disjoint_types :: "u32 list \<Rightarrow> bool" where
  "disjoint_types xs \<longleftrightarrow> 0 \<notin> set xs \<and> sorted_wrt (apart 12) xs"

lemma disjoint_types_Cons:
  "disjoint_types (x # xs) \<longleftrightarrow> x \<noteq> 0 \<and> (\<forall>y \<in> set xs. apart 12 x y) \<and> disjoint_types xs"
  by (auto simp: disjoint_types_def)

lemma disjoint_types_append:
  "disjoint_types (xs @ ys) \<longleftrightarrow> disjoint_types xs \<and> disjoint_types ys \<and> (\<forall>x \<in> set xs. \<forall>y \<in> set ys. apart 12 x y)"
  by (auto simp: disjoint_types_def sorted_wrt_append)

definition registered :: "'a vfs_scheme \<Rightarrow> u32 list \<Rightarrow> bool" where
  "registered s xs \<longleftrightarrow> fs_chain (mem s) (file_systems s) xs \<and> disjoint_types xs"

text \<open>The link at which a search with stopping condition \<open>Q\<close> ends.\<close>

fun search_link :: "(u32 \<Rightarrow> bool) \<Rightarrow> fs_link \<Rightarrow> u32 list \<Rightarrow> fs_link" where
  "search_link Q ptr [] = ptr"
| "search_link Q ptr (x # xs) = (if Q x then ptr else search_link Q (Fs_next x) xs)"

lemma find_fs_loop_eq: "fs_chain m cur xs \<Longrightarrow> find_fs_loop m name len ptr cur = Some (search_link (fs_match m name len) ptr xs)"
  by (induction xs arbitrary: cur ptr) (auto simp: find_fs_loop.simps)

lemma find_fs_entry_eq: "fs_chain m cur xs \<Longrightarrow>
    find_fs_entry m fs ptr cur = Some (if fs \<in> set xs then Some (search_link (\<lambda>x. x = fs) ptr xs) else None)"
  by (induction xs arbitrary: cur ptr) (auto simp: find_fs_entry.simps)

lemma load_search_link:
  assumes "fs_chain (mem s) (load_link ptr s) xs"
  shows "load_link (search_link Q ptr xs) s = (case find Q xs of None \<Rightarrow> 0 | Some x \<Rightarrow> x)"
  using assms by (induction xs arbitrary: ptr) auto

lemma fs_next_set_same [simp]: "fs_next (set_fs_next f v m) f = v"
  by (simp add: fs_next_def set_fs_next_def)

lemma fs_next_set_other: "apart 12 f g \<Longrightarrow> fs_next (set_fs_next f v m) g = fs_next m g"
proof -
  assume "apart 12 f g"
  then have "12 \<le> f - g" "12 \<le> g - f" by (simp_all add: apart_def)
  moreover have "12 \<le> x \<Longrightarrow> 4 \<le> x" for x :: u32 by (rule order_trans [of _ 12]) simp_all
  ultimately show ?thesis by (simp add: fs_next_def set_fs_next_def rd32_wr32_apart apart_def)
qed

lemma fs_chain_set_other:
  "\<forall>x \<in> set xs. apart 12 f x \<Longrightarrow> fs_chain (set_fs_next f v m) p xs = fs_chain m p xs"
  by (induction xs arbitrary: p) (auto simp: fs_next_set_other)

text \<open>Setting the last link of a part of the list to another list.\<close>

lemma fs_chain_splice:
  assumes "fs_chain m p (ys @ ws)" and "ys \<noteq> []" and "disjoint_types ys" and "fs_chain m q zs"
    and "\<forall>z \<in> set zs. apart 12 (last ys) z"
  shows "fs_chain (set_fs_next (last ys) q m) p (ys @ zs)"
  using assms
proof (induction ys arbitrary: p)
  case (Cons x ys)
  show ?case
  proof (cases "ys = []")
    case True
    then show ?thesis using Cons.prems by (auto simp: fs_chain_set_other)
  next
    case False
    define l where "l = last ys"
    have "l \<in> set ys" using False by (simp add: l_def)
    then have "apart 12 (last ys) x"
      unfolding l_def [symmetric] using Cons.prems(3) apart_sym by (simp add: disjoint_types_Cons)
    moreover have "disjoint_types ys" using Cons.prems(3) by (simp add: disjoint_types_Cons)
    ultimately show ?thesis using Cons False by (auto simp: fs_next_set_other)
  qed
qed simp

lemma fs_chain_drop: "fs_chain m p (ys @ x # zs) \<Longrightarrow> fs_chain m (fs_next m x) zs"
  by (induction ys arbitrary: p) auto

lemma search_link_None: "find Q xs = None \<Longrightarrow> search_link Q ptr xs = (if xs = [] then ptr else Fs_next (last xs))"
  by (induction xs arbitrary: ptr) auto

lemma search_link_split:
  "fs \<in> set xs \<Longrightarrow> \<exists>ys zs. xs = ys @ fs # zs \<and> fs \<notin> set ys \<and>
     search_link (\<lambda>x. x = fs) ptr xs = (if ys = [] then ptr else Fs_next (last ys))"
proof (induction xs arbitrary: ptr)
  case (Cons x xs)
  show ?case
  proof (cases "x = fs")
    case True
    then show ?thesis by (intro exI [of _ "[]"] exI [of _ xs]) simp
  next
    case False
    then obtain ys zs where "xs = ys @ fs # zs" "fs \<notin> set ys"
      "search_link (\<lambda>x. x = fs) (Fs_next x) xs = (if ys = [] then Fs_next x else Fs_next (last ys))"
      using Cons.IH [of "Fs_next x"] Cons.prems by auto
    then show ?thesis using False by (intro exI [of _ "x # ys"] exI [of _ zs]) auto
  qed
qed simp

lemma fs_match_iff:
  "fs_match m name len f \<longleftrightarrow> len \<noteq> 0 \<and> (\<forall>j < ucast len. m (name + j) = m (fs_name m f + j))"
  by (simp add: fs_match_def strncmp_zero_iff)

section \<open>Properties\<close>

text \<open>C28: Registering a file system type whose \<^verbatim>\<open>next\<close> field is null: if a registered type has a name
  that agrees with the new one on its length (taken modulo 256), the call fails with \<open>-1\<close> and
  changes nothing; otherwise it returns 0 and the list is the old one with the new type at its end.\<close>

theorem register_filesystem_appends:
  assumes "registered s xs" and "disjoint_types (xs @ [fs])" and "fs_next (mem s) fs = 0"
    and len: "strlen (mem s) (fs_name (mem s) fs) = Some n"
  shows "if \<exists>x \<in> set xs. (ucast n :: u8) \<noteq> 0 \<and>
        \<not> (\<exists>j < ucast (ucast n :: u8). mem s (fs_name (mem s) fs + j) \<noteq> mem s (fs_name (mem s) x + j))
     then register_filesystem fs s = Done (- 1) s
     else \<exists>t. register_filesystem fs s = Done 0 t \<and> registered t (xs @ [fs])"
proof -
  let ?Q = "fs_match (mem s) (fs_name (mem s) fs) (ucast n)"
  let ?ptr = "search_link ?Q Fs_head xs"
  have c: "fs_chain (mem s) (file_systems s) xs" and d: "disjoint_types xs" using assms(1) by (simp_all add: registered_def)
  have found: "find_file_system (fs_name (mem s) fs) (ucast n) s = Some ?ptr"
    using find_fs_loop_eq [OF c] by (simp add: find_file_system_def)
  have val: "load_link ?ptr s = (case find ?Q xs of None \<Rightarrow> 0 | Some x \<Rightarrow> x)" using c by (simp add: load_search_link)
  have run: "register_filesystem fs s = (if load_link ?ptr s \<noteq> 0 then Done (- 1) s else Done 0 (store_link ?ptr fs s))"
    using assms(3) len found by (simp add: register_filesystem_def)
  show ?thesis
  proof (cases "find ?Q xs")
    case None
    have "registered (store_link ?ptr fs s) (xs @ [fs])"
    proof (cases "xs = []")
      case True
      then show ?thesis using assms(2,3) None by (auto simp: registered_def disjoint_types_def)
    next
      case False
      define l where "l = last xs"
      have l: "l \<in> set xs" using False by (simp add: l_def)
      have "fs_chain (set_fs_next l fs (mem s)) (file_systems s) (xs @ [fs])"
        unfolding l_def
      proof (rule fs_chain_splice [OF _ False d])
        show "fs_chain (mem s) (file_systems s) (xs @ [])" using c by simp
      qed (use l assms(2,3) in \<open>auto simp: disjoint_types_append disjoint_types_Cons l_def [symmetric]\<close>)
      then show ?thesis using False assms(2) None by (simp add: registered_def search_link_None l_def)
    qed
    moreover have "\<not> (\<exists>x \<in> set xs. ?Q x)" using None by (auto simp: find_None_iff)
    ultimately show ?thesis using run val None by (auto simp: fs_match_iff)
  next
    case (Some x)
    then have "?Q x" "x \<in> set xs" by (auto simp: find_Some_iff)
    moreover have "x \<noteq> 0" using \<open>x \<in> set xs\<close> d by (auto simp: disjoint_types_def)
    ultimately show ?thesis using run val Some by (auto simp: fs_match_iff)
  qed
qed

text \<open>C29: Unregistering removes the type from the list, wherever it stands, clears its
  \<^verbatim>\<open>next\<close> field so that it can be registered again, and returns 0; for a type that is not
  registered it returns \<open>-1\<close> and changes nothing.\<close>

theorem unregister_filesystem_removes:
  assumes "registered s xs"
  shows "if fs \<in> set xs
     then \<exists>t. unregister_filesystem fs s = Done 0 t \<and> registered t (remove1 fs xs) \<and> fs_next (mem t) fs = 0
     else unregister_filesystem fs s = Done (- 1) s"
proof -
  have c: "fs_chain (mem s) (file_systems s) xs" and d: "disjoint_types xs" using assms by (simp_all add: registered_def)
  note entry = find_fs_entry_eq [OF c, of fs Fs_head]
  show ?thesis
  proof (cases "fs \<in> set xs")
    case True
    then obtain ys zs where xs: "xs = ys @ fs # zs" "fs \<notin> set ys" and
      ptr: "search_link (\<lambda>x. x = fs) Fs_head xs = (if ys = [] then Fs_head else Fs_next (last ys))"
      using search_link_split by blast
    have far: "\<forall>x \<in> set (ys @ zs). apart 12 fs x" "disjoint_types (ys @ zs)" "disjoint_types ys"
      using d apart_sym [of 12 fs] by (auto simp: xs disjoint_types_append disjoint_types_Cons)
    have zs: "fs_chain (mem s) (fs_next (mem s) fs) zs" using c unfolding xs by (rule fs_chain_drop)
    let ?t = "store_link (if ys = [] then Fs_head else Fs_next (last ys)) (fs_next (mem s) fs) s"
    have "fs_chain (mem ?t) (file_systems ?t) (ys @ zs)"
    proof (cases "ys = []")
      case False
      define l where "l = last ys"
      have "l \<in> set ys" using False by (simp add: l_def)
      then have "\<forall>z \<in> set zs. apart 12 (last ys) z"
        unfolding l_def [symmetric] using d by (auto simp: xs disjoint_types_append disjoint_types_Cons)
      then show ?thesis using fs_chain_splice [OF c [unfolded xs] False far(3) zs] False by simp
    qed (use zs in simp)
    then have "fs_chain (set_fs_next fs 0 (mem ?t)) (file_systems ?t) (ys @ zs)"
      using fs_chain_set_other [OF far(1)] by blast
    then show ?thesis
      using True entry ptr far(2) xs
      by (auto simp: unregister_filesystem_def registered_def remove1_append Let_def)
  next
    case False
    then show ?thesis using entry by (simp add: unregister_filesystem_def)
  qed
qed

section \<open>Witnesses\<close>

text \<open>One registered type with name ''e'' and another structure with name ''d''.\<close>

definition sample_vfs :: vfs where
  "sample_vfs = (cache.extend sample_cache (vfs.fields 0xC0110000 0 0 0))
     \<lparr>mem := wr32 (wr32 ((\<lambda>_. 0)(0xC0110100 := 0x65, 0xC0110200 := 0x64)) 0xC0110004 0xC0110100) 0xC0110024 0xC0110200\<rparr>"

lemma sample_vfs_mem:
  "mem sample_vfs = wr32 (wr32 ((\<lambda>_. 0)(0xC0110100 := 0x65, 0xC0110200 := 0x64)) 0xC0110004 0xC0110100) 0xC0110024 0xC0110200"
  "file_systems sample_vfs = 0xC0110000"
  by (simp_all add: sample_vfs_def cache.extend_def vfs.fields_def)

lemma sample_vfs_bytes:
  "fs_name (mem sample_vfs) 0xC0110000 = 0xC0110100" "fs_name (mem sample_vfs) 0xC0110020 = 0xC0110200"
  "fs_next (mem sample_vfs) 0xC0110000 = 0" "fs_next (mem sample_vfs) 0xC0110020 = 0"
  "mem sample_vfs 0xC0110100 = 0x65" "mem sample_vfs 0xC0110200 = 0x64" "mem sample_vfs 0xC0110201 = 0"
  unfolding sample_vfs_mem by (simp_all add: fs_name_def fs_next_def rd32_def wr32_def)

lemma sample_registered: "registered sample_vfs [0xC0110000]"
  by (simp add: registered_def disjoint_types_def sample_vfs_bytes sample_vfs_mem(2))

lemma sample_vfs_strlen: "strlen (mem sample_vfs) (fs_name (mem sample_vfs) 0xC0110020) = Some 1"
  by (rule strlen_Some) (simp_all add: sample_vfs_bytes word_less_nat_alt unat_eq_0)

theorem register_filesystem_appends_witness:
  "\<exists>t. register_filesystem 0xC0110020 sample_vfs = Done 0 t \<and> registered t [0xC0110000, 0xC0110020]"
proof -
  have "disjoint_types ([0xC0110000] @ [0xC0110020])" by (simp add: disjoint_types_def apart_def)
  from register_filesystem_appends [OF sample_registered this _ sample_vfs_strlen] sample_vfs_bytes
  show ?thesis by (force simp: word_gt_0)
qed

theorem unregister_filesystem_removes_witness:
  "\<exists>t. unregister_filesystem 0xC0110000 sample_vfs = Done 0 t \<and> registered t []"
  using unregister_filesystem_removes [OF sample_registered, of "0xC0110000"] by auto

end
