(* ===== verification/Devfs.thy ===== *)
theory Devfs
  imports Vfs
begin

unbundle bit_operations_syntax

text \<open>
  The device file system, \<^verbatim>\<open>src/fs/devfs/devfs.c\<close>: reading and writing a block device at any
  byte position through the buffer cache, and the inode, file and superblock operations on top.
  Addresses of static objects and of string literals are fixed by the linker: they are fields of
  the state that no operation changes. The byte-copying loops are the loop of \<^verbatim>\<open>memcpy\<close>.
\<close>

section \<open>State\<close>

record devfs = vfs +
  devfs_sb :: u32
  devfs_root :: u32
  devfs_inode_ops :: u32
  devfs_super_ops :: u32
  literal :: "string \<Rightarrow> u32"

definition MAJOR_NUMBER :: "u32 \<Rightarrow> u8" where "MAJOR_NUMBER flags = ucast (drop_bit 8 flags)"
definition BLOCK_SIZE :: u32 where "BLOCK_SIZE = 512"

section \<open>Block device transfers\<close>

text \<open>The number of bytes a round of the loops moves: \<^verbatim>\<open>(count < BLOCK_SIZE) ? count : BLOCK_SIZE\<close>.\<close>

definition round_chars :: "int \<Rightarrow> int" where
  "round_chars count = (if count < 512 then count else 512)"

text \<open>\<open>pos\<close> is the address of the position; \<open>read\<close> counts the bytes moved so far.\<close>

function bdev_read_loop ::
    "u16 \<Rightarrow> u32 \<Rightarrow> int \<Rightarrow> u32 \<Rightarrow> u32 \<Rightarrow> u32 \<Rightarrow> u32 \<Rightarrow> 'a cache_scheme \<Rightarrow> ('a cache_scheme, u32) outcome" where
  "bdev_read_loop dev dest count pos block offset read s =
     (if count > 0
      then obind (get_block block dev s) (\<lambda>bh s.
           let chars = of_int (round_chars count);
               ptr = offset + bh_buff bh;
               m = wr32 (mem s) pos (rd32 (mem s) pos + chars);
               m = memcpy_loop m dest ptr chars
           in obind (put_block bh (s\<lparr>mem := m\<rparr>)) (\<lambda>_ s.
                bdev_read_loop dev (dest + chars) (count - round_chars count) pos (block + 1) 0 (read + chars) s))
      else Done read s)"
  by pat_completeness auto
termination
  by (relation "measure (\<lambda>(dev, dest, count, pos, block, offset, read, s). nat count)") (auto simp: round_chars_def)

function bdev_write_loop ::
    "u16 \<Rightarrow> u32 \<Rightarrow> int \<Rightarrow> u32 \<Rightarrow> u32 \<Rightarrow> u32 \<Rightarrow> u32 \<Rightarrow> 'a cache_scheme \<Rightarrow> ('a cache_scheme, u32) outcome" where
  "bdev_write_loop dev src count pos block offset written s =
     (if count > 0
      then obind (get_block block dev s) (\<lambda>bh s.
           let m = set_dirty bh 1 (mem s);
               chars = of_int (round_chars count);
               ptr = offset + bh_buff bh;
               m = wr32 m pos (rd32 m pos + chars);
               m = memcpy_loop m ptr src chars
           in obind (put_block bh (s\<lparr>mem := m\<rparr>)) (\<lambda>_ s.
                bdev_write_loop dev (src + chars) (count - round_chars count) pos (block + 1) 0 (written + chars) s))
      else Done written s)"
  by pat_completeness auto
termination
  by (relation "measure (\<lambda>(dev, src, count, pos, block, offset, written, s). nat count)") (auto simp: round_chars_def)

declare bdev_read_loop.simps [simp del] bdev_write_loop.simps [simp del]

definition bdev_read :: "u16 \<Rightarrow> u32 \<Rightarrow> int \<Rightarrow> u32 \<Rightarrow> 'a cache_scheme \<Rightarrow> ('a cache_scheme, u32) outcome" where
  "bdev_read dev dest count pos s =
     bdev_read_loop dev dest count pos (rd32 (mem s) pos div BLOCK_SIZE) (rd32 (mem s) pos mod BLOCK_SIZE) 0 s"

definition bdev_write :: "u16 \<Rightarrow> u32 \<Rightarrow> int \<Rightarrow> u32 \<Rightarrow> 'a cache_scheme \<Rightarrow> ('a cache_scheme, u32) outcome" where
  "bdev_write dev src count pos s =
     bdev_write_loop dev src count pos (rd32 (mem s) pos div BLOCK_SIZE) (rd32 (mem s) pos mod BLOCK_SIZE) 0 s"

section \<open>Inodes, files and the superblock\<close>

text \<open>The loop of \<^verbatim>\<open>devfs_read_inode\<close> over the block devices.\<close>

partial_function (option) copy_permissions :: "(u32 \<Rightarrow> bdev) \<Rightarrow> u32 \<Rightarrow> u32 \<Rightarrow> memory \<Rightarrow> memory option" where
  "copy_permissions devs dest ptr m =
     (if ptr = 0 then Some m
      else copy_permissions devs dest (bdev_next (devs ptr))
             (if (ucast (i_no m dest) :: u8) = minor (devs ptr) then set_i_permissions dest (permissions (devs ptr)) m else m))"

text \<open>
  The test for block devices is \<^verbatim>\<open>MAJOR_NUMBER(dest->i_no == BLOCK_DEV)\<close>, which the macro expands to
  \<^verbatim>\<open>((uint8_t)(dest->i_no == BLOCK_DEV >> 8))\<close>.
\<close>

definition devfs_read_inode :: "u32 \<Rightarrow> 'a devfs_scheme \<Rightarrow> ('a devfs_scheme, unit) outcome" where
  "devfs_read_inode dest s =
     (let m = set_i_ops dest (devfs_inode_ops s) (mem s);
          m = set_i_sb dest (devfs_sb s) m;
          m = set_i_ops dest (devfs_inode_ops s) m
      in case (if i_no m dest > 0 \<and> (of_bool (i_no m dest = ucast (drop_bit 8 BLOCK_DEV)) :: u8) \<noteq> 0
               then copy_permissions (bdevs s) dest (block_head s) m else Some m) of
           None \<Rightarrow> Diverged
         | Some m \<Rightarrow> Done () (s\<lparr>mem := set_i_counter dest 0 (set_i_mount_point dest 0 m)\<rparr>))"

definition devfs_read :: "u32 \<Rightarrow> u32 \<Rightarrow> u32 \<Rightarrow> u32 \<Rightarrow> 'a devfs_scheme \<Rightarrow> ('a devfs_scheme, u32) outcome" where
  "devfs_read filp dest count pos s =
     (let n = i_no (mem s) (f_inode (mem s) filp)
      in if MAJOR_NUMBER n = ucast BLOCK_DEV then bdev_read (ucast n) dest (sint count) pos s
         else kpanic ''in devfs read only supports block devices'' s)"

definition devfs_write :: "u32 \<Rightarrow> u32 \<Rightarrow> u32 \<Rightarrow> u32 \<Rightarrow> 'a devfs_scheme \<Rightarrow> ('a devfs_scheme, u32) outcome" where
  "devfs_write filp src count pos s =
     (let n = i_no (mem s) (f_inode (mem s) filp)
      in if MAJOR_NUMBER n = ucast BLOCK_DEV then bdev_write (ucast n) src (sint count) pos s
         else kpanic ''in devfs write: unsupported'' s)"

definition devfs_open :: "u32 \<Rightarrow> u32 \<Rightarrow> 'a devfs_scheme \<Rightarrow> int \<times> 'a devfs_scheme" where
  "devfs_open inode filp s = (0, s\<lparr>mem := set_f_inode filp inode (set_f_pos filp 0 (mem s))\<rparr>)"

definition devfs_release :: "u32 \<Rightarrow> u32 \<Rightarrow> 'a devfs_scheme \<Rightarrow> int \<times> 'a devfs_scheme" where
  "devfs_release inode filp s = (0, s)"

definition devfs_read_super :: "u32 \<Rightarrow> 'a devfs_scheme \<Rightarrow> ('a devfs_scheme, unit) outcome" where
  "devfs_read_super sb s =
     obind (if sb_fs_type (mem s) sb = 0
            then (case find_file_system (literal s ''devfs'') 5 s of
                    None \<Rightarrow> Diverged
                  | Some ptr \<Rightarrow> Done () (s\<lparr>mem := set_sb_fs_type sb (load_link ptr s) (mem s)\<rparr>))
            else Done () s) (\<lambda>_ s.
     obind (devfs_read_inode (devfs_root s) s) (\<lambda>_ s.
       let m = set_i_no (devfs_root s) 0 (mem s);
           m = set_sb_root sb (devfs_root s) m;
           m = set_sb_ops sb (devfs_super_ops s) m
       in Done () (s\<lparr>mem := m, devfs_sb := sb\<rparr>)))"

section \<open>Copies into and out of the pool\<close>

text \<open>A region of \<open>n\<close> bytes at \<open>a\<close> that meets no buffer of the pool, and memories that agree on the pool.\<close>

definition outside :: "u32 set \<Rightarrow> u32 \<Rightarrow> nat \<Rightarrow> bool" where
  "outside P a n \<longleftrightarrow> (\<forall>k < n. \<forall>b \<in> P. 544 \<le> a + of_nat k - b)"

definition pool_same :: "u32 set \<Rightarrow> memory \<Rightarrow> memory \<Rightarrow> bool" where
  "pool_same P m m' \<longleftrightarrow> (\<forall>b \<in> P. \<forall>k < 544. m' (b + k) = m (b + k))"

lemma pool_same_trans: "pool_same P m m' \<Longrightarrow> pool_same P m' m'' \<Longrightarrow> pool_same P m m''"
  by (simp add: pool_same_def)

lemma pool_same_head: "pool_same P m m' \<Longrightarrow> b \<in> P \<Longrightarrow> head m' b = head m b"
proof (rule head_cong)
  fix k :: u32
  assume "pool_same P m m'" "b \<in> P" "k < 32"
  moreover from \<open>k < 32\<close> have "k < 544" by (rule less_trans) simp
  ultimately show "m' (b + k) = m (b + k)" by (simp add: pool_same_def)
qed

lemma cache_inv_heads:
  assumes "cache_inv P s" and "\<forall>b \<in> P. head m b = head (mem s) b"
  shows "cache_inv P (s\<lparr>mem := m\<rparr>)"
  using assms by (simp add: cache_inv_def links_ok_def)

lemma outside_not_in:
  assumes "outside P a n" and "b \<in> P" and "k < 544" and "n < 2 ^ 32"
  shows "of_nat n \<le> b + k - a"
proof (rule ccontr)
  assume "\<not> of_nat n \<le> b + k - a"
  then have "unat (b + k - a) < n" using assms(4) by (simp add: word_less_nat_alt not_le unat_of_nat)
  then have "544 \<le> a + of_nat (unat (b + k - a)) - b" using assms(1,2) unfolding outside_def by blast
  then have "544 \<le> k" by simp
  then show False using assms(3) by simp
qed

lemma pool_same_wr32:
  assumes "outside P a 4"
  shows "pool_same P m (wr32 m a v)"
  using outside_not_in [OF assms] by (simp add: pool_same_def wr32_other)

lemma memcpy_loop_frame: "count \<le> x - dest \<Longrightarrow> memcpy_loop m dest src count x = m x"
proof (induction m dest src count rule: memcpy_loop.induct)
  case (1 m dest src count)
  show ?case
  proof (cases "count = 0")
    case True
    then show ?thesis by (simp add: memcpy_loop.simps)
  next
    case False
    then have "x \<noteq> dest" "count - 1 \<le> x - (dest + 1)"
      using "1.prems" block_Suc [OF False, of x dest] by (auto simp: not_less [symmetric])
    then show ?thesis
      using 1 False by (simp add: memcpy_loop.simps [of m dest src count] word_gt_0 fun_upd_def)
  qed
qed

lemma pool_same_memcpy:
  assumes "outside P dest n" and "n < 2 ^ 32"
  shows "pool_same P m (memcpy_loop m dest src (of_nat n))"
  using outside_not_in [OF assms(1) _ _ assms(2)] by (simp add: pool_same_def memcpy_loop_frame)

text \<open>Copying between a region outside the pool and part of a buffer never overlaps.\<close>

lemma in_buffer: "off + k < 512 \<Longrightarrow> 32 + (of_nat (off + k) :: u32) < 544"
  by (simp add: word_less_nat_alt unat_word_ariths unat_of_nat del: of_nat_add)

lemma outside_buffer:
  assumes "544 \<le> x - b" and "off + n \<le> 512"
  shows "of_nat n \<le> x - (of_nat off + bh_buff b)"
proof (rule ccontr)
  assume neg: "\<not> of_nat n \<le> x - (of_nat off + bh_buff b)"
  define j where "j = unat (x - (of_nat off + bh_buff b))"
  have "n < 2 ^ 32" using assms(2) by simp
  then have "j < n" using neg by (simp add: j_def not_le word_less_nat_alt unat_of_nat)
  then have "32 + (of_nat (off + j) :: u32) < 544" using assms(2) by (intro in_buffer) simp
  moreover have "x - b = 32 + of_nat (off + j)" by (simp add: j_def bh_buff_def)
  ultimately show False using assms(1) by simp
qed

lemma copy_out_eq:
  assumes "outside P dest n" and "b \<in> P" and "off + n \<le> 512" and "k < n"
  shows "memcpy_loop m dest (of_nat off + bh_buff b) (of_nat n) (dest + of_nat k) = m (bh_buff b + of_nat (off + k))"
proof -
  have n: "n < 2 ^ 32" using assms(3) by simp
  have "544 \<le> dest - b" using assms(1,2,4) by (auto simp: outside_def dest!: spec [of _ 0])
  then have "of_nat n \<le> dest - (of_nat off + bh_buff b)" using assms(3) by (rule outside_buffer)
  note e = memcpy_loop_eq [OF disjI1 [OF this], of m]
  have "(of_nat k :: u32) < of_nat n" using assms(4) n by (simp add: word_less_nat_alt unat_of_nat)
  then have "memcpy_loop m dest (of_nat off + bh_buff b) (of_nat n) (dest + of_nat k) = m (of_nat off + bh_buff b + of_nat k)"
    by (simp add: e)
  moreover have "of_nat off + bh_buff b + of_nat k = bh_buff b + of_nat (off + k)" by simp
  ultimately show ?thesis by (simp only:)
qed

lemma copy_in_eq:
  fixes m :: memory
  assumes P: "pool_ok P" and src: "outside P src n" and b: "b \<in> P" and n: "off + n \<le> 512"
  defines "m' \<equiv> memcpy_loop m (of_nat off + bh_buff b) src (of_nat n)"
  shows "c \<in> P \<Longrightarrow> head m' c = head m c"
    and "k < n \<Longrightarrow> m' (bh_buff b + of_nat (off + k)) = m (src + of_nat k)"
proof -
  have n': "n < 2 ^ 32" using n by simp
  have "of_nat n \<le> of_nat off + bh_buff b - src"
  proof (cases "n = 0")
    case False
    have "of_nat off + bh_buff b - src = b + (32 + of_nat (off + 0)) - src" by (simp add: bh_buff_def)
    then show ?thesis using outside_not_in [OF src b in_buffer n', of off 0] n False by (simp add: ac_simps)
  qed simp
  note e = memcpy_loop_eq [OF disjI1 [OF this], of m, folded m'_def]
  show "k < n \<Longrightarrow> m' (bh_buff b + of_nat (off + k)) = m (src + of_nat k)"
    using n' by (auto simp: e word_less_nat_alt unat_of_nat)
  show "head m' c = head m c" if c: "c \<in> P"
  proof (rule head_cong)
    fix k :: u32
    assume k: "k < 32"
    have "of_nat n \<le> c + k - (of_nat off + bh_buff b)"
    proof (rule ccontr)
      assume neg: "\<not> of_nat n \<le> c + k - (of_nat off + bh_buff b)"
      define j where "j = unat (c + k - (of_nat off + bh_buff b))"
      have "j < n" using neg n' by (simp add: j_def not_le word_less_nat_alt unat_of_nat)
      then have lt: "32 + (of_nat (off + j) :: u32) < 544" using n by (intro in_buffer) simp
      have eq: "c + k - b = 32 + of_nat (off + j)" by (simp add: j_def bh_buff_def)
      show False
      proof (cases "c = b")
        case True
        then have "k = 32 + of_nat (off + j)" using eq by simp
        moreover have "off + j < 512" using \<open>j < n\<close> n by simp
        ultimately show False
          using k by (simp add: word_less_nat_alt unat_word_ariths unat_of_nat del: of_nat_add)
      next
        case False
        have "k < 544" using k by (rule less_trans) simp
        moreover have "apart 544 b c" using P b c False by (auto simp: pool_ok_def)
        ultimately have "544 \<le> c + k - b" by (intro apart_offset)
        then show False using lt eq by simp
      qed
    qed
    then show "m' (c + k) = m (c + k)" unfolding m'_def by (rule memcpy_loop_frame)
  qed
qed

section \<open>Transfers inside one block\<close>

lemma round_single: "0 < n \<Longrightarrow> n \<le> 512 \<Longrightarrow> round_chars (int n) = int n"
  by (auto simp: round_chars_def)

lemma transfer_0 [simp]:
  "bdev_read_loop dev dest 0 pos block off k = Done k" "bdev_write_loop dev src 0 pos block off k = Done k"
  by (rule ext, simp add: bdev_read_loop.simps bdev_write_loop.simps)+

lemma bdev_read_single:
  assumes "0 < n" and "n \<le> 512"
  shows "bdev_read dev dest (int n) pos s =
    obind (get_block (rd32 (mem s) pos div 512) dev s) (\<lambda>bh t.
    obind (put_block bh (t\<lparr>mem := memcpy_loop (wr32 (mem t) pos (rd32 (mem t) pos + of_nat n)) dest
        (rd32 (mem s) pos mod 512 + bh_buff bh) (of_nat n)\<rparr>)) (\<lambda>_ u. Done (of_nat n) u))"
  using assms
  by (simp add: bdev_read_def bdev_read_loop.simps [of _ _ "int n"] round_single
      BLOCK_SIZE_def Let_def)

lemma bdev_write_single:
  assumes "0 < n" and "n \<le> 512"
  shows "bdev_write dev src (int n) pos s =
    obind (get_block (rd32 (mem s) pos div 512) dev s) (\<lambda>bh t.
    let m = set_dirty bh 1 (mem t)
    in obind (put_block bh (t\<lparr>mem := memcpy_loop (wr32 m pos (rd32 m pos + of_nat n))
        (rd32 (mem s) pos mod 512 + bh_buff bh) src (of_nat n)\<rparr>)) (\<lambda>_ u. Done (of_nat n) u))"
  using assms
  by (simp add: bdev_write_def bdev_write_loop.simps [of _ _ "int n"] round_single
      BLOCK_SIZE_def Let_def)

text \<open>The count of uses after obtaining a buffer.\<close>

lemma get_block_count:
  fixes s t :: "'a cache_scheme"
  assumes inv: "cache_inv P s" and run: "get_block block dev s = Done b t"
  shows "h_count (head (mem t) b) = h_count (head (mem s) b) + 1"
  using get_block_cases [OF inv run]
proof cases
  case 1
  then show ?thesis using get_hit_effect [OF inv 1(2,3)] by simp
next
  case 2
  show ?thesis by (rule get_miss_effect [OF inv 2(2)])
qed

lemma max_count:
  assumes "c \<noteq> 0" and "c \<noteq> (0xFFFFFFFF :: u32)"
  shows "1 < c + 1"
proof -
  have "unat c \<noteq> 0" using assms(1) by (simp add: unat_eq_0)
  moreover have "unat c \<noteq> 0xFFFFFFFF" using assms(2) by (simp add: word_unat_eq_iff)
  then have "unat (c + 1) = Suc (unat c)" using unat_u32_less [of c] by (simp add: unat_word_ariths)
  ultimately show ?thesis by (simp add: word_less_nat_alt)
qed

lemma use_count:
  fixes c :: u32
  assumes "c < 0xFFFFFFFF"
  shows "(let d = c + 1 in if d > 1 then d - 1 else d) \<noteq> 0" "(let d = c + 1 in if d > 1 then d - 1 else d) \<noteq> 0xFFFFFFFF"
proof -
  have "unat (c + 1) = unat c + 1" using unat_Suc_less [OF assms] by simp
  then have "c + 1 > 1 \<longleftrightarrow> c \<noteq> 0" by (simp add: word_less_nat_alt unat_gt_0)
  then show "(let d = c + 1 in if d > 1 then d - 1 else d) \<noteq> 0" "(let d = c + 1 in if d > 1 then d - 1 else d) \<noteq> 0xFFFFFFFF"
    using assms by (auto simp: Let_def)
qed

text \<open>A buffer that was obtained, marked dirty, filled and released: it can be found again and is in use.\<close>

lemma released_buffer:
  fixes s s1 w t :: "'a cache_scheme"
  assumes inv: "cache_inv P s" and g: "get_block block dev s = Done b s1"
    and h: "\<forall>c \<in> P. head (mem w) c = (if c = b then (head (mem s1) c)\<lparr>h_dirty := 1\<rparr> else head (mem s1) c)"
    and same: "lru_buff w = lru_buff s1" "mru_buff w = mru_buff s1" "buff_head w = buff_head s1"
    and cnt: "\<forall>b \<in> P. bh_count (mem s) b < 0xFFFFFFFF" and put: "put_block b w = Done () t"
  shows "cache_inv P t" "h_count (head (mem t) b) \<noteq> 0" "h_count (head (mem t) b) \<noteq> 0xFFFFFFFF"
    "find_buffer (mem t) block dev (buff_head t (ucast block)) = Some b" "heads_only P (mem w) (mem t)"
proof -
  have b: "b \<in> P" and inv1: "cache_inv P s1" using get_block_safe [OF inv g] by blast+
  have "links_ok P (mem w)" using inv1 h by (simp add: cache_inv_def links_ok_def)
  then have inv2: "cache_inv P w" using inv1 same by (simp add: cache_inv_def)
  note pe = put_block_effect [OF inv2 b put]
  show "cache_inv P t" "heads_only P (mem w) (mem t)" using pe by blast+
  have lab: "\<forall>c \<in> P. label (mem t) c = label (mem s1) c" using pe h by (simp add: label_def)
  show "find_buffer (mem t) block dev (buff_head t (ucast block)) = Some b"
    using find_buffer_cong [OF get_block_found [OF inv g] _ _ lab] inv1 pe same by (simp add: cache_inv_def)
  have c0: "h_count (head (mem s) b) < 0xFFFFFFFF" using cnt b by (simp add: bh_head)
  have "h_count (head (mem t) b) = (let c = h_count (head (mem s) b) + 1 in if c > 1 then c - 1 else c)"
    using pe b h get_block_count [OF inv g] by (simp add: Let_def)
  then show "h_count (head (mem t) b) \<noteq> 0" "h_count (head (mem t) b) \<noteq> 0xFFFFFFFF"
    using use_count [OF c0] by simp_all
qed

text \<open>What a write inside one block leaves behind: the buffer can be found, is in use and holds the bytes.\<close>

lemma bdev_write_leaves:
  fixes s t :: "'a cache_scheme"
  assumes inv: "cache_inv P s" and n: "0 < n" "unat (rd32 (mem s) pos mod 512) + n \<le> 512"
    and out: "outside P src n" "outside P pos 4" "\<forall>k < n. 4 \<le> src + of_nat k - pos"
    and cnt: "\<forall>b \<in> P. bh_count (mem s) b < 0xFFFFFFFF"
    and run: "bdev_write dev src (int n) pos s = Done r t"
  obtains b where "b \<in> P" "cache_inv P t" "r = of_nat n" "h_count (head (mem t) b) \<noteq> 0" "h_count (head (mem t) b) \<noteq> 0xFFFFFFFF"
    "find_buffer (mem t) (rd32 (mem s) pos div 512) dev (buff_head t (ucast (rd32 (mem s) pos div 512))) = Some b"
    "\<forall>k < n. mem t (bh_buff b + of_nat (unat (rd32 (mem s) pos mod 512) + k)) = mem s (src + of_nat k)"
    "\<forall>x. (\<forall>c \<in> P. 544 \<le> x - c) \<and> 4 \<le> x - pos \<longrightarrow> mem t x = mem s x"
proof -
  define block off where "block = rd32 (mem s) pos div 512" and "off = unat (rd32 (mem s) pos mod 512)"
  have off: "rd32 (mem s) pos mod 512 = of_nat off" by (simp add: off_def)
  have P: "pool_ok P" using inv by (simp add: cache_inv_def)
  obtain b s1 m1 m2 where g: "get_block block dev s = Done b s1" and r: "r = of_nat n" and
    m1: "m1 = wr32 (set_dirty b 1 (mem s1)) pos (rd32 (set_dirty b 1 (mem s1)) pos + of_nat n)" and
    m2: "m2 = memcpy_loop m1 (of_nat off + bh_buff b) src (of_nat n)" and put: "put_block b (s1\<lparr>mem := m2\<rparr>) = Done () t"
    using run n by (auto simp: bdev_write_single obind_Done_iff Let_def block_def off)
  have b: "b \<in> P" and inv1: "cache_inv P s1" and po: "pool_only P (mem s) (mem s1)"
    using get_block_safe [OF inv g] by blast+
  have n': "off + n \<le> 512" using n(2) by (simp add: off_def)
  note ci = copy_in_eq [OF P out(1) b n', of _ m1, folded m2]
  have h: "head m2 c = (if c = b then (head (mem s1) c)\<lparr>h_dirty := 1\<rparr> else head (mem s1) c)" if "c \<in> P" for c
    using ci(1) [OF that] pool_same_head [OF pool_same_wr32 [OF out(2)] that] head_set(2) [OF P b that] by (simp add: m1)
  note rb = released_buffer [OF inv g, where w = "s1\<lparr>mem := m2\<rparr>", OF _ _ _ _ cnt put]
  have rel: "cache_inv P t" "h_count (head (mem t) b) \<noteq> 0" "h_count (head (mem t) b) \<noteq> 0xFFFFFFFF"
    "find_buffer (mem t) block dev (buff_head t (ucast block)) = Some b" "heads_only P m2 (mem t)"
    using rb h by simp_all
  have m1x: "m1 x = mem s x" if x: "\<forall>c \<in> P. 544 \<le> x - c" "4 \<le> x - pos" for x
  proof -
    have "32 \<le> x - b" using x(1) b order_trans [of 32 544 "x - b"] by auto
    then have "m1 x = mem s1 x" using x(2) by (simp add: m1 wr32_other bh_set_outside)
    then show ?thesis using po x(1) by (simp add: pool_only_def)
  qed
  have frame: "mem t x = mem s x" if x: "\<forall>c \<in> P. 544 \<le> x - c" "4 \<le> x - pos" for x
  proof -
    have "mem t x = m2 x" using heads_only_pool [OF rel(5)] x(1) by (auto simp: pool_only_def)
    also have "\<dots> = m1 x"
      unfolding m2 using x(1) b n' by (intro memcpy_loop_frame outside_buffer) auto
    finally show ?thesis using m1x [OF x] by simp
  qed
  have "mem t (bh_buff b + of_nat (off + k)) = mem s (src + of_nat k)" if k: "k < n" for k
  proof -
    have "mem t (bh_buff b + of_nat (off + k)) = m2 (bh_buff b + of_nat (off + k))"
      using heads_only_data [OF rel(5) P b, of "off + k"] k n' by simp
    also have "\<dots> = m1 (src + of_nat k)" using ci(2) [OF k] .
    also have "\<dots> = mem s (src + of_nat k)" using out(1,3) k by (intro m1x) (auto simp: outside_def)
    finally show ?thesis .
  qed
  then show ?thesis using that [OF b rel(1) r rel(2,3)] rel(4) frame unfolding block_def off_def by blast
qed

lemma rd32_outside:
  assumes "\<forall>x. (\<forall>c \<in> P. 544 \<le> x - c) \<and> 4 \<le> x - a \<longrightarrow> m' x = m x" and "outside P b 4" and "apart 4 a b"
  shows "rd32 m' b = rd32 m b"
proof -
  have "m' (b + of_nat k) = m (b + of_nat k)" if "k < 4" for k
  proof -
    have "(of_nat k :: u32) < 4" using that by (simp add: word_less_nat_alt unat_of_nat)
    then have "4 \<le> b + of_nat k - a" by (rule apart_offset [OF assms(3)])
    then show ?thesis using assms(1,2) that by (auto simp: outside_def)
  qed
  from this [of 0] this [of 1] this [of 2] this [of 3] show ?thesis by (simp add: rd32_def)
qed

section \<open>Properties\<close>

text \<open>C12: Bytes written to a block device at a position inside one block are read back: after
  \<^verbatim>\<open>bdev_write\<close> of up to the rest of the block, \<^verbatim>\<open>bdev_read\<close> from the same position returns, moves as many
  bytes, delivers exactly the written ones and does not access the drive. (The source, the destination
  and the two position variables lie outside the buffers, and no use count is at its maximum.)\<close>

theorem bdev_write_read_back:
  fixes s t :: "'a cache_scheme"
  assumes inv: "cache_inv P s" and n: "0 < n" "unat (rd32 (mem s) pos mod 512) + n \<le> 512"
    and src: "outside P src n" "outside P pos 4" "\<forall>k < n. 4 \<le> src + of_nat k - pos"
    and dest: "outside P dest n" "outside P pos' 4" and pos': "apart 4 pos pos'" "rd32 (mem s) pos' = rd32 (mem s) pos"
    and cnt: "\<forall>b \<in> P. bh_count (mem s) b < 0xFFFFFFFF"
    and wrote: "bdev_write dev src (int n) pos s = Done r t"
  shows "\<exists>u :: 'a cache_scheme. bdev_read dev dest (int n) pos' t = Done (of_nat n) u \<and> io_log u = io_log t \<and>
    load_bytes (mem u) dest n = load_bytes (mem s) src n"
proof -
  define block off where "block = rd32 (mem s) pos div 512" and "off = unat (rd32 (mem s) pos mod 512)"
  have off: "rd32 (mem s) pos mod 512 = of_nat off" by (simp add: off_def)
  obtain b where b: "b \<in> P" "cache_inv P t" "h_count (head (mem t) b) \<noteq> 0" "h_count (head (mem t) b) \<noteq> 0xFFFFFFFF"
    "find_buffer (mem t) block dev (buff_head t (ucast block)) = Some b"
    "\<forall>k < n. mem t (bh_buff b + of_nat (off + k)) = mem s (src + of_nat k)"
    "\<forall>x. (\<forall>c \<in> P. 544 \<le> x - c) \<and> 4 \<le> x - pos \<longrightarrow> mem t x = mem s x"
    using bdev_write_leaves [OF inv n src cnt wrote] unfolding block_def off_def by metis
  have P: "pool_ok P" "b \<noteq> 0" using b(1,2) by (auto simp: cache_inv_def pool_ok_def)
  have same: "rd32 (mem t) pos' = rd32 (mem s) pos"
    using rd32_outside [OF b(7) dest(2) pos'(1)] pos'(2) by simp
  obtain t1 where hit: "get_hit b block dev t = Done b t1" using b(3) by (simp add: get_hit_def Let_def bh_head)
  note he = get_hit_effect [OF b(2,1) hit]
  define m2 where "m2 = memcpy_loop (wr32 (mem t1) pos' (rd32 (mem t1) pos' + of_nat n)) dest (of_nat off + bh_buff b) (of_nat n)"
  have n': "off + n \<le> 512" "n < 2 ^ 32" "n \<le> 512" using n by (simp_all add: off_def)
  have ps: "pool_same P (mem t1) (wr32 (mem t1) pos' (rd32 (mem t1) pos' + of_nat n))" by (rule pool_same_wr32 [OF dest(2)])
  then have ps2: "pool_same P (mem t1) m2"
    using pool_same_memcpy [OF dest(1) n'(2)] unfolding m2_def by (rule pool_same_trans)
  have c: "bh_count m2 b > 1"
    using he b(1) max_count [OF b(3,4)] unfolding bh_head pool_same_head [OF ps2 b(1)] by simp
  have read: "bdev_read dev dest (int n) pos' t = Done (of_nat n) (t1\<lparr>mem := set_count b (bh_count m2 b - 1) m2\<rparr>)"
    using c n(1) n'(3) b(5) P(2) hit
    by (simp add: bdev_read_single same block_def [symmetric] off get_block_def m2_def [symmetric] put_block_def)
  have "set_count b (bh_count m2 b - 1) m2 (dest + of_nat k) = mem s (src + of_nat k)" if k: "k < n" for k
  proof -
    have "544 \<le> dest + of_nat k - b" using dest(1) k b(1) unfolding outside_def by blast
    then have "32 \<le> dest + of_nat k - b" by (rule order_trans [rotated]) simp
    then have "set_count b (bh_count m2 b - 1) m2 (dest + of_nat k) = m2 (dest + of_nat k)" by (rule bh_set_outside)
    also have "\<dots> = wr32 (mem t1) pos' (rd32 (mem t1) pos' + of_nat n) (bh_buff b + of_nat (off + k))"
      unfolding m2_def by (rule copy_out_eq [OF dest(1) b(1) n'(1) k])
    also have "\<dots> = mem t1 (bh_buff b + of_nat (off + k))"
      using ps b(1) in_buffer [of off k] k n'(1) unfolding pool_same_def bh_buff_def add.assoc by simp
    also have "\<dots> = mem t (bh_buff b + of_nat (off + k))"
      using heads_only_data [OF _ P(1) b(1), of "mem t" "mem t1" "off + k"] he k n'(1) by simp
    finally show ?thesis using b(6) k by simp
  qed
  then have "load_bytes (set_count b (bh_count m2 b - 1) m2) dest n = load_bytes (mem s) src n"
    by (intro nth_equalityI) (simp_all add: load_bytes_nth)
  then show ?thesis using read he b(3) by simp
qed

section \<open>Witness\<close>

lemma put_block_returns: "lru_buff s \<noteq> 0 \<Longrightarrow> mru_buff s \<noteq> 0 \<Longrightarrow> \<exists>t. put_block b s = Done () t"
  by (simp add: put_block_def Let_def)

lemma all_less_4: "(\<forall>k < 4. Q k) \<longleftrightarrow> Q 0 \<and> Q 1 \<and> Q 2 \<and> Q (3 :: nat)"
proof -
  have "k < 4 \<longleftrightarrow> k = 0 \<or> k = 1 \<or> k = 2 \<or> k = 3" for k :: nat by auto
  then show ?thesis by auto
qed

lemma sample_outside:
  assumes "a \<in> {0xC0300000, 0xC0300010, 0xC0300020, 0xC0300040}"
  shows "outside sample_pool a 4"
  using assms by (auto simp: outside_def sample_pool_def all_less_4)

theorem bdev_write_read_back_witness:
  "\<exists>t u :: cache. bdev_write 0x300 0xC0300020 4 0xC0300000 sample_cache = Done 4 t \<and>
     bdev_read 0x300 0xC0300040 4 0xC0300010 t = Done 4 u \<and>
     load_bytes (mem u) 0xC0300040 4 = load_bytes (mem sample_cache) 0xC0300020 4"
proof -
  have z: "mem sample_cache x = 0" if "32 \<le> x - 0xC0200000" "32 \<le> x - 0xC0201000" for x
    using that by (simp add: sample_cache_simps bh_set_outside)
  have p: "rd32 (mem sample_cache) 0xC0300000 = 0" "rd32 (mem sample_cache) 0xC0300010 = 0"
    by (simp_all add: rd32_def z)
  have f: "find_buffer (mem sample_cache) 0 0x300 (buff_head sample_cache (ucast (0 :: u32))) = Some 0"
    by (rule sample_get(1)) (simp_all add: MINOR_NUMBER_def)
  obtain s1 where s1: "get_block 0 0x300 sample_cache = Done 0xC0200000 s1"
    using sample_get(2) [where dev = "0x300" and block = 0] by (auto simp: MINOR_NUMBER_def)
  then have m: "get_miss 0 0x300 sample_cache = Done 0xC0200000 s1" using f by (simp add: get_block_def)
  have "lru_buff s1 = h_next_free (head (mem sample_cache) 0xC0200000)" "mru_buff s1 = mru_buff sample_cache"
    by (rule get_miss_effect [OF sample_cache_inv m], assumption)+
  then have "lru_buff s1 \<noteq> 0" "mru_buff s1 \<noteq> 0" by (simp_all add: sample_heads sample_cache_simps(3))
  then have "\<exists>t. bdev_write 0x300 0xC0300020 (int 4) 0xC0300000 sample_cache = Done (of_nat 4) t"
    using put_block_returns [of "s1\<lparr>mem := m\<rparr>" "0xC0200000" for m]
    by (subst bdev_write_single) (auto simp: p s1 obind_Done_iff Let_def)
  then obtain t where t: "bdev_write 0x300 0xC0300020 (int 4) 0xC0300000 sample_cache = Done (of_nat 4) t" by blast
  have c: "\<forall>b \<in> sample_pool. bh_count (mem sample_cache) b < 0xFFFFFFFF"
    by (simp add: sample_pool_def bh_head sample_heads)
  have d: "\<forall>k < 4. 4 \<le> (0xC0300020 :: u32) + of_nat k - 0xC0300000" by (simp add: all_less_4)
  have "\<exists>u :: cache. bdev_read 0x300 0xC0300040 (int 4) 0xC0300010 t = Done (of_nat 4) u \<and> io_log u = io_log t \<and>
      load_bytes (mem u) 0xC0300040 4 = load_bytes (mem sample_cache) 0xC0300020 4"
    by (rule bdev_write_read_back [OF sample_cache_inv _ _ sample_outside sample_outside d sample_outside sample_outside _ _ c t])
      (simp_all add: p apart_def)
  with t show ?thesis by auto
qed

end
