(* ===== verification/Ext2.thy ===== *)
theory Ext2
  imports Devfs
begin

unbundle bit_operations_syntax

text \<open>
  The ext2 file system, \<^verbatim>\<open>src/fs/ext2/ext2.c\<close>, with the on-disk structures of
  \<^verbatim>\<open>include/fs/ext2/ext2.h\<close> at their offsets in byte memory. The static variables of the file are
  fields of the state; addresses of static objects and of automatic variables (chosen by the
  linker and the compiler) are fields that no operation changes. Shift counts are taken modulo
  32, as the processor does. Divisions by zero are faults. The inode's \<^verbatim>\<open>direct_block\<close> array is in byte memory, so an
  index past its end reads the words behind it, as the program does.
\<close>

section \<open>State\<close>

text \<open>Automatic variables whose address is taken.\<close>

datatype local_var = Lookup_inode | Read_file_tmp_buff | Write_file_tmp_buff | Alloc_inode_tmp_buff

record ext2 = devfs +
  block_size :: u32
  fragment_size :: u32
  inode_count :: u32
  block_count :: u32
  blocks_per_group :: u32
  inodes_per_group :: u32
  block_group_count :: u32
  bgd_addr :: u32
  inode_size :: u32
  inodes_per_block :: u32
  dir_has_typefield :: u8
  bgdt_entries :: u32
  ext2_sb :: u32
  ext2_super_block :: u32
  ext2_super_block_var :: u32
  ext2_inode_ops :: u32
  ext2_super_operations :: u32
  local_addr :: "local_var \<Rightarrow> u32"

definition SUPERBLOCK_ADDR :: u32 where "SUPERBLOCK_ADDR = 2"
definition TYPE_REG_FILE :: u32 where "TYPE_REG_FILE = 0x8000"
definition DIR_ENTRY_HAS_TYPEFIELD :: u32 where "DIR_ENTRY_HAS_TYPEFIELD = 2"
definition SKIP_DIR :: u32 where "SKIP_DIR = 0"

section \<open>On-disk structures\<close>

text \<open>\<^verbatim>\<open>struct ext2_extended_superblock\<close>\<close>

definition es_inode_count :: "memory \<Rightarrow> u32 \<Rightarrow> u32" where "es_inode_count m a = rd32 m a"
definition es_block_count :: "memory \<Rightarrow> u32 \<Rightarrow> u32" where "es_block_count m a = rd32 m (a + 4)"
definition es_block_size :: "memory \<Rightarrow> u32 \<Rightarrow> u32" where "es_block_size m a = rd32 m (a + 24)"
definition es_fragment_size :: "memory \<Rightarrow> u32 \<Rightarrow> u32" where "es_fragment_size m a = rd32 m (a + 28)"
definition es_blocks_per_group :: "memory \<Rightarrow> u32 \<Rightarrow> u32" where "es_blocks_per_group m a = rd32 m (a + 32)"
definition es_inodes_per_group :: "memory \<Rightarrow> u32 \<Rightarrow> u32" where "es_inodes_per_group m a = rd32 m (a + 40)"
definition es_signature :: "memory \<Rightarrow> u32 \<Rightarrow> u16" where "es_signature m a = rd16 m (a + 56)"
definition es_major_version :: "memory \<Rightarrow> u32 \<Rightarrow> u32" where "es_major_version m a = rd32 m (a + 76)"
definition es_inode_size :: "memory \<Rightarrow> u32 \<Rightarrow> u16" where "es_inode_size m a = rd16 m (a + 88)"
definition es_required_features :: "memory \<Rightarrow> u32 \<Rightarrow> u32" where "es_required_features m a = rd32 m (a + 96)"

text \<open>\<^verbatim>\<open>struct ext2_bgd\<close>, 32 bytes, entry \<open>i\<close> of the table at \<open>a\<close>\<close>

definition bgd_inode_usage_bitmap :: "memory \<Rightarrow> u32 \<Rightarrow> u32 \<Rightarrow> u32" where "bgd_inode_usage_bitmap m a i = rd32 m (a + 32 * i + 4)"
definition bgd_inode_table :: "memory \<Rightarrow> u32 \<Rightarrow> u32 \<Rightarrow> u32" where "bgd_inode_table m a i = rd32 m (a + 32 * i + 8)"
definition bgd_free_inode_count :: "memory \<Rightarrow> u32 \<Rightarrow> u32 \<Rightarrow> u16" where "bgd_free_inode_count m a i = rd16 m (a + 32 * i + 14)"

text \<open>\<^verbatim>\<open>struct ext2_inode\<close>, 128 bytes\<close>

definition ei_type_permissions :: "memory \<Rightarrow> u32 \<Rightarrow> u16" where "ei_type_permissions m a = rd16 m a"
definition ei_uid :: "memory \<Rightarrow> u32 \<Rightarrow> u16" where "ei_uid m a = rd16 m (a + 2)"
definition ei_size_low :: "memory \<Rightarrow> u32 \<Rightarrow> u32" where "ei_size_low m a = rd32 m (a + 4)"
definition ei_gid :: "memory \<Rightarrow> u32 \<Rightarrow> u16" where "ei_gid m a = rd16 m (a + 24)"
definition ei_flags :: "memory \<Rightarrow> u32 \<Rightarrow> u32" where "ei_flags m a = rd32 m (a + 32)"
definition ei_direct_block :: "memory \<Rightarrow> u32 \<Rightarrow> u32 \<Rightarrow> u32" where "ei_direct_block m a i = rd32 m (a + 40 + 4 * i)"
definition set_ei_size_low :: "u32 \<Rightarrow> u32 \<Rightarrow> memory \<Rightarrow> memory" where "set_ei_size_low a v m = wr32 m (a + 4) v"
definition EXT2_INODE_SIZE :: u32 where "EXT2_INODE_SIZE = 128"

text \<open>\<^verbatim>\<open>struct ext2_directory_entry\<close>, 8 bytes, the name behind it\<close>

definition de_inode :: "memory \<Rightarrow> u32 \<Rightarrow> u32" where "de_inode m a = rd32 m a"
definition de_entry_size :: "memory \<Rightarrow> u32 \<Rightarrow> u16" where "de_entry_size m a = rd16 m (a + 4)"
definition de_name_length :: "memory \<Rightarrow> u32 \<Rightarrow> u8" where "de_name_length m a = m (a + 6)"

section \<open>Address arithmetic\<close>

definition ADDR_OF_BLOCK :: "u32 \<Rightarrow> 'a ext2_scheme \<Rightarrow> u32" where
  "ADDR_OF_BLOCK block s = (block_size s div BLOCK_SIZE) * block"

definition BG_OF_INODE :: "u32 \<Rightarrow> 'a ext2_scheme \<Rightarrow> u32" where
  "BG_OF_INODE inode s = (inode - 1) div inodes_per_group s"

definition INODE_INDEX :: "u32 \<Rightarrow> 'a ext2_scheme \<Rightarrow> u32" where
  "INODE_INDEX inode s = (inode - 1) mod inodes_per_group s"

definition BLOCK_OF_INODE :: "u32 \<Rightarrow> 'a ext2_scheme \<Rightarrow> u32" where
  "BLOCK_OF_INODE index s = (index * inode_size s) div block_size s"

text \<open>
  The argument of \<^verbatim>\<open>ADDR_OF_BLOCK\<close> in this macro is a sum that the macro does not bracket: only
  its first summand is scaled.
\<close>

definition REAL_INODE_BLOCK :: "u32 \<Rightarrow> 'a ext2_scheme \<Rightarrow> u32" where
  "REAL_INODE_BLOCK inode s =
     ((block_size s div BLOCK_SIZE) * bgd_inode_table (mem s) (bgdt_entries s) (BG_OF_INODE inode s)
        + BLOCK_OF_INODE (INODE_INDEX inode s) s)
     + (inode_size s * (INODE_INDEX inode s mod inodes_per_block s) div BLOCK_SIZE)"

definition INODE_OFFSET :: "u32 \<Rightarrow> 'a ext2_scheme \<Rightarrow> u32" where
  "INODE_OFFSET inode s = inode_size s * (INODE_INDEX inode s mod inodes_per_block s) mod BLOCK_SIZE"

text \<open>The divisors of the inode arithmetic.\<close>

definition no_geometry :: "'a ext2_scheme \<Rightarrow> bool" where
  "no_geometry s \<longleftrightarrow> inodes_per_group s = 0 \<or> block_size s = 0 \<or> inodes_per_block s = 0"

section \<open>The superblock\<close>

definition read_bgd_table :: "u16 \<Rightarrow> 'a ext2_scheme \<Rightarrow> ('a ext2_scheme, unit) outcome" where
  "read_bgd_table dev s =
     obind (get_block (ADDR_OF_BLOCK (bgd_addr s) s) dev s) (\<lambda>bh s. Done () (s\<lparr>bgdt_entries := bh_buff bh\<rparr>))"

definition set_geometry :: "u32 \<Rightarrow> 'a ext2_scheme \<Rightarrow> ('a ext2_scheme, unit) outcome" where
  "set_geometry dest s =
     (let m = mem s;
          s = s\<lparr>block_size := push_bit (unat (es_block_size m dest AND 31)) 0x400,
                fragment_size := push_bit (unat (es_fragment_size m dest AND 31)) 0x400,
                inode_count := es_inode_count m dest, block_count := es_block_count m dest,
                blocks_per_group := es_blocks_per_group m dest, inodes_per_group := es_inodes_per_group m dest\<rparr>
      in if blocks_per_group s = 0 then Faulted s
         else let s = s\<lparr>block_group_count := CEILING_DIV (block_count s) (blocks_per_group s)\<rparr>;
                  s = s\<lparr>bgd_addr := if block_size s = 0x400 then 2 else 1\<rparr>;
                  s = s\<lparr>inode_size := if es_major_version m dest \<ge> 1 then ucast (es_inode_size m dest) else 128\<rparr>
              in if inode_size s = 0 then Faulted s
                 else let s = s\<lparr>inodes_per_block := block_size s div inode_size s\<rparr>
                      in Done () (s\<lparr>dir_has_typefield :=
                           if es_required_features m dest AND DIR_ENTRY_HAS_TYPEFIELD \<noteq> 0 then 1 else 0\<rparr>))"

definition ext2_parse_superblock :: "u32 \<Rightarrow> u16 \<Rightarrow> 'a ext2_scheme \<Rightarrow> ('a ext2_scheme, unit) outcome" where
  "ext2_parse_superblock dest dev s =
     obind (get_block SUPERBLOCK_ADDR dev s) (\<lambda>bh s.
     obind (put_block bh (s\<lparr>mem := memcpy (mem s) dest (bh_buff bh) BLOCK_SIZE\<rparr>)) (\<lambda>_ s.
     obind (get_block (SUPERBLOCK_ADDR + 1) dev s) (\<lambda>bh s.
     obind (put_block bh (s\<lparr>mem := memcpy (mem s) (dest + BLOCK_SIZE) (bh_buff bh) BLOCK_SIZE\<rparr>)) (\<lambda>_ s.
     if es_signature (mem s) dest \<noteq> 0xEF53 then kpanic ''not ext2'' s
     else obind (set_geometry dest s) (\<lambda>_ s. read_bgd_table dev s)))))"

section \<open>Inodes\<close>

text \<open>The block number and the offset in the buffer at which \<^verbatim>\<open>read_inode\<close> finds an inode.\<close>

definition inode_sector :: "u32 \<Rightarrow> 'a ext2_scheme \<Rightarrow> u32" where
  "inode_sector inode s =
     (let index = INODE_INDEX inode s;
          block_of_inode = bgd_inode_table (mem s) (bgdt_entries s) (BG_OF_INODE inode s) + BLOCK_OF_INODE index s
      in ADDR_OF_BLOCK block_of_inode s + (inode_size s * (index mod inodes_per_block s)) div BLOCK_SIZE)"

definition read_inode :: "u32 \<Rightarrow> u32 \<Rightarrow> u16 \<Rightarrow> 'a ext2_scheme \<Rightarrow> ('a ext2_scheme, u32) outcome" where
  "read_inode dest inode dev s =
     (if inodes_per_group s = 0 then Faulted s
      else let s = tty_update (terminal_writestring ''Reading inode'') s
           in if block_size s = 0 then Faulted s
              else let block_of_inode = bgd_inode_table (mem s) (bgdt_entries s) (BG_OF_INODE inode s)
                                          + BLOCK_OF_INODE (INODE_INDEX inode s) s;
                       s = tty_update (terminal_printhex32 (ADDR_OF_BLOCK block_of_inode s)) s;
                       s = tty_update (terminal_writestring [CHR 10, CHR 10, CHR 10]) s
                   in if inodes_per_block s = 0 then Faulted s
                      else obind (get_block (inode_sector inode s) dev s) (\<lambda>bh s.
                           Done bh (if dest \<noteq> 0
                             then s\<lparr>mem := memcpy_loop (mem s) dest (INODE_OFFSET inode s + bh_buff bh) EXT2_INODE_SIZE\<rparr>
                             else s)))"

definition change_file_size :: "u32 \<Rightarrow> u32 \<Rightarrow> u16 \<Rightarrow> 'a ext2_scheme \<Rightarrow> ('a ext2_scheme, unit) outcome" where
  "change_file_size inode new_size dev s =
     (if no_geometry s then Faulted s
      else obind (get_block (REAL_INODE_BLOCK inode s) dev s) (\<lambda>bh s.
           let tmp_inode = bh_buff bh + INODE_OFFSET inode s;
               m = set_dirty bh 1 (mem s)
           in put_block bh (s\<lparr>mem := set_ei_size_low tmp_inode new_size m\<rparr>)))"

section \<open>Whole-file transfers past the cache\<close>

text \<open>
  \<^verbatim>\<open>read_file\<close> and \<^verbatim>\<open>write_file\<close> pass their \<^verbatim>\<open>device_t *\<close> argument to the driver, which takes it for a
  pointer to a block device. The type test \<^verbatim>\<open>type_permissions & 0xF000 != TYPE_REG_FILE\<close> compares first and
  then masks with the result, 1.
\<close>

definition not_a_file :: "u32 \<Rightarrow> bool" where
  "not_a_file type_permissions \<longleftrightarrow> type_permissions AND of_bool ((0xF000 :: u32) \<noteq> TYPE_REG_FILE) \<noteq> 0"

fun read_file_loop :: "nat list \<Rightarrow> u32 \<Rightarrow> u32 \<Rightarrow> 'a ext2_scheme \<Rightarrow> ('a ext2_scheme, unit) outcome" where
  "read_file_loop [] file dev s = Done () s"
| "read_file_loop (i # is) file dev s =
     (let s = tty_update (terminal_writestring ''direct block: '') s;
          b = ei_direct_block (mem s) file (of_nat i);
          s = tty_update (terminal_printhex32 b) s
      in if int i * 512 \<ge> sint (ei_size_low (mem s) file) \<or> b = 0 \<or> b \<ge> block_count s then Done () s
         else obind (ata_read_sects_28_pio (local_addr s Read_file_tmp_buff) 1 (bdevs s dev) (ADDR_OF_BLOCK b s) s) (\<lambda>_ s.
              obind (terminal_writestring_at (local_addr s Read_file_tmp_buff) s) (\<lambda>_ s.
              read_file_loop is file dev s)))"

definition read_file :: "u32 \<Rightarrow> u32 \<Rightarrow> 'a ext2_scheme \<Rightarrow> ('a ext2_scheme, unit) outcome" where
  "read_file file dev s =
     (let s = tty_update (terminal_writestring (''In read_file'' @ [CHR 10])) s
      in if not_a_file (ucast (ei_type_permissions (mem s) file)) then kpanic ''not a file'' s
         else read_file_loop [0..<12] file dev s)"

text \<open>The loop of \<^verbatim>\<open>write_file\<close>; round \<open>k\<close> has \<^verbatim>\<open>i = 512 * k\<close>, and round 11 always returns.\<close>

fun write_file_loop ::
    "nat list \<Rightarrow> u32 \<Rightarrow> u32 \<Rightarrow> u32 \<Rightarrow> u32 \<Rightarrow> u32 \<Rightarrow> 'a ext2_scheme \<Rightarrow> ('a ext2_scheme, u32) outcome" where
  "write_file_loop [] ptr sz nmemb file dev s = Done nmemb s"
| "write_file_loop (k # ks) ptr sz nmemb file dev s =
     (let i = 512 * of_nat k; tmp_buff = local_addr s Write_file_tmp_buff
      in if \<not> i < nmemb * sz then Done nmemb s
         else let m = memset (mem s) tmp_buff 0 512;
                  count = nmemb * sz - i;
                  m = memcpy m tmp_buff (ptr + i) (if count \<ge> 512 then 512 else count);
                  s = s\<lparr>mem := m\<rparr>;
                  b = ei_direct_block (mem s) file (i div 512)
              in obind (ata_write_sects_28_pio tmp_buff 1 (bdevs s dev) (ADDR_OF_BLOCK b s) s) (\<lambda>_ s.
                 if i + 512 \<ge> 0x1800 \<or> ei_direct_block (mem s) file (i div 512) \<ge> block_count s
                 then Done (i div sz) s
                 else write_file_loop ks ptr sz nmemb file dev s))"

definition write_file ::
    "u32 \<Rightarrow> u32 \<Rightarrow> u32 \<Rightarrow> u32 \<Rightarrow> u32 \<Rightarrow> u32 \<Rightarrow> 'a ext2_scheme \<Rightarrow> ('a ext2_scheme, u32) outcome" where
  "write_file ptr sz nmemb file inode dev s =
     (let s = tty_update (terminal_writestring (''In write file'' @ [CHR 10])) s
      in if not_a_file (ucast (ei_type_permissions (mem s) file)) then kpanic ''not a file'' s
         else write_file_loop [0..<12] ptr sz nmemb file dev s)"

section \<open>Reading and writing files\<close>

text \<open>The copying loops, which also print each byte.\<close>

fun copy_out :: "nat \<Rightarrow> u32 \<Rightarrow> u32 \<Rightarrow> 'a console_scheme \<Rightarrow> 'a console_scheme" where
  "copy_out 0 buff ptr s = s"
| "copy_out (Suc n) buff ptr s =
     (let s = tty_update (terminal_putchar (mem s ptr)) s
      in copy_out n (buff + 1) (ptr + 1) (s\<lparr>mem := (mem s)(buff := mem s ptr)\<rparr>))"

fun copy_in :: "nat \<Rightarrow> u32 \<Rightarrow> u32 \<Rightarrow> 'a console_scheme \<Rightarrow> 'a console_scheme" where
  "copy_in 0 buff ptr s = s"
| "copy_in (Suc n) buff ptr s =
     (let s = tty_update (terminal_putchar (mem s ptr)) s
      in copy_in n (buff + 1) (ptr + 1) (s\<lparr>mem := (mem s)(ptr := mem s buff)\<rparr>))"

text \<open>The local variables of the two loops.\<close>

record transfer =
  t_i :: u32
  t_offset :: u32
  t_moved :: u32
  t_count :: u32
  t_buff :: u32

definition advance :: "u32 \<Rightarrow> transfer \<Rightarrow> transfer" where
  "advance chars v = v\<lparr>t_offset := 0, t_i := t_i v + 1, t_moved := t_moved v + chars, t_count := t_count v - chars,
     t_buff := t_buff v + chars\<rparr>"

text \<open>
  The inner loop of \<^verbatim>\<open>ext2_read\<close>: \<open>n\<close> sectors of the file-system block are left, \<open>k\<close> is the number of the next.
  \<open>Inl\<close> is the early return.
\<close>

fun ext2_read_sectors ::
    "nat \<Rightarrow> u32 \<Rightarrow> u16 \<Rightarrow> u32 \<Rightarrow> u32 \<Rightarrow> transfer \<Rightarrow> 'a ext2_scheme \<Rightarrow> ('a ext2_scheme, u32 + transfer) outcome" where
  "ext2_read_sectors 0 k dev tmp_inode off v s = Done (Inr v) s"
| "ext2_read_sectors (Suc n) k dev tmp_inode off v s =
     (if \<not> t_count v > 0 then Done (Inr v) s
      else obind (get_block (ADDR_OF_BLOCK (ei_direct_block (mem s) tmp_inode (t_i v)) s + k) dev s) (\<lambda>bh s.
           if bh = 0 then Done (Inl (- 1)) s
           else let chars = (if t_count v < BLOCK_SIZE then t_count v else BLOCK_SIZE);
                    ptr = t_offset v + bh_buff bh;
                    s = s\<lparr>mem := wr32 (mem s) off (rd32 (mem s) off + chars)\<rparr>;
                    s = copy_out (unat chars) (t_buff v) ptr s
                in obind (put_block bh s) (\<lambda>_ s. ext2_read_sectors n (k + 1) dev tmp_inode off (advance chars v) s)))"

partial_function (option) ext2_read_blocks ::
    "u16 \<Rightarrow> u32 \<Rightarrow> u32 \<Rightarrow> transfer \<Rightarrow> 'a ext2_scheme \<Rightarrow> ('a ext2_scheme, u32 + transfer) outcome option" where
  "ext2_read_blocks dev tmp_inode off v s =
     (if t_i v < 12 \<and> ei_direct_block (mem s) tmp_inode (t_i v) \<noteq> 0
      then case ext2_read_sectors (unat (block_size s div BLOCK_SIZE)) 0 dev tmp_inode off v s of
             Done (Inr v) s \<Rightarrow> ext2_read_blocks dev tmp_inode off v s
           | r \<Rightarrow> Some r
      else Some (Done (Inr v) s))"

text \<open>The bytes of the inode are printed before it is used.\<close>

fun print_bytes :: "nat \<Rightarrow> u32 \<Rightarrow> 'a console_scheme \<Rightarrow> 'a console_scheme" where
  "print_bytes 0 a s = s"
| "print_bytes (Suc n) a s = print_bytes n (a + 1) (tty_update (terminal_printhex (mem s a)) s)"

definition ext2_read :: "u32 \<Rightarrow> u32 \<Rightarrow> u32 \<Rightarrow> u32 \<Rightarrow> 'a ext2_scheme \<Rightarrow> ('a ext2_scheme, u32) outcome" where
  "ext2_read filep buff count off s =
     (let s = tty_update (terminal_writestring ''in ext2_read'') s;
          inode = f_inode (mem s) filep;
          dev = ucast (i_dev (mem s) inode)
      in if strcmp (mem s) (fs_name (mem s) (sb_fs_type (mem s) (i_sb (mem s) inode))) (literal s ''ext2'') \<noteq> 0
         then kpanic ''ext2_read. wrong filesystem'' s
         else if rd32 (mem s) off + count \<ge> i_size (mem s) inode then Done (- 1) s
         else if not_a_file (i_flags (mem s) inode) then Done (- 1) s
         else obind (kmalloc EXT2_INODE_SIZE s) (\<lambda>tmp_inode s.
              obind (read_inode tmp_inode (i_no (mem s) inode) dev s) (\<lambda>bh s.
              obind (put_block bh s) (\<lambda>_ s.
              let s = print_bytes 128 tmp_inode s
              in if ucast (ei_type_permissions (mem s) tmp_inode) AND TYPE_REG_FILE = 0 then Done (- 1) s
                 else let v = \<lparr>t_i = rd32 (mem s) off div BLOCK_SIZE, t_offset = rd32 (mem s) off mod BLOCK_SIZE,
                               t_moved = 0, t_count = count, t_buff = buff\<rparr>
                      in case ext2_read_blocks dev tmp_inode off v s of
                           None \<Rightarrow> Diverged
                         | Some r \<Rightarrow> obind r (\<lambda>x s. case x of
                               Inl ret \<Rightarrow> Done ret s
                             | Inr v \<Rightarrow> obind (kfree tmp_inode s) (\<lambda>_ s. Done (t_moved v) s))))))"

text \<open>The inner loop of \<^verbatim>\<open>ext2_write\<close>; \<open>Inl\<close> is the jump to \<^verbatim>\<open>exit\<close>.\<close>

fun ext2_write_sectors ::
    "nat \<Rightarrow> u32 \<Rightarrow> u16 \<Rightarrow> u32 \<Rightarrow> u32 \<Rightarrow> transfer \<Rightarrow> 'a ext2_scheme \<Rightarrow> ('a ext2_scheme, transfer + transfer) outcome" where
  "ext2_write_sectors 0 k dev tmp_inode off v s = Done (Inr v) s"
| "ext2_write_sectors (Suc n) k dev tmp_inode off v s =
     (if \<not> t_count v > 0 then Done (Inr v) s
      else obind (get_block (ADDR_OF_BLOCK (ei_direct_block (mem s) tmp_inode (t_i v)) s + k) dev s) (\<lambda>bh s.
           if bh = 0 then Done (Inl v) s
           else let chars = (if t_count v < BLOCK_SIZE then t_count v else BLOCK_SIZE);
                    ptr = t_offset v + bh_buff bh;
                    s = s\<lparr>mem := wr32 (mem s) off (rd32 (mem s) off + chars)\<rparr>;
                    s = copy_in (unat chars) (t_buff v) ptr s;
                    s = s\<lparr>mem := set_dirty bh 1 (mem s)\<rparr>
                in obind (put_block bh s) (\<lambda>_ s. ext2_write_sectors n (k + 1) dev tmp_inode off (advance chars v) s)))"

partial_function (option) ext2_write_blocks ::
    "u16 \<Rightarrow> u32 \<Rightarrow> u32 \<Rightarrow> transfer \<Rightarrow> 'a ext2_scheme \<Rightarrow> ('a ext2_scheme, transfer) outcome option" where
  "ext2_write_blocks dev tmp_inode off v s =
     (if ei_direct_block (mem s) tmp_inode (t_i v) \<noteq> 0
      then case ext2_write_sectors (unat (block_size s div BLOCK_SIZE)) 0 dev tmp_inode off v s of
             Done (Inr v) s \<Rightarrow> ext2_write_blocks dev tmp_inode off v s
           | r \<Rightarrow> Some (obind r (\<lambda>x s. case x of Inl v \<Rightarrow> Done v s | Inr v \<Rightarrow> Done v s))
      else Some (Done v s))"

definition ext2_write :: "u32 \<Rightarrow> u32 \<Rightarrow> u32 \<Rightarrow> u32 \<Rightarrow> 'a ext2_scheme \<Rightarrow> ('a ext2_scheme, u32) outcome" where
  "ext2_write filep buff count off s =
     (let s = tty_update (terminal_writestring ''in ext2_write'') s;
          inode = f_inode (mem s) filep;
          dev = ucast (i_dev (mem s) inode)
      in if strcmp (mem s) (fs_name (mem s) (sb_fs_type (mem s) (i_sb (mem s) inode))) (literal s ''ext2'') \<noteq> 0
         then kpanic ''ext2_write. wrong filesystem'' s
         else if rd32 (mem s) off + count \<ge> i_size (mem s) inode then Done (- 1) s
         else if not_a_file (i_flags (mem s) inode) then Done (- 1) s
         else obind (kmalloc EXT2_INODE_SIZE s) (\<lambda>tmp_inode s.
              obind (read_inode tmp_inode (i_no (mem s) inode) dev s) (\<lambda>inode_bh s.
              if ucast (ei_type_permissions (mem s) tmp_inode) AND TYPE_REG_FILE = 0 then Done (- 1) s
              else let v = \<lparr>t_i = rd32 (mem s) off div BLOCK_SIZE, t_offset = rd32 (mem s) off mod BLOCK_SIZE,
                            t_moved = 0, t_count = count, t_buff = buff\<rparr>
                   in case ext2_write_blocks dev tmp_inode off v s of
                        None \<Rightarrow> Diverged
                      | Some r \<Rightarrow> obind r (\<lambda>v s.
                          let m = set_ei_size_low tmp_inode (t_moved v) (mem s);
                              m = set_dirty inode_bh 1 m
                          in obind (put_block inode_bh (s\<lparr>mem := m\<rparr>)) (\<lambda>_ s.
                             obind (kfree tmp_inode s) (\<lambda>_ s. Done (t_moved v) s))))))"

section \<open>Directories\<close>

text \<open>
  The scan of one directory sector by \<^verbatim>\<open>ext2_lookup\<close>. \<open>Found de\<close>: the entry at \<open>de\<close> has the name.
  \<open>Past_end\<close>: the entries seen are longer than the directory. \<open>Sector_end n\<close>: no entry fits any more
  and the entries seen so far have \<open>n\<close> bytes. An entry of size 0 makes the loop spin: \<open>None\<close>.
\<close>

datatype scan = Found u32 | Past_end | Sector_end u32

partial_function (option) scan_entries ::
    "memory \<Rightarrow> u32 \<Rightarrow> u32 \<Rightarrow> u32 \<Rightarrow> u32 \<Rightarrow> u32 \<Rightarrow> u32 \<Rightarrow> scan option" where
  "scan_entries m buff filename len limit seen de =
     (if \<not> de + ucast (de_entry_size m de) < buff + BLOCK_SIZE then Some (Sector_end seen)
      else if de_inode m de \<noteq> SKIP_DIR \<and> ucast (de_name_length m de) = len \<and> strncmp m filename (de + 8) len = 0
      then Some (Found de)
      else if seen + ucast (de_entry_size m de) > limit then Some Past_end
      else scan_entries m buff filename len limit (seen + ucast (de_entry_size m de)) (de + ucast (de_entry_size m de)))"

text \<open>Filling in the result from the inode of the entry found.\<close>

definition lookup_result :: "u32 \<Rightarrow> u32 \<Rightarrow> u16 \<Rightarrow> u32 \<Rightarrow> 'a ext2_scheme \<Rightarrow> ('a ext2_scheme, int) outcome" where
  "lookup_result de bh dev result_inode s =
     (let inode = local_addr s Lookup_inode
      in obind (read_inode inode (de_inode (mem s) de) dev s) (\<lambda>ibh s.
         obind (put_block ibh s) (\<lambda>_ s.
         let m = set_i_no (rd32 (mem s) result_inode) (de_inode (mem s) de) (mem s);
             m = set_i_size (rd32 m result_inode) (ei_size_low m inode) m;
             m = set_i_permissions (rd32 m result_inode) (ucast (ei_type_permissions m inode)) m
         in obind (put_block bh (s\<lparr>mem := m\<rparr>)) (\<lambda>_ s. Done 0 s))))"

text \<open>The loop over the sectors of a directory block, whose counter has 8 bits: \<open>Inl\<close> returns, \<open>Inr\<close> goes on.\<close>

partial_function (option) lookup_sectors ::
    "u8 \<Rightarrow> u32 \<Rightarrow> u32 \<Rightarrow> u32 \<Rightarrow> u16 \<Rightarrow> u32 \<Rightarrow> u32 \<Rightarrow> 'a ext2_scheme \<Rightarrow> ('a ext2_scheme, int + u32) outcome option" where
  "lookup_sectors k block filename len dev result_inode seen s =
     (if \<not> ucast k < block_size s div BLOCK_SIZE then Some (Done (Inr seen) s)
      else case get_block (ADDR_OF_BLOCK block s + ucast k) dev s of
             Done bh s \<Rightarrow>
               if bh = 0 then Some (Done (Inl (- 1)) s)
               else (case scan_entries (mem s) (bh_buff bh) filename len
                            (ei_size_low (mem s) (local_addr s Lookup_inode)) seen (bh_buff bh) of
                       None \<Rightarrow> None
                     | Some (Found de) \<Rightarrow>
                         Some (obind (lookup_result de bh dev result_inode s) (\<lambda>r s. Done (Inl r) s))
                     | Some Past_end \<Rightarrow> Some (Done (Inl (- 1)) s)
                     | Some (Sector_end seen) \<Rightarrow>
                         (case put_block bh s of
                            Done _ s \<Rightarrow> lookup_sectors (k + 1) block filename len dev result_inode seen s
                          | r \<Rightarrow> Some (obind r (\<lambda>_ s. Done (Inr seen) s))))
           | r \<Rightarrow> Some (obind r (\<lambda>_ s. Done (Inr seen) s)))"

fun lookup_blocks ::
    "nat list \<Rightarrow> u32 \<Rightarrow> u32 \<Rightarrow> u16 \<Rightarrow> u32 \<Rightarrow> u32 \<Rightarrow> 'a ext2_scheme \<Rightarrow> ('a ext2_scheme, int) outcome" where
  "lookup_blocks [] filename len dev result_inode seen s = Done (- 1) s"
| "lookup_blocks (i # is) filename len dev result_inode seen s =
     (let b = ei_direct_block (mem s) (local_addr s Lookup_inode) (of_nat i)
      in if b = 0 then Done (- 1) s
         else case lookup_sectors 0 b filename len dev result_inode seen s of
                None \<Rightarrow> Diverged
              | Some r \<Rightarrow> obind r (\<lambda>x s. case x of
                    Inl ret \<Rightarrow> Done ret s
                  | Inr seen \<Rightarrow> lookup_blocks is filename len dev result_inode seen s))"

text \<open>The directory test is \<^verbatim>\<open>inode.type_permissions && TYPE_DIRECTORY\<close>.\<close>

definition ext2_lookup :: "u32 \<Rightarrow> u32 \<Rightarrow> u32 \<Rightarrow> u32 \<Rightarrow> 'a ext2_scheme \<Rightarrow> ('a ext2_scheme, int) outcome" where
  "ext2_lookup dir filename len result_inode s =
     (let s = tty_update (terminal_writestring ''in ext2_lookup'') s;
          inode = local_addr s Lookup_inode;
          dev = ucast (i_dev (mem s) dir)
      in obind (read_inode inode (i_no (mem s) dir) dev s) (\<lambda>bh s.
         obind (put_block bh s) (\<lambda>_ s.
         if inode = 0 then Done (- 1) s
         else if len = 0 then Done (- 1) s
         else if ei_type_permissions (mem s) inode = 0 then Done (- 1) s
         else lookup_blocks [0..<12] filename len (ucast (i_dev (mem s) dir)) result_inode 0 s)))"

section \<open>Inodes and the superblock of the virtual file system\<close>

definition ext2_read_inode :: "u32 \<Rightarrow> 'a ext2_scheme \<Rightarrow> ('a ext2_scheme, unit) outcome" where
  "ext2_read_inode dest s =
     (let s = tty_update (terminal_writestring ''in read inode'') s;
          m = set_i_ops dest (ext2_inode_ops s) (mem s);
          m = set_i_sb dest (ext2_super_block_var s) m;
          s = s\<lparr>mem := m\<rparr>
      in if i_no (mem s) dest \<noteq> 0
         then obind (kmalloc EXT2_INODE_SIZE s) (\<lambda>tmp_inode s.
              let m = set_i_size dest (ei_size_low (mem s) tmp_inode) (mem s);
                  m = set_i_gid dest (ucast (ei_gid m tmp_inode)) m;
                  m = set_i_uid dest (ucast (ei_uid m tmp_inode)) m
              in kfree tmp_inode (s\<lparr>mem := m\<rparr>))
         else Done () s)"

definition ext2_read_super :: "u32 \<Rightarrow> u16 \<Rightarrow> 'a ext2_scheme \<Rightarrow> ('a ext2_scheme, u32) outcome" where
  "ext2_read_super sb dev s =
     obind (ext2_parse_superblock (ext2_sb s) dev s) (\<lambda>_ s.
     obind (kmalloc EXT2_INODE_SIZE s) (\<lambda>tmp s.
     obind (read_inode tmp 2 dev s) (\<lambda>_ s.
     obind (kmalloc 52 s) (\<lambda>root s.
     let m = set_i_no root 2 (mem s);
         m = set_i_size root (ei_size_low m tmp) m;
         m = set_i_gid root (ucast (ei_gid m tmp)) m;
         m = set_i_uid root (ucast (ei_uid m tmp)) m;
         m = set_i_flags root (ei_flags m tmp) m;
         m = set_sb_root sb root m;
         m = set_sb_ops sb (ext2_super_operations s) m;
         s = s\<lparr>mem := m\<rparr>
     in obind (if sb_fs_type (mem s) sb = 0
               then (case find_file_system (literal s ''ext2'') 4 s of
                       None \<Rightarrow> Diverged
                     | Some ptr \<Rightarrow> Done () (s\<lparr>mem := set_sb_fs_type sb (load_link ptr s) (mem s)\<rparr>))
               else Done () s) (\<lambda>_ s.
        let s = s\<lparr>mem := set_sb_dev sb dev (mem s), ext2_super_block := sb\<rparr>
        in obind (kfree tmp s) (\<lambda>_ s. Done sb s))))))"

section \<open>Allocating an inode\<close>

text \<open>
  The inner loop of \<^verbatim>\<open>alloc_inode\<close> over the bitmap of block group \<open>i\<close>; a \<^verbatim>\<open>char\<close> is shifted as a signed
  number. Its result is the final \<^verbatim>\<open>free_inode\<close>.
\<close>

function scan_bitmap :: "u32 \<Rightarrow> u32 \<Rightarrow> u32 \<Rightarrow> u32 \<Rightarrow> 'a ext2_scheme \<Rightarrow> ('a ext2_scheme, u32) outcome" where
  "scan_bitmap n i dev free_inode s =
     (if free_inode < n
      then let tmp_buff = local_addr s Alloc_inode_tmp_buff
           in obind (if (free_inode * 32) mod 512 = 0
                     then ata_read_sects_28_pio tmp_buff 1 (bdevs s dev)
                            (bgd_inode_usage_bitmap (mem s) (bgdt_entries s) i + (free_inode * 32) div 512) s
                     else Done () s) (\<lambda>_ s.
              let a = tmp_buff + free_inode div 512; j = unat (free_inode mod 512 AND 31)
              in obind (if drop_bit j (sint (mem s a)) = 0
                        then let s = s\<lparr>mem := (mem s)(a := mem s a OR ucast (push_bit j (1 :: u32)))\<rparr>
                             in ata_write_sects_28_pio tmp_buff 1 (bdevs s dev)
                                  (bgd_inode_usage_bitmap (mem s) (bgdt_entries s) i + (free_inode * 32) div 512) s
                        else Done () s) (\<lambda>_ s. scan_bitmap n i dev (free_inode + 1) s))
      else Done free_inode s)"
  by pat_completeness auto
termination
  by (relation "measure (\<lambda>(n, i, dev, free_inode, s). unat n - unat free_inode)")
    (auto simp: word_nat word_less_nat_alt)

function alloc_groups :: "u32 \<Rightarrow> u32 \<Rightarrow> u32 \<Rightarrow> u32 \<Rightarrow> 'a ext2_scheme \<Rightarrow> ('a ext2_scheme, u32 \<times> u32) outcome" where
  "alloc_groups n dev i free_inode s =
     (if i < n \<and> free_inode = 0
      then if bgd_free_inode_count (mem s) (bgdt_entries s) i = 0 then alloc_groups n dev (i + 1) free_inode s
           else obind (scan_bitmap (inodes_per_group s) i dev 0 s) (\<lambda>free_inode s. alloc_groups n dev (i + 1) free_inode s)
      else Done (i, free_inode) s)"
  by pat_completeness auto
termination
  by (relation "measure (\<lambda>(n, dev, i, free_inode, s). unat n - unat i)") (auto simp: word_nat word_less_nat_alt)

declare scan_bitmap.simps [simp del] alloc_groups.simps [simp del]

text \<open>\<open>junk\<close> is the initial value of the uninitialised variable \<^verbatim>\<open>free_inode\<close>.\<close>

definition alloc_inode :: "u32 \<Rightarrow> u32 \<Rightarrow> 'a ext2_scheme \<Rightarrow> ('a ext2_scheme, u32) outcome" where
  "alloc_inode junk dev s =
     obind (alloc_groups (block_group_count s) dev 0 junk s) (\<lambda>(i, free_inode) s.
       Done (free_inode + inodes_per_group s * (i + 1)) s)"

section \<open>Locating inodes\<close>

text \<open>The arithmetic on natural numbers.\<close>

lemma locate_nat:
  fixes q z :: nat
  assumes "0 < z" and "z dvd 512 * q" and "0 < q"
  shows "512 * (q * (t + idx * z div (512 * q)) + z * (idx mod (512 * q div z)) div 512) + z * (idx mod (512 * q div z)) mod 512
    = 512 * q * t + idx * z"
proof -
  obtain p where p: "512 * q = z * p" using assms(2) by blast
  have pz: "0 < p" using p assms by (cases p) auto
  have div: "512 * q div z = p" using p assms(1) by simp
  have "idx * z div (512 * q) = idx div p"
    using assms(1) by (simp add: p mult.commute [of idx] div_mult_mult1)
  moreover have "512 * (z * (idx mod p) div 512) + z * (idx mod p) mod 512 = z * (idx mod p)" by simp
  moreover have "512 * (q * (idx div p)) + z * (idx mod p) = idx * z"
  proof -
    have "512 * (q * (idx div p)) = z * (p * (idx div p))" using p by (metis mult.assoc)
    then have "512 * (q * (idx div p)) + z * (idx mod p) = z * (p * (idx div p) + idx mod p)"
      by (simp only: distrib_left)
    also have "\<dots> = z * idx" by (simp only: mult_div_mod_eq)
    finally show ?thesis by (simp add: mult.commute)
  qed
  ultimately show ?thesis unfolding div by (simp add: distrib_left)
qed

text \<open>\<^verbatim>\<open>read_inode\<close> finds the inode: for a block size that is a multiple of 512 and of the inode size, the
  sector it reads and the offset it uses there denote the byte at which the inode lies on the
  disk, that is the inode's index times the inode size behind the start of the inode table of its block group.\<close>

lemma inode_location:
  fixes s :: "'a ext2_scheme"
  assumes bs: "unat (block_size s) = 512 * q" "0 < q" and z: "inode_size s \<noteq> 0" "unat (inode_size s) dvd unat (block_size s)"
    and ipb: "inodes_per_block s = block_size s div inode_size s"
    and table: "t = bgd_inode_table (mem s) (bgdt_entries s) (BG_OF_INODE inode s)"
    and fits: "unat (INODE_INDEX inode s) * unat (inode_size s) < 2 ^ 32"
      "unat (block_size s) * unat t + unat (INODE_INDEX inode s) * unat (inode_size s) < 512 * 2 ^ 32"
  shows "512 * unat (inode_sector inode s) + unat (INODE_OFFSET inode s) =
    unat (block_size s) * unat t + unat (INODE_INDEX inode s) * unat (inode_size s)"
proof -
  define I Z T where "I = unat (INODE_INDEX inode s)" and "Z = unat (inode_size s)" and "T = unat t"
  define B R where "B = I * Z div (512 * q)" and "R = Z * (I mod (512 * q div Z))"
  have Z: "0 < Z" "Z dvd 512 * q" using z bs(1) by (simp_all add: Z_def unat_gt_0)
  have loc: "512 * (q * (T + B) + R div 512) + R mod 512 = 512 * q * T + I * Z"
    unfolding B_def R_def by (rule locate_nat [OF Z bs(2)])
  have total: "512 * q * T + I * Z < 512 * 2 ^ 32" using fits(2) by (simp add: bs(1) I_def Z_def T_def)
  have "512 * (q * (T + B) + R div 512) \<le> 512 * q * T + I * Z" unfolding loc [symmetric] by (rule le_add1)
  then have "512 * (q * (T + B) + R div 512) < 512 * 2 ^ 32" using total by (rule le_less_trans)
  then have sector: "q * (T + B) + R div 512 < 2 ^ 32" by (rule mult_less_cancel1 [THEN iffD1, THEN conjunct2])
  have TB: "T + B < 2 ^ 32" using sector bs(2) by (cases q) auto
  have "512 * q < 2 ^ 32" using unat_u32_less [of "block_size s"] by (simp add: bs(1))
  moreover have "R \<le> 512 * q"
  proof -
    obtain p where p: "512 * q = Z * p" using Z(2) by blast
    then have "0 < p" "512 * q div Z = p" using bs(2) Z(1) by (cases p, auto)
    then show ?thesis using p by (simp add: R_def)
  qed
  ultimately have R: "R < 2 ^ 32" by linarith
  have uB: "unat (BLOCK_OF_INODE (INODE_INDEX inode s) s) = B"
    using fits(1) by (simp add: BLOCK_OF_INODE_def B_def I_def Z_def unat_div unat_mult_fits bs(1))
  have uR: "unat (inode_size s * (INODE_INDEX inode s mod inodes_per_block s)) = R"
    using R unfolding R_def I_def Z_def by (subst unat_mult_fits) (simp_all add: ipb unat_mod unat_div bs(1))
  have uq: "unat (block_size s div BLOCK_SIZE) = q" by (simp add: BLOCK_SIZE_def unat_div bs(1))
  have "unat (inode_sector inode s) = q * (T + B) + R div 512"
  proof -
    have 1: "unat (t + BLOCK_OF_INODE (INODE_INDEX inode s) s) = T + B"
      using TB by (subst unat_add_fits) (simp_all add: uB T_def)
    have 2: "unat (ADDR_OF_BLOCK (t + BLOCK_OF_INODE (INODE_INDEX inode s) s) s) = q * (T + B)"
      unfolding ADDR_OF_BLOCK_def using sector by (subst unat_mult_fits) (simp_all add: uq 1)
    show ?thesis
      unfolding inode_sector_def Let_def table [symmetric]
      using sector by (subst unat_add_fits) (simp_all add: 2 unat_div uR BLOCK_SIZE_def)
  qed
  moreover have "unat (INODE_OFFSET inode s) = R mod 512"
    by (simp add: INODE_OFFSET_def unat_mod uR BLOCK_SIZE_def)
  ultimately show ?thesis using loc by (simp add: bs(1) I_def Z_def T_def)
qed

section \<open>Copying an inode\<close>

lemma more_ext2:
  fixes s t :: "'a ext2_scheme"
  assumes "cache.more t = cache.more s"
  shows "INODE_OFFSET inode t = INODE_OFFSET inode s" "block_size t = block_size s" "local_addr t = local_addr s"
    "inodes_per_group t = inodes_per_group s" "inode_size t = inode_size s" "inodes_per_block t = inodes_per_block s"
    "block_group_count t = block_group_count s"
  using assms by (cases s; cases t; simp add: INODE_OFFSET_def INODE_INDEX_def)+

lemma pool_same_contents: "pool_same P m m' \<Longrightarrow> b \<in> P \<Longrightarrow> contents m' b = contents m b"
  unfolding contents_def
proof (rule load_bytes_cong)
  fix k :: nat
  assume "pool_same P m m'" "b \<in> P" "k < 512"
  then show "m' (bh_buff b + of_nat k) = m (bh_buff b + of_nat k)"
    using in_buffer [of 0 k] by (simp add: pool_same_def bh_buff_def add.assoc)
qed

lemma inode_offset_bound:
  assumes "unat (inode_size s) dvd 512" and "128 \<le> unat (inode_size s)"
  shows "unat (INODE_OFFSET inode s) + 128 \<le> 512"
proof -
  define Z x where "Z = unat (inode_size s)" and "x = unat (INODE_INDEX inode s mod inodes_per_block s)"
  have "Z dvd 2 ^ 32" using assms(1) unfolding Z_def by (rule dvd_trans) (simp add: dvd_def)
  then have "Z dvd Z * x mod 2 ^ 32" by (simp add: dvd_mod)
  then have d: "Z dvd Z * x mod 2 ^ 32 mod 512" using assms(1) by (simp add: Z_def dvd_mod)
  have o: "unat (INODE_OFFSET inode s) = Z * x mod 2 ^ 32 mod 512"
    by (simp add: INODE_OFFSET_def BLOCK_SIZE_def unat_mod unat_word_ariths Z_def x_def)
  have "Z dvd 512 - unat (INODE_OFFSET inode s)" using assms(1) d unfolding o Z_def [symmetric] by (rule dvd_diff_nat)
  moreover have "0 < 512 - unat (INODE_OFFSET inode s)" by (simp add: o)
  ultimately have "Z \<le> 512 - unat (INODE_OFFSET inode s)" by (rule dvd_imp_le)
  then show ?thesis using assms(2) \<open>0 < 512 - _\<close> by (simp add: Z_def)
qed

text \<open>C25: What \<^verbatim>\<open>read_inode\<close> that returns has done, for inode sizes that divide 512 (128, 256 and 512):
  the buffer it returns holds the sector of the inode, the 128 bytes it copies lie inside that
  buffer, and they are what the destination (outside the cache) now holds.\<close>

theorem read_inode_copies:
  fixes s t :: "'a ext2_scheme"
  assumes inv: "cache_inv P s" and z: "unat (inode_size s) dvd 512" "128 \<le> unat (inode_size s)"
    and dest: "outside P dest 128" "dest \<noteq> 0" and run: "read_inode dest inode dev s = Done bh t"
  shows "bh \<in> P \<and> cache_inv P t \<and> bh_block_num (mem t) bh = inode_sector inode s \<and> bh_dev (mem t) bh = dev \<and>
    unat (INODE_OFFSET inode s) + 128 \<le> 512 \<and>
    load_bytes (mem t) dest 128 = take 128 (drop (unat (INODE_OFFSET inode s)) (contents (mem t) bh))"
proof -
  define off where "off = unat (INODE_OFFSET inode s)"
  have off: "INODE_OFFSET inode s = of_nat off" "off + 128 \<le> 512"
    using inode_offset_bound [OF z] by (simp_all add: off_def)
  define s0 where "s0 = tty_update (terminal_writestring [CHR 10, CHR 10, CHR 10]) (tty_update (terminal_printhex32
    (ADDR_OF_BLOCK (bgd_inode_table (mem s) (bgdt_entries s) (BG_OF_INODE inode s) + BLOCK_OF_INODE (INODE_INDEX inode s) s) s))
    (tty_update (terminal_writestring ''Reading inode'') s))"
  have same: "inode_sector inode s0 = inode_sector inode s" "cache.more s0 = cache.more s" "cache_inv P s0"
    using inv by (simp_all add: s0_def inode_sector_def ADDR_OF_BLOCK_def BLOCK_OF_INODE_def INODE_INDEX_def BG_OF_INODE_def
        cache_inv_def Let_def)
  obtain u where g: "get_block (inode_sector inode s) dev s0 = Done bh u"
    and t: "t = u\<lparr>mem := memcpy_loop (mem u) dest (INODE_OFFSET inode u + bh_buff bh) 128\<rparr>"
    using run dest(2) same(1)
    by (auto simp: read_inode_def Let_def obind_Done_iff EXT2_INODE_SIZE_def s0_def ADDR_OF_BLOCK_def BLOCK_OF_INODE_def
        INODE_INDEX_def BG_OF_INODE_def split: if_splits)
  have bh: "bh \<in> P" and inv': "cache_inv P u" using get_block_safe [OF same(3) g] by blast+
  have "INODE_OFFSET inode u = of_nat off" using more_ext2(1) [of u s] get_block_more [OF g] same(2) off(1) by simp
  then have mt: "mem t = memcpy_loop (mem u) dest (of_nat off + bh_buff bh) (of_nat 128)" by (simp add: t)
  have ps: "pool_same P (mem u) (mem t)" unfolding mt by (rule pool_same_memcpy [OF dest(1)]) simp
  have lab: "bh_block_num (mem t) bh = inode_sector inode s" "bh_dev (mem t) bh = dev"
    using find_buffer_Some [OF get_block_found [OF same(3) g], of P] inv' bh pool_same_head [OF ps bh]
    by (auto simp: cache_inv_def bh_head pool_ok_def)
  have "mem t (dest + of_nat k) = contents (mem t) bh ! (off + k)" if "k < 128" for k
    using copy_out_eq [OF dest(1) bh off(2) that, of "mem u", folded mt] pool_same_contents [OF ps bh] off(2) that
    by (simp add: contents_def load_bytes_nth)
  moreover have len: "length (contents (mem t) bh) = 512" unfolding contents_def by (rule length_load_bytes)
  ultimately have "load_bytes (mem t) dest 128 = take 128 (drop off (contents (mem t) bh))"
    using off(2) by (intro nth_equalityI) (simp_all add: load_bytes_nth)
  moreover have "cache_inv P t"
    using cache_inv_heads [OF inv', of "mem t"] pool_same_head [OF ps] by (simp add: t)
  ultimately show ?thesis using bh lab off(2) unfolding off_def by blast
qed

section \<open>The superblock establishes the geometry\<close>

lemma set_geometry_effect:
  assumes "set_geometry dest s = Done () t"
  shows "mem t = mem s" "block_size t = push_bit (unat (es_block_size (mem s) dest AND 31)) 0x400"
    "inode_size t \<noteq> 0" "inodes_per_block t = block_size t div inode_size t" "blocks_per_group t \<noteq> 0"
    "inodes_per_group t = es_inodes_per_group (mem s) dest"
    "inode_size t = (if es_major_version (mem s) dest \<ge> 1 then ucast (es_inode_size (mem s) dest) else 128)"
    "block_group_count t = CEILING_DIV (es_block_count (mem s) dest) (es_blocks_per_group (mem s) dest)"
    "lru_buff t = lru_buff s" "mru_buff t = mru_buff s" "buff_head t = buff_head s"
    "bgd_addr t = (if block_size t = 0x400 then 2 else 1)"
proof -
  define z :: u32 where "z = (if es_major_version (mem s) dest \<ge> 1 then ucast (es_inode_size (mem s) dest) else 128)"
  have g: "es_blocks_per_group (mem s) dest \<noteq> 0" "z \<noteq> 0"
    by (rule ccontr, use assms in \<open>simp add: set_geometry_def Let_def z_def [symmetric] split: if_split_asm\<close>)+
  have e: "Done () t = set_geometry dest s" using assms by simp
  show "mem t = mem s" "block_size t = push_bit (unat (es_block_size (mem s) dest AND 31)) 0x400"
    "inode_size t \<noteq> 0" "inodes_per_block t = block_size t div inode_size t" "blocks_per_group t \<noteq> 0"
    "inodes_per_group t = es_inodes_per_group (mem s) dest"
    "inode_size t = (if es_major_version (mem s) dest \<ge> 1 then ucast (es_inode_size (mem s) dest) else 128)"
    "block_group_count t = CEILING_DIV (es_block_count (mem s) dest) (es_blocks_per_group (mem s) dest)"
    "lru_buff t = lru_buff s" "mru_buff t = mru_buff s" "buff_head t = buff_head s"
    "bgd_addr t = (if block_size t = 0x400 then 2 else 1)"
    using e g unfolding z_def [symmetric] by (simp_all add: set_geometry_def Let_def z_def [symmetric])
qed

lemma block_size_sectors:
  assumes "k < 22"
  shows "unat (push_bit k (0x400 :: u32)) = 512 * 2 ^ (k + 1)"
proof -
  have "1024 * 2 ^ k < (2 :: nat) ^ 32"
  proof -
    have "(2 :: nat) ^ k \<le> 2 ^ 21" using assms by (intro power_increasing) simp_all
    then show ?thesis by simp
  qed
  then show ?thesis by (subst unsigned_push_bit_eq) (simp add: take_bit_eq_mod push_bit_eq_mult)
qed

lemma es_cong:
  assumes "\<forall>k < 1024. m' (a + of_nat k) = m (a + of_nat k)"
  shows "es_signature m' a = es_signature m a" "es_block_size m' a = es_block_size m a" "es_major_version m' a = es_major_version m a"
    "es_inode_size m' a = es_inode_size m a" "es_inodes_per_group m' a = es_inodes_per_group m a"
    "es_block_count m' a = es_block_count m a" "es_blocks_per_group m' a = es_blocks_per_group m a"
proof -
  have at: "m' (a + of_nat k + of_nat j) = m (a + of_nat k + of_nat j)" if "k < 1021" "j < 4" for k j
    using assms [rule_format, of "k + j"] that by (simp add: add.assoc)
  have r32: "rd32 m' (a + of_nat k) = rd32 m (a + of_nat k)" if "k < 1021" for k
    using at [OF that, of 0] at [OF that, of 1] at [OF that, of 2] at [OF that, of 3] by (simp add: rd32_def)
  have r16: "rd16 m' (a + of_nat k) = rd16 m (a + of_nat k)" if "k < 1021" for k
    using at [OF that, of 0] at [OF that, of 1] by (simp add: rd16_def)
  show "es_signature m' a = es_signature m a" "es_block_size m' a = es_block_size m a" "es_major_version m' a = es_major_version m a"
    "es_inode_size m' a = es_inode_size m a" "es_inodes_per_group m' a = es_inodes_per_group m a"
    "es_block_count m' a = es_block_count m a" "es_blocks_per_group m' a = es_blocks_per_group m a"
    using r16 [of 56] r16 [of 88] r32 [of 24] r32 [of 76] r32 [of 40] r32 [of 4] r32 [of 32]
    by (simp_all add: es_signature_def es_block_size_def es_major_version_def es_inode_size_def es_inodes_per_group_def
        es_block_count_def es_blocks_per_group_def)
qed

lemma outside_part: "outside P a n \<Longrightarrow> i + k \<le> n \<Longrightarrow> outside P (a + of_nat i) k"
  by (auto simp: outside_def add.assoc simp flip: of_nat_add)

text \<open>Copying a sector out of the cache and giving the buffer back keeps the cache in order.\<close>

lemma load_sector_inv:
  fixes s :: "'a cache_scheme"
  assumes inv: "cache_inv P s" and g: "get_block block dev s = Done bh u" and dest: "outside P a 512"
    and p: "put_block bh (u\<lparr>mem := memcpy (mem u) a (bh_buff bh) BLOCK_SIZE\<rparr>) = Done () t"
  shows "cache_inv P t"
proof -
  have u: "bh \<in> P" "cache_inv P u" using get_block_safe [OF inv g] by blast+
  have "pool_same P (mem u) (memcpy (mem u) a (bh_buff bh) BLOCK_SIZE)"
    using pool_same_memcpy [OF dest, of "mem u" "bh_buff bh"] by (simp add: memcpy_def BLOCK_SIZE_def)
  then have "cache_inv P (u\<lparr>mem := memcpy (mem u) a (bh_buff bh) BLOCK_SIZE\<rparr>)"
    using cache_inv_heads [OF u(2)] pool_same_head by blast
  from put_block_effect [OF this u(1) p] show ?thesis by blast
qed

text \<open>\<^verbatim>\<open>ext2_parse_superblock\<close> (into a destination outside the cache) returns only for a superblock with the
  ext2 signature, and then the static variables describe its geometry: the block size is 1024
  shifted by the logarithm found there (a multiple of 512 for every logarithm below 22), the inode
  size is the stored one, or 128 for old revisions, and never 0, and the number of inodes per
  block is their quotient.\<close>

lemma superblock_geometry:
  fixes s t :: "'a ext2_scheme"
  assumes inv: "cache_inv P s" and dest: "outside P dest 1024" and run: "ext2_parse_superblock dest dev s = Done () t"
  defines "k \<equiv> unat (es_block_size (mem t) dest AND 31)"
  shows "es_signature (mem t) dest = 0xEF53 \<and> block_size t = push_bit k 0x400 \<and>
    (if k < 22 then unat (block_size t) = 512 * 2 ^ (k + 1) else True) \<and>
    inode_size t \<noteq> 0 \<and> inode_size t = (if es_major_version (mem t) dest \<ge> 1 then ucast (es_inode_size (mem t) dest) else 128) \<and>
    inodes_per_block t = block_size t div inode_size t \<and> inodes_per_group t = es_inodes_per_group (mem t) dest \<and>
    block_group_count t = CEILING_DIV (es_block_count (mem t) dest) (es_blocks_per_group (mem t) dest) \<and>
    (\<exists>b \<in> P. bgdt_entries t = bh_buff b \<and> bh_dev (mem t) b = dev \<and>
       bh_block_num (mem t) b = ADDR_OF_BLOCK (if block_size t = 0x400 then 2 else 1) t)"
proof -
  obtain b1 s1 s2 b2 s3 u v where g: "get_block SUPERBLOCK_ADDR dev s = Done b1 s1"
    and p: "put_block b1 (s1\<lparr>mem := memcpy (mem s1) dest (bh_buff b1) BLOCK_SIZE\<rparr>) = Done () s2"
    and g2: "get_block (SUPERBLOCK_ADDR + 1) dev s2 = Done b2 s3"
    and p2: "put_block b2 (s3\<lparr>mem := memcpy (mem s3) (dest + BLOCK_SIZE) (bh_buff b2) BLOCK_SIZE\<rparr>) = Done () u"
    and sig: "es_signature (mem u) dest = 0xEF53" and geo: "set_geometry dest u = Done () v"
    and r: "read_bgd_table dev v = Done () t"
    using run by (auto simp: ext2_parse_superblock_def obind_Done_iff kpanic_def Let_def split: if_splits)
  obtain w bh where w: "get_block (ADDR_OF_BLOCK (bgd_addr v) v) dev v = Done bh w" "t = w\<lparr>bgdt_entries := bh_buff bh\<rparr>"
    using r by (auto simp: read_bgd_table_def obind_Done_iff)
  have o: "outside P dest 512" "outside P (dest + BLOCK_SIZE) 512"
    using outside_part [OF dest, of 0 512] outside_part [OF dest, of 512 512] by (simp_all add: BLOCK_SIZE_def)
  note e = set_geometry_effect [OF geo]
  have "cache_inv P u" by (rule load_sector_inv [OF load_sector_inv [OF inv g o(1) p] g2 o(2) p2])
  then have inv_v: "cache_inv P v" using e by (simp add: cache_inv_def)
  note safe = get_block_safe [OF inv_v w(1)]
  have "pool_only P (mem u) (mem t)" using safe e(1) by (simp add: w(2))
  then have same: "\<forall>k < 1024. mem t (dest + of_nat k) = mem u (dest + of_nat k)"
    using dest unfolding pool_only_def outside_def by blast
  note es = es_cong [OF same]
  note m = more_ext2 [OF get_block_more [OF w(1)]]
  have t: "block_size t = block_size v" "inodes_per_group t = inodes_per_group v" "inode_size t = inode_size v"
    "inodes_per_block t = inodes_per_block v" "block_group_count t = block_group_count v"
    using m by (simp_all add: w(2))
  have "bh_block_num (mem t) bh = ADDR_OF_BLOCK (bgd_addr v) v \<and> bh_dev (mem t) bh = dev"
    using find_buffer_Some [OF get_block_found [OF inv_v w(1)], of P] safe by (auto simp: cache_inv_def bh_head pool_ok_def w(2))
  then have "\<exists>b \<in> P. bgdt_entries t = bh_buff b \<and> bh_dev (mem t) b = dev \<and>
      bh_block_num (mem t) b = ADDR_OF_BLOCK (if block_size v = 0x400 then 2 else 1) t"
    using safe e(12) t(1) by (intro bexI [of _ bh]) (auto simp: w(2) ADDR_OF_BLOCK_def)
  then show ?thesis
    using sig block_size_sectors [of k] e(3) unfolding t e(2-8) k_def es by simp
qed

text \<open>What the superblock at \<open>a\<close> says, in natural numbers: the bytes of a block and of an inode.\<close>

definition block_bytes :: "memory \<Rightarrow> u32 \<Rightarrow> nat" where
  "block_bytes m a = 1024 * 2 ^ unat (es_block_size m a)"

definition inode_bytes :: "memory \<Rightarrow> u32 \<Rightarrow> nat" where
  "inode_bytes m a = (if es_major_version m a \<ge> 1 then unat (es_inode_size m a) else 128)"

lemma descriptor_table_sector:
  fixes s :: "'a ext2_scheme"
  assumes "unat (block_size s) = 512 * q"
  shows "unat (ADDR_OF_BLOCK (if block_size s = 0x400 then 2 else 1) s) = (if 512 * q = 1024 then 4 else q)"
proof (cases "block_size s = 0x400")
  case True
  then show ?thesis using assms by (simp add: ADDR_OF_BLOCK_def BLOCK_SIZE_def)
next
  case False
  then have "512 * q \<noteq> 1024" using assms by (auto simp: word_unat_eq_iff)
  then show ?thesis using False assms by (simp add: ADDR_OF_BLOCK_def BLOCK_SIZE_def unat_div)
qed

lemma inode_group:
  fixes s :: "'a ext2_scheme"
  assumes "0 < inode"
  shows "unat (BG_OF_INODE inode s) = (unat inode - 1) div unat (inodes_per_group s)"
    "unat (INODE_INDEX inode s) = (unat inode - 1) mod unat (inodes_per_group s)"
  using assms by (simp_all add: BG_OF_INODE_def INODE_INDEX_def unat_div unat_mod unat_pred_word)

text \<open>C17: After \<^verbatim>\<open>ext2_parse_superblock\<close> has returned (with a block size of at most 2 GiB that is a multiple of the inode
  size), \<^verbatim>\<open>read_inode\<close> looks for every inode where the disk format puts it. The superblock has the ext2 signature, and a buffer of the
  cache is held for the sector in which the block group descriptors start, that of block 2 for blocks of 1024 bytes and of block 1 for larger
  ones. Inode number \<open>ino\<close> is number \<open>(ino - 1) mod n\<close> of group \<open>(ino - 1) div n\<close>, for the superblock's \<open>n\<close> inodes per group; if the
  descriptor of the group is in that first sector (the groups 0 to 15), the sector and offset computed for the inode
  denote the byte of the disk at which it lies, its number in the group times the inode size behind the start of the block that the word at offset 8 of the group's 32-byte
  descriptor names, as long as this byte has a 32-bit sector number.\<close>

theorem superblock_locates_inode:
  fixes s t :: "'a ext2_scheme"
  assumes inv: "cache_inv P s" and dest: "outside P dest 1024" and run: "ext2_parse_superblock dest dev s = Done () t"
    and k: "es_block_size (mem t) dest < 22" and z: "inode_bytes (mem t) dest dvd block_bytes (mem t) dest"
  shows "es_signature (mem t) dest = 0xEF53 \<and> (\<exists>b \<in> P. bh_dev (mem t) b = dev \<and>
    unat (bh_block_num (mem t) b) = (if block_bytes (mem t) dest = 1024 then 4 else block_bytes (mem t) dest div 512) \<and>
    (\<forall>ino. let n = unat (es_inodes_per_group (mem t) dest); group = (unat ino - 1) div n; index = (unat ino - 1) mod n;
         table = unat (rd32 (mem t) (bh_buff b + of_nat (32 * group + 8)));
         place = block_bytes (mem t) dest * table + index * inode_bytes (mem t) dest
       in 0 < ino \<and> group < 16 \<and> index * inode_bytes (mem t) dest < 2 ^ 32 \<and> place < 512 * 2 ^ 32 \<longrightarrow>
         512 * unat (inode_sector ino t) + unat (INODE_OFFSET ino t) = place))"
proof -
  define k where "k = unat (es_block_size (mem t) dest)"
  have k: "k < 22" using k by (simp add: k_def word_less_nat_alt)
  have mask: "unat (es_block_size (mem t) dest AND 31) = k"
  proof -
    have "es_block_size (mem t) dest AND 31 = take_bit 5 (es_block_size (mem t) dest)" by (simp add: take_bit_eq_mask mask_eq_exp_minus_1)
    then show ?thesis using k by (simp add: k_def unat_mod take_bit_eq_mod)
  qed
  note g = superblock_geometry [OF inv dest run, unfolded mask]
  have q: "unat (block_size t) = 512 * 2 ^ (k + 1)" using g block_size_sectors [OF k] by metis
  have bb: "block_bytes (mem t) dest = 512 * 2 ^ (k + 1)" by (simp add: block_bytes_def k_def)
  have ib: "unat (inode_size t) = inode_bytes (mem t) dest" using g unat_u16_less [of "es_inode_size (mem t) dest"] by (simp add: inode_bytes_def unsigned_ucast_eq take_bit_eq_mod)
  have nz: "inode_size t \<noteq> 0" and ipb: "inodes_per_block t = block_size t div inode_size t"
    and n: "inodes_per_group t = es_inodes_per_group (mem t) dest" using g by blast+
  obtain b where b: "b \<in> P" "bgdt_entries t = bh_buff b" "bh_dev (mem t) b = dev"
    "bh_block_num (mem t) b = ADDR_OF_BLOCK (if block_size t = 0x400 then 2 else 1) t" using g by blast
  have place: "512 * unat (inode_sector ino t) + unat (INODE_OFFSET ino t) =
      block_bytes (mem t) dest * unat table + index * inode_bytes (mem t) dest"
    if "0 < ino" "group = (unat ino - 1) div unat (inodes_per_group t)" "index = (unat ino - 1) mod unat (inodes_per_group t)"
      "table = rd32 (mem t) (bh_buff b + of_nat (32 * group + 8))" "index * inode_bytes (mem t) dest < 2 ^ 32"
      "block_bytes (mem t) dest * unat table + index * inode_bytes (mem t) dest < 512 * 2 ^ 32" for ino group index table
  proof -
    note gi = inode_group [OF that(1), of t]
    have "BG_OF_INODE ino t = of_nat group" using gi(1) that(2) by (metis of_nat_unat ucast_id)
    then have "table = bgd_inode_table (mem t) (bgdt_entries t) (BG_OF_INODE ino t)"
      by (simp add: that(4) bgd_inode_table_def b(2) add.assoc)
    from inode_location [OF q _ nz _ ipb this] show ?thesis using that z by (simp add: gi(2) ib q bb)
  qed
  have "unat (bh_block_num (mem t) b) = (if block_bytes (mem t) dest = 1024 then 4 else block_bytes (mem t) dest div 512)"
    using descriptor_table_sector [OF q] by (simp add: b(4) bb)
  with b(1,3) g place show ?thesis unfolding Let_def n by blast
qed

section \<open>A read loop without end\<close>

text \<open>C40: The loop of \<^verbatim>\<open>ext2_read\<close> never ends when everything asked for has been read and the file has a further
  direct block: the loop over the sectors does nothing for a count of zero, and nothing else advances.\<close>

theorem ext2_read_spins:
  assumes "t_count v = 0" and "t_i v < 12" and "ei_direct_block (mem s) tmp_inode (t_i v) \<noteq> 0"
  shows "ext2_read_blocks dev tmp_inode off v s = None"
proof (rule ccontr)
  assume "ext2_read_blocks dev tmp_inode off v s \<noteq> None"
  then obtain r where r: "ext2_read_blocks dev tmp_inode off v s = Some r" by blast
  have e: "ext2_read_sectors n k dev tmp_inode off v s = Done (Inr v) s" if "t_count v = 0"
    for n k dev tmp_inode off v and s :: "'a ext2_scheme"
    using that by (cases n) simp_all
  have "\<not> (t_count v = 0 \<and> t_i v < 12 \<and> ei_direct_block (mem s) tmp_inode (t_i v) \<noteq> 0)"
  proof (induction rule: ext2_read_blocks.raw_induct [OF _ r])
    case (1 f dev tmp_inode off v s r)
    show ?case using 1(1) [of dev tmp_inode off v s r] 1(2) e [of v] by (auto split: if_splits)
  qed
  with assms show False by blast
qed

section \<open>Scanning a directory\<close>

text \<open>The entries \<open>ds\<close> follow one another from \<open>d\<close>, and \<open>e\<close> follows the last of them; all of them end
  before the sector at \<open>buff\<close> does.\<close>

fun dir_chain :: "memory \<Rightarrow> u32 \<Rightarrow> u32 \<Rightarrow> u32 list \<Rightarrow> u32 \<Rightarrow> bool" where
  "dir_chain m buff d [] e = (d = e)"
| "dir_chain m buff d (x # xs) e =
     (d = x \<and> x + ucast (de_entry_size m x) < buff + 512 \<and> dir_chain m buff (x + ucast (de_entry_size m x)) xs e)"

definition entry_matches :: "memory \<Rightarrow> u32 \<Rightarrow> u32 \<Rightarrow> u32 \<Rightarrow> bool" where
  "entry_matches m filename len d \<longleftrightarrow> de_inode m d \<noteq> 0 \<and> unat (de_name_length m d) = unat len \<and>
     \<not> (\<exists>j < len. m (filename + j) \<noteq> m (d + 8 + j))"

definition total_size :: "memory \<Rightarrow> u32 list \<Rightarrow> nat" where
  "total_size m ds = sum_list (map (\<lambda>d. unat (de_entry_size m d)) ds)"

lemma entry_matches_iff:
  "entry_matches m filename len d \<longleftrightarrow>
     de_inode m d \<noteq> SKIP_DIR \<and> ucast (de_name_length m d) = len \<and> strncmp m filename (d + 8) len = 0"
proof -
  have "unat (de_name_length m d) = unat len \<longleftrightarrow> ucast (de_name_length m d) = len"
    using unsigned_less [of "de_name_length m d", where 'a = nat] by (simp add: word_unat_eq_iff unsigned_ucast_eq take_bit_eq_mod)
  then show ?thesis by (auto simp: entry_matches_def SKIP_DIR_def strncmp_zero_iff)
qed

text \<open>C26: The scan of a directory sector returns the first entry with the wanted name among
  those that end before the sector does; an entry that ends with the sector, as the last entry of
  every directory block does, is never looked at.\<close>

theorem scan_finds_first_entry:
  assumes "dir_chain m buff d ds e" and "\<not> e + ucast (de_entry_size m e) < buff + 512"
    and "unat seen + total_size m ds \<le> unat limit"
  shows "scan_entries m buff filename len limit seen d =
    Some (case find (entry_matches m filename len) ds of
      Some x \<Rightarrow> Found x | None \<Rightarrow> Sector_end (seen + of_nat (total_size m ds)))"
  using assms
proof (induction ds arbitrary: d seen)
  case Nil
  then show ?case by (simp add: scan_entries.simps BLOCK_SIZE_def total_size_def)
next
  case (Cons x ds)
  define n where "n = unat (de_entry_size m x)"
  have n: "ucast (de_entry_size m x) = (of_nat n :: u32)" by (simp add: n_def)
  have d: "d = x" "x + of_nat n < buff + 512" "dir_chain m buff (x + of_nat n) ds e"
    using Cons.prems(1) by (simp_all add: n)
  have lim: "unat seen + n + total_size m ds \<le> unat limit" using Cons.prems(3) by (simp add: total_size_def n_def)
  have "unat limit < 2 ^ 32" by (rule unat_u32_less)
  then have un: "unat (seen + of_nat n) = unat seen + n"
    using lim by (subst unat_add_fits) (simp_all add: unat_of_nat)
  have le: "\<not> seen + of_nat n > limit" using lim un by (simp add: word_less_nat_alt)
  have IH: "scan_entries m buff filename len limit (seen + of_nat n) (x + of_nat n) =
    Some (case find (entry_matches m filename len) ds of
      Some x \<Rightarrow> Found x | None \<Rightarrow> Sector_end (seen + of_nat n + of_nat (total_size m ds)))"
    using Cons.IH [OF d(3) Cons.prems(2), of "seen + of_nat n"] lim un by simp
  have t: "total_size m (x # ds) = n + total_size m ds" by (simp add: total_size_def n_def)
  show ?case
  proof (cases "entry_matches m filename len x")
    case True
    then show ?thesis unfolding d(1) using d(2)
      by (subst scan_entries.simps) (simp add: n BLOCK_SIZE_def entry_matches_iff)
  next
    case False
    then have "scan_entries m buff filename len limit seen x =
        scan_entries m buff filename len limit (seen + of_nat n) (x + of_nat n)"
      using d(2) le by (subst scan_entries.simps) (auto simp: n BLOCK_SIZE_def entry_matches_iff)
    then show ?thesis using False unfolding d(1) IH t of_nat_add add.assoc by simp
  qed
qed

section \<open>Examples\<close>

text \<open>A buffer that is held by another user is returned without any transfer; copying it out and giving it back
  leaves the cache as it was.\<close>

lemma wr32_at: "x - a < 4 \<Longrightarrow> wr32 m a v x = wr32 m' a v x"
proof -
  define k where "k = unat (x - a)"
  assume "x - a < 4"
  then have "k = 0 \<or> k = 1 \<or> k = 2 \<or> k = 3" by (simp add: word_less_nat_alt k_def) linarith
  moreover have "x = a + of_nat k" by (simp add: k_def)
  ultimately show ?thesis by (auto simp: wr32_def)
qed

definition copied :: "u32 \<Rightarrow> u32 \<Rightarrow> memory \<Rightarrow> memory" where
  "copied a b m = (\<lambda>x. if x - a < 512 then m (bh_buff b + (x - a)) else m x)"

lemma load_held:
  fixes s :: "'a cache_scheme"
  assumes "buff_head s (ucast block) = b" "b \<noteq> 0" "bh_block_num (mem s) b = block" "bh_dev (mem s) b = dev"
    and c: "set_count b 1 (mem s) = mem s" and far: "544 \<le> a - b" "512 \<le> b - a"
  shows "get_block block dev s = Done b (tty_update (terminal_printhex32 block) (s\<lparr>mem := set_count b 2 (mem s)\<rparr>))"
    "put_block b (s\<lparr>mem := memcpy (set_count b 2 (mem s)) a (bh_buff b) BLOCK_SIZE\<rparr>) = Done () (s\<lparr>mem := copied a b (mem s)\<rparr>)"
proof -
  have "bh_count (mem s) b = bh_count (set_count b 1 (mem s)) b" using c by simp
  then have n: "bh_count (mem s) b = 1" by simp
  show "get_block block dev s = Done b (tty_update (terminal_printhex32 block) (s\<lparr>mem := set_count b 2 (mem s)\<rparr>))"
    using find_buffer_cached [of b "mem s" block dev] assms n by (simp add: get_block_def get_hit_def)
  define m where "m = mem s"
  have w: "BLOCK_SIZE \<le> a - bh_buff b"
    using far unfolding BLOCK_SIZE_def bh_buff_def by uint_arith
  have e: "memcpy (set_count b 2 m) a (bh_buff b) BLOCK_SIZE = (\<lambda>x. if x - a < 512 then m (bh_buff b + (x - a)) else set_count b 2 m x)"
  proof -
    have "set_count b 2 m (bh_buff b + d) = m (bh_buff b + d)" if "d < 512" for d
    proof -
      have "4 \<le> 20 + d" using that by (simp add: word_le_nat_alt word_less_nat_alt unat_word_ariths)
      then show ?thesis unfolding set_count_def bh_buff_def by (intro wr32_other) (simp add: algebra_simps)
    qed
    then show ?thesis using memcpy_eq [OF disjI1 [OF w], of "set_count b 2 m"] by (auto simp: BLOCK_SIZE_def)
  qed
  have n2: "bh_count (memcpy (set_count b 2 m) a (bh_buff b) BLOCK_SIZE) b = 2"
  proof -
    have "\<not> b + 12 + k - a < 512" if "k < 4" for k using far that by uint_arith
    from this [of 0] this [of 1] this [of 2] this [of 3]
    have "bh_count (memcpy (set_count b 2 m) a (bh_buff b) BLOCK_SIZE) b = bh_count (set_count b 2 m) b"
      unfolding e by (simp add: bh_count_def rd32_def)
    then show ?thesis by simp
  qed
  have "set_count b 1 (memcpy (set_count b 2 m) a (bh_buff b) BLOCK_SIZE) x = copied a b m x" for x
  proof (cases "x - (b + 12) < 4")
    case True
    then have "\<not> x - a < 512" using far by uint_arith
    moreover have "set_count b 1 (memcpy (set_count b 2 m) a (bh_buff b) BLOCK_SIZE) x = set_count b 1 m x"
      unfolding set_count_def by (rule wr32_at [OF True])
    ultimately show ?thesis using c by (simp add: copied_def m_def)
  next
    case False
    then show ?thesis unfolding e copied_def by (simp add: set_count_def wr32_other)
  qed
  then have "set_count b 1 (memcpy (set_count b 2 m) a (bh_buff b) BLOCK_SIZE) = copied a b m" by blast
  then show "put_block b (s\<lparr>mem := memcpy (set_count b 2 (mem s)) a (bh_buff b) BLOCK_SIZE\<rparr>) = Done () (s\<lparr>mem := copied a b (mem s)\<rparr>)"
    using n2 by (simp add: put_block_def m_def)
qed

text \<open>A cache that holds the two sectors of a superblock and the block group descriptors.\<close>

definition sample_sb_pool :: "u32 set" where "sample_sb_pool = {0xC0200000, 0xC0201000, 0xC0202000}"

definition sample_sb_mem :: memory where
  "sample_sb_mem = (\<lambda>_. 0)
     (0xC0200004 := 2, 0xC020000B := 3, 0xC020000C := 1, 0xC0201004 := 3, 0xC020100B := 3, 0xC020100C := 1,
      0xC0202004 := 4, 0xC020200B := 3, 0xC020200C := 1,
      0xC0200040 := 1, 0xC0200048 := 16, 0xC0200058 := 0x53, 0xC0200059 := 0xEF, 0xC0202028 := 5)"

definition sample_ext2 :: ext2 where
  "sample_ext2 = (devfs.extend (vfs.extend (cache.extend sample_cache (vfs.fields 0 0 0 0)) (devfs.fields 0 0 0 0 (\<lambda>_. 0)))
       (ext2.fields 0 0 0 0 0 0 0 0 0 0 0 0 0 0 0 0 0 (\<lambda>_. 0)))
     \<lparr>mem := sample_sb_mem, buff_head := (\<lambda>_. 0)(2 := 0xC0200000, 3 := 0xC0201000, 4 := 0xC0202000),
      lru_buff := 0, mru_buff := 0\<rparr>"

lemma sample_ext2_simps:
  "mem sample_ext2 = sample_sb_mem"
  "buff_head sample_ext2 = (\<lambda>_. 0)(2 := 0xC0200000, 3 := 0xC0201000, 4 := 0xC0202000)"
  "lru_buff sample_ext2 = 0" "mru_buff sample_ext2 = 0"
  by (simp_all add: sample_ext2_def)

lemma sample_sb_heads:
  "head sample_sb_mem 0xC0200000 = \<lparr>h_flags = 0, h_block_num = 2, h_dirty = 0, h_dev = 0x300, h_count = 1, h_next = 0,
     h_prev = 0, h_next_free = 0, h_prev_free = 0\<rparr>"
  "head sample_sb_mem 0xC0201000 = \<lparr>h_flags = 0, h_block_num = 3, h_dirty = 0, h_dev = 0x300, h_count = 1, h_next = 0,
     h_prev = 0, h_next_free = 0, h_prev_free = 0\<rparr>"
  "head sample_sb_mem 0xC0202000 = \<lparr>h_flags = 0, h_block_num = 4, h_dirty = 0, h_dev = 0x300, h_count = 1, h_next = 0,
     h_prev = 0, h_next_free = 0, h_prev_free = 0\<rparr>"
  by (simp_all add: head_def bh_get_defs byte_defs sample_sb_mem_def)

lemma sample_ext2_inv: "cache_inv sample_sb_pool sample_ext2"
  by (simp add: cache_inv_def sample_ext2_simps links_ok_def sample_sb_heads sample_sb_pool_def pool_ok_def apart_def)

lemma count_idem:
  assumes "m (b + 12) = 1" "m (b + 13) = 0" "m (b + 14) = 0" "m (b + 15) = 0"
  shows "set_count b 1 m = m"
  using assms by (simp add: set_count_def wr32_def fun_upd_idem add.commute)

lemma sample_sb_count: "set_count 0xC0200000 1 sample_sb_mem = sample_sb_mem"
  by (rule count_idem) (simp_all add: sample_sb_mem_def)

text \<open>The two sectors of the superblock, copied to \<^verbatim>\<open>0xC0300000\<close>.\<close>

definition sample_read_mem :: memory where
  "sample_read_mem = copied 0xC0300200 0xC0201000 (copied 0xC0300000 0xC0200000 sample_sb_mem)"

lemma sample_read_bytes:
  "es_signature sample_read_mem 0xC0300000 = 0xEF53" "es_block_size sample_read_mem 0xC0300000 = 0"
  "es_blocks_per_group sample_read_mem 0xC0300000 = 1" "es_inodes_per_group sample_read_mem 0xC0300000 = 16"
  "es_major_version sample_read_mem 0xC0300000 = 0"
  by (simp_all add: es_signature_def es_block_size_def es_blocks_per_group_def es_inodes_per_group_def es_major_version_def
      sample_read_mem_def copied_def byte_defs bh_buff_def sample_sb_mem_def)

lemma sample_parse:
  "\<exists>t. ext2_parse_superblock 0xC0300000 0x300 sample_ext2 = Done () t \<and>
     mem t = set_count 0xC0202000 2 sample_read_mem \<and> bgdt_entries t = 0xC0202020 \<and> block_size t = 0x400 \<and>
     inode_size t = 128 \<and> inodes_per_group t = 16"
proof -
  define m1 where "m1 = copied 0xC0300000 0xC0200000 sample_sb_mem"
  define s1 where "s1 = tty_update (terminal_printhex32 2) sample_ext2"
  have s1: "get_block SUPERBLOCK_ADDR 0x300 sample_ext2 = Done 0xC0200000 (s1\<lparr>mem := set_count 0xC0200000 2 sample_sb_mem\<rparr>)"
    "put_block 0xC0200000 (s1\<lparr>mem := memcpy (set_count 0xC0200000 2 sample_sb_mem) 0xC0300000 (bh_buff 0xC0200000) BLOCK_SIZE\<rparr>)
       = Done () (s1\<lparr>mem := m1\<rparr>)"
    using load_held [where s = sample_ext2 and block = 2 and b = "0xC0200000" and dev = "0x300" and a = "0xC0300000"]
      load_held(2) [where s = s1 and block = 2 and b = "0xC0200000" and dev = "0x300" and a = "0xC0300000"]

    by (simp_all add: sample_sb_count s1_def sample_ext2_simps bh_head sample_sb_heads m1_def SUPERBLOCK_ADDR_def)
  define s2 where "s2 = tty_update (terminal_printhex32 3) s1"
  have h2: "bh_block_num m1 0xC0201000 = 3" "bh_dev m1 0xC0201000 = 0x300" "set_count 0xC0201000 1 m1 = m1"
    by (simp_all add: count_idem m1_def copied_def bh_get_defs byte_defs sample_sb_mem_def)
  have "get_block (SUPERBLOCK_ADDR + 1) 0x300 (s1\<lparr>mem := m1\<rparr>) = Done 0xC0201000 (s2\<lparr>mem := set_count 0xC0201000 2 m1\<rparr>)"
    "put_block 0xC0201000 (s2\<lparr>mem := memcpy (set_count 0xC0201000 2 m1) (0xC0300000 + BLOCK_SIZE) (bh_buff 0xC0201000) BLOCK_SIZE\<rparr>)
       = Done () (s2\<lparr>mem := sample_read_mem\<rparr>)"
    using load_held [where s = "s1\<lparr>mem := m1\<rparr>" and block = 3 and b = "0xC0201000" and dev = "0x300" and a = "0xC0300200"]
      load_held(2) [where s = "s2\<lparr>mem := m1\<rparr>" and block = 3 and b = "0xC0201000" and dev = "0x300" and a = "0xC0300200"] h2
    by (simp_all add: s1_def s2_def sample_ext2_simps sample_read_mem_def m1_def [symmetric] SUPERBLOCK_ADDR_def BLOCK_SIZE_def)
  note read = s1 this
  obtain s3 where s3: "set_geometry 0xC0300000 (s2\<lparr>mem := sample_read_mem\<rparr>) = Done () s3"
    by (simp add: set_geometry_def Let_def sample_read_bytes)
  note g = set_geometry_effect [OF s3]
  have a3: "ADDR_OF_BLOCK (bgd_addr s3) s3 = 4"
    using s3 by (auto simp: set_geometry_def Let_def sample_read_bytes ADDR_OF_BLOCK_def BLOCK_SIZE_def)
  have h3: "bh_block_num sample_read_mem 0xC0202000 = 4" "bh_dev sample_read_mem 0xC0202000 = 0x300"
    "set_count 0xC0202000 1 sample_read_mem = sample_read_mem"
    by (simp_all add: count_idem sample_read_mem_def copied_def bh_get_defs byte_defs sample_sb_mem_def)
  have "get_block 4 0x300 s3 = Done 0xC0202000 (tty_update (terminal_printhex32 4) (s3\<lparr>mem := set_count 0xC0202000 2 sample_read_mem\<rparr>))"
    using load_held(1) [where s = s3 and block = 4 and b = "0xC0202000" and dev = "0x300" and a = "0xC0300000"] h3 g
    by (simp add: s1_def s2_def sample_ext2_simps)
  then show ?thesis
    using g s3 a3 bh_buff_def [of "0xC0202000"]
    by (simp add: ext2_parse_superblock_def read sample_read_bytes read_bgd_table_def)
qed


lemma outside_sample:
  assumes "\<And>b. b \<in> P \<Longrightarrow> b \<le> a \<and> 544 \<le> unat (a - b)" and "unat a + n \<le> 2 ^ 32"
  shows "outside P a n"
  unfolding outside_def
proof (intro allI impI ballI)
  fix k b
  assume k: "k < n" and b: "b \<in> P"
  have "unat (a - b) + k < 2 ^ 32" using assms(1) [OF b] assms(2) k by (simp add: unat_sub_if_size word_le_nat_alt split: if_splits)
  then have "unat (a - b + of_nat k) = unat (a - b) + k" by (simp add: unat_word_ariths unat_of_nat)
  then show "544 \<le> a + of_nat k - b" using assms(1) [OF b] by (simp add: word_le_nat_alt add_diff_eq diff_add_eq)
qed

lemma sample_sb_outside: "n \<le> 1024 \<Longrightarrow> outside sample_sb_pool 0xC0300000 n"
  by (rule outside_sample) (auto simp: sample_sb_pool_def)

theorem superblock_locates_inode_witness:
  "\<exists>t. ext2_parse_superblock 0xC0300000 0x300 sample_ext2 = Done () t \<and>
     512 * unat (inode_sector 2 t) + unat (INODE_OFFSET 2 t) = 1024 * 5 + 128"
proof -
  obtain t where t: "ext2_parse_superblock 0xC0300000 0x300 sample_ext2 = Done () t"
    "mem t = set_count 0xC0202000 2 sample_read_mem" using sample_parse by blast
  have e: "es_block_size (mem t) 0xC0300000 = 0" "es_major_version (mem t) 0xC0300000 = 0" "es_inodes_per_group (mem t) 0xC0300000 = 16"
    using sample_read_bytes(2,4,5)
    by (simp_all add: t(2) es_block_size_def es_major_version_def es_inodes_per_group_def set_count_def byte_defs)
  then have s: "block_bytes (mem t) 0xC0300000 = 1024" "inode_bytes (mem t) 0xC0300000 = 128"
    by (simp_all add: block_bytes_def inode_bytes_def)
  from superblock_locates_inode [OF sample_ext2_inv sample_sb_outside t(1)] obtain b where b: "b \<in> sample_sb_pool"
    "unat (bh_block_num (mem t) b) = 4" and place: "\<forall>ino. let n = 16; group = (unat ino - 1) div n; index = (unat ino - 1) mod n;
         table = unat (rd32 (mem t) (bh_buff b + of_nat (32 * group + 8))); place = 1024 * table + index * 128
       in 0 < ino \<and> group < 16 \<and> index * 128 < 2 ^ 32 \<and> place < 512 * 2 ^ 32 \<longrightarrow>
         512 * unat (inode_sector ino t) + unat (INODE_OFFSET ino t) = place" by (auto simp: e s)
  have "b = 0xC0202000" using b
    by (auto simp: sample_sb_pool_def t(2) bh_get_defs set_count_def byte_defs sample_read_mem_def copied_def sample_sb_mem_def)
  moreover have "rd32 (mem t) (bh_buff 0xC0202000 + 8) = 5"
    by (simp add: t(2) bh_buff_def set_count_def byte_defs sample_read_mem_def copied_def sample_sb_mem_def)
  ultimately show ?thesis using t(1) place [rule_format, of 2] by (auto simp: Let_def)
qed

definition sample_geometry :: ext2 where
  "sample_geometry = sample_ext2\<lparr>block_size := 0x400, inodes_per_group := 16, inode_size := 128, inodes_per_block := 8,
     bgdt_entries := 0xC0400000\<rparr>"

theorem read_inode_copies_witness:
  "\<exists>t. read_inode 0xC0300000 9 0x300 sample_geometry = Done 0xC0200000 t \<and>
     load_bytes (mem t) 0xC0300000 128 = take 128 (contents (mem t) 0xC0200000)"
proof -
  have t: "bgd_inode_table sample_sb_mem 0xC0400000 0 = 0"
    by (simp add: bgd_inode_table_def byte_defs sample_sb_mem_def)
  have g: "block_size sample_geometry = 0x400" "inodes_per_group sample_geometry = 16" "inode_size sample_geometry = 128"
    "inodes_per_block sample_geometry = 8" "bgdt_entries sample_geometry = 0xC0400000" "mem sample_geometry = sample_sb_mem"
    by (simp_all add: sample_geometry_def sample_ext2_simps)
  have o: "INODE_OFFSET 9 sample_geometry = 0"
    by (simp add: sample_geometry_def INODE_OFFSET_def INODE_INDEX_def BLOCK_SIZE_def)
  have i: "cache_inv sample_sb_pool sample_geometry" using sample_ext2_inv by (simp add: sample_geometry_def cache_inv_def)
  have b: "get_block 2 0x300 (tty_update f sample_geometry) =
      Done 0xC0200000 (tty_update (terminal_printhex32 2) ((tty_update f sample_geometry)\<lparr>mem := set_count 0xC0200000 2 sample_sb_mem\<rparr>))" for f
    using load_held(1) [where s = "tty_update f sample_geometry" and block = 2 and b = "0xC0200000" and dev = "0x300" and a = "0xC0300000"]
    by (simp add: sample_sb_count sample_geometry_def sample_ext2_simps bh_head sample_sb_heads)
  have "\<exists>t. read_inode 0xC0300000 9 0x300 sample_geometry = Done 0xC0200000 t"
    by (simp add: read_inode_def Let_def inode_sector_def b g t ADDR_OF_BLOCK_def BLOCK_OF_INODE_def INODE_INDEX_def
        BG_OF_INODE_def BLOCK_SIZE_def)
  then obtain t where t: "read_inode 0xC0300000 9 0x300 sample_geometry = Done 0xC0200000 t" by blast
  from read_inode_copies [OF i _ _ sample_sb_outside _ t] t o show ?thesis by (auto simp: sample_geometry_def)
qed


text \<open>A directory sector with the files \<open>a\<close>, \<open>b\<close> and \<open>c\<close>, and the names \<open>b\<close> and \<open>c\<close> to look for.\<close>

definition sample_dir :: memory where
  "sample_dir = (\<lambda>_. 0)
     (0xC0500000 := 11, 0xC0500004 := 12, 0xC0500006 := 1, 0xC0500008 := 0x61,
      0xC050000C := 12, 0xC0500010 := 12, 0xC0500012 := 1, 0xC0500014 := 0x62,
      0xC0500018 := 13, 0xC050001C := 0xE8, 0xC050001D := 1, 0xC050001E := 1, 0xC0500020 := 0x63,
      0xC0600000 := 0x62, 0xC0600010 := 0x63)"

lemma less_1_u32: "(j :: u32) < 1 \<longleftrightarrow> j = 0"
  by (simp add: word_less_nat_alt unat_eq_zero)

theorem scan_finds_first_entry_witness:
  "scan_entries sample_dir 0xC0500000 0xC0600000 1 1024 0 0xC0500000 = Some (Found 0xC050000C) \<and>
   scan_entries sample_dir 0xC0500000 0xC0600010 1 1024 0 0xC0500000 = Some (Sector_end 24)"
proof -
  have sz: "de_entry_size sample_dir 0xC0500000 = 12" "de_entry_size sample_dir 0xC050000C = 12"
    "de_entry_size sample_dir 0xC0500018 = 488"
    by (simp_all add: de_entry_size_def byte_defs sample_dir_def)
  have c: "dir_chain sample_dir 0xC0500000 0xC0500000 [0xC0500000, 0xC050000C] 0xC0500018"
    by (simp add: sz)
  have m: "entry_matches m f 1 d \<longleftrightarrow> de_inode m d \<noteq> 0 \<and> unat (de_name_length m d) = 1 \<and> m f = m (d + 8)" for m f d
    by (auto simp: entry_matches_def less_1_u32)
  have "\<not> entry_matches sample_dir 0xC0600000 1 0xC0500000" "entry_matches sample_dir 0xC0600000 1 0xC050000C"
    "\<not> entry_matches sample_dir 0xC0600010 1 0xC0500000" "\<not> entry_matches sample_dir 0xC0600010 1 0xC050000C"
    by (simp_all add: m de_inode_def de_name_length_def byte_defs sample_dir_def)
  moreover have "total_size sample_dir [0xC0500000, 0xC050000C] = 24" by (simp add: total_size_def sz)
  ultimately show ?thesis
    using scan_finds_first_entry [OF c, of 0 1024 "0xC0600000" 1] scan_finds_first_entry [OF c, of 0 1024 "0xC0600010" 1]
    by (simp add: sz)
qed

theorem ext2_read_spins_witness:
  "ext2_read_blocks 0x300 0xC0400000 0 \<lparr>t_i = 1, t_offset = 0, t_moved = 512, t_count = 0, t_buff = 0\<rparr>
     (sample_geometry\<lparr>mem := (\<lambda>_. 0)(0xC040002C := 7)\<rparr>) = None"
  by (rule ext2_read_spins) (simp_all add: ei_direct_block_def byte_defs)

end
