(* ===== verification/Ext2_Files.thy ===== *)
theory Ext2_Files
  imports Ext2
begin

unbundle bit_operations_syntax

text \<open>
  The data of ext2 files. The copying loops of \<^verbatim>\<open>ext2_read\<close> and \<^verbatim>\<open>ext2_write\<close> agree with \<^verbatim>\<open>memcpy\<close>
  up to what they show on the console; a transfer inside a sector whose entry in the inode is followed by an empty one is
  one round of the loops; what such a write stores is what a later read delivers, from the buffer cache alone.
\<close>

section \<open>The copying loops\<close>

lemma copy_out_memcpy: "n < 2 ^ 32 \<Longrightarrow> \<exists>f. copy_out n b p s = tty_update f (s\<lparr>mem := memcpy_loop (mem s) b p (of_nat n)\<rparr>)"
proof (induction n arbitrary: b p s)
  case 0
  then show ?case by (auto simp: memcpy_loop.simps intro: exI [of _ id])
next
  case (Suc n)
  have "(of_nat (Suc n) :: u32) > 0" using Suc.prems by (simp add: word_less_nat_alt unat_of_nat del: of_nat_Suc)
  then have e: "memcpy_loop m b p (of_nat (Suc n)) = memcpy_loop (m(b := m p)) (b + 1) (p + 1) (of_nat n)" for m
    by (subst memcpy_loop.simps) simp
  define s' where "s' = (tty_update (terminal_putchar (mem s p)) s)\<lparr>mem := (mem s)(b := mem s p)\<rparr>"
  obtain f where "copy_out n (b + 1) (p + 1) s' = tty_update f (s'\<lparr>mem := memcpy_loop (mem s') (b + 1) (p + 1) (of_nat n)\<rparr>)"
    using Suc.IH [of "b + 1" "p + 1" s'] Suc.prems by auto
  then have "copy_out (Suc n) b p s = tty_update (f \<circ> terminal_putchar (mem s p)) (s\<lparr>mem := memcpy_loop (mem s') (b + 1) (p + 1) (of_nat n)\<rparr>)"
    by (simp add: Let_def s'_def)
  moreover have "mem s' = (mem s)(b := mem s p)" by (simp add: s'_def)
  ultimately show ?case using e by auto
qed

lemma copy_in_memcpy: "n < 2 ^ 32 \<Longrightarrow> \<exists>f. copy_in n b p s = tty_update f (s\<lparr>mem := memcpy_loop (mem s) p b (of_nat n)\<rparr>)"
proof (induction n arbitrary: b p s)
  case 0
  then show ?case by (auto simp: memcpy_loop.simps intro: exI [of _ id])
next
  case (Suc n)
  have "(of_nat (Suc n) :: u32) > 0" using Suc.prems by (simp add: word_less_nat_alt unat_of_nat del: of_nat_Suc)
  then have e: "memcpy_loop m p b (of_nat (Suc n)) = memcpy_loop (m(p := m b)) (p + 1) (b + 1) (of_nat n)" for m
    by (subst memcpy_loop.simps) simp
  define s' where "s' = (tty_update (terminal_putchar (mem s p)) s)\<lparr>mem := (mem s)(p := mem s b)\<rparr>"
  obtain f where "copy_in n (b + 1) (p + 1) s' = tty_update f (s'\<lparr>mem := memcpy_loop (mem s') (p + 1) (b + 1) (of_nat n)\<rparr>)"
    using Suc.IH [of "b + 1" "p + 1" s'] Suc.prems by auto
  then have "copy_in (Suc n) b p s = tty_update (f \<circ> terminal_putchar (mem s p)) (s\<lparr>mem := memcpy_loop (mem s') (p + 1) (b + 1) (of_nat n)\<rparr>)"
    by (simp add: Let_def s'_def)
  moreover have "mem s' = (mem s)(p := mem s b)" by (simp add: s'_def)
  ultimately show ?case using e by auto
qed


section \<open>Transfers inside one sector\<close>

lemma sectors_nothing_left:
  "t_count v = 0 \<Longrightarrow> ext2_read_sectors q k dev tmp off v = Done (Inr v)"
  "t_count v = 0 \<Longrightarrow> ext2_write_sectors q k dev tmp off v = Done (Inr v)"
  by (rule ext, cases q; simp)+

lemma advance_count: "t_count v = c \<Longrightarrow> t_count (advance c v) = 0"
  by (simp add: advance_def)

lemma chars_of_count:
  assumes "0 < n" and "n \<le> 512"
  shows "(of_nat n :: u32) > 0" "(if of_nat n < BLOCK_SIZE then of_nat n else BLOCK_SIZE) = (of_nat n :: u32)" "unat (of_nat n :: u32) = n"
proof -
  show u: "unat (of_nat n :: u32) = n" using assms(2) by (simp add: unat_of_nat)
  show "(of_nat n :: u32) > 0" using assms u by (simp add: word_less_nat_alt)
  have "of_nat n = (512 :: u32)" if "\<not> n < 512" using assms(2) that by simp
  then show "(if of_nat n < BLOCK_SIZE then of_nat n else BLOCK_SIZE) = (of_nat n :: u32)"
    using u by (auto simp: BLOCK_SIZE_def word_less_nat_alt)
qed

lemma read_one_sector:
  assumes n: "0 < n" "n \<le> 512" "t_count v = of_nat n" and q: "0 < q"
  shows "ext2_read_sectors q 0 dev tmp off v s =
    obind (get_block (ADDR_OF_BLOCK (ei_direct_block (mem s) tmp (t_i v)) s) dev s) (\<lambda>bh u.
      if bh = 0 then Done (Inl (- 1)) u
      else obind (put_block bh (copy_out n (t_buff v) (t_offset v + bh_buff bh) (u\<lparr>mem := wr32 (mem u) off (rd32 (mem u) off + of_nat n)\<rparr>)))
             (\<lambda>_ t. Done (Inr (advance (of_nat n) v)) t))"
proof -
  obtain r where r: "q = Suc r" using q by (cases q) auto
  note z = sectors_nothing_left(1) [OF advance_count [OF n(3)]]
  show ?thesis
    using n(3) chars_of_count [OF n(1,2)] unfolding r by (simp add: Let_def z cong: if_cong)
qed

lemma write_one_sector:
  assumes n: "0 < n" "n \<le> 512" "t_count v = of_nat n" and q: "0 < q"
  shows "ext2_write_sectors q 0 dev tmp off v s =
    obind (get_block (ADDR_OF_BLOCK (ei_direct_block (mem s) tmp (t_i v)) s) dev s) (\<lambda>bh u.
      if bh = 0 then Done (Inl v) u
      else let w = copy_in n (t_buff v) (t_offset v + bh_buff bh) (u\<lparr>mem := wr32 (mem u) off (rd32 (mem u) off + of_nat n)\<rparr>)
           in obind (put_block bh (w\<lparr>mem := set_dirty bh 1 (mem w)\<rparr>)) (\<lambda>_ t. Done (Inr (advance (of_nat n) v)) t))"
proof -
  obtain r where r: "q = Suc r" using q by (cases q) auto
  note z = sectors_nothing_left(2) [OF advance_count [OF n(3)]]
  show ?thesis
    using n(3) chars_of_count [OF n(1,2)] unfolding r by (simp add: Let_def z cong: if_cong)
qed

text \<open>The 128 bytes of an inode copy that neither the cache nor the listed regions touch.\<close>

lemma direct_block_cong:
  assumes "\<forall>k < 128. m' (a + of_nat k) = m (a + of_nat k)" and "i < 12"
  shows "ei_direct_block m' a i = ei_direct_block m a i"
proof -
  define j where "j = 40 + 4 * unat i"
  have j: "a + 40 + 4 * i = a + of_nat j" "j + 4 \<le> 128"
    using assms(2) by (simp_all add: j_def word_less_nat_alt)
  have "m' (a + of_nat j + of_nat k) = m (a + of_nat j + of_nat k)" if "k < 4" for k
    using assms(1) [rule_format, of "j + k"] j(2) that by (simp add: add.assoc)
  from this [of 0] this [of 1] this [of 2] this [of 3] show ?thesis
    unfolding ei_direct_block_def j(1) by (simp add: rd32_def)
qed

lemma rd32_cong4: "\<forall>k < 4. m' (a + of_nat k) = m (a + of_nat k) \<Longrightarrow> rd32 m' a = rd32 m a"
  using all_less_4 [of "\<lambda>k. m' (a + of_nat k) = m (a + of_nat k)"] by (simp add: rd32_def)

text \<open>What one round of reading does to a buffer already obtained.\<close>

lemma read_round:
  fixes u :: "'a ext2_scheme"
  assumes inv: "cache_inv P u" and b: "b \<in> P" and n: "off' + n \<le> 512"
    and out: "outside P dest n" "outside P off 4" and sep: "\<forall>k < 4. of_nat n \<le> off + of_nat k - dest"
    and free: "lru_buff u \<noteq> 0" "mru_buff u \<noteq> 0"
  obtains t where "put_block b (copy_out n dest (of_nat off' + bh_buff b) (u\<lparr>mem := wr32 (mem u) off (rd32 (mem u) off + of_nat n)\<rparr>)) = Done () t"
    "cache_inv P t" "load_bytes (mem t) dest n = take n (drop off' (contents (mem u) b))"
    "rd32 (mem t) off = rd32 (mem u) off + of_nat n" "\<forall>c \<in> P. label (mem t) c = label (mem u) c" "cache.more t = cache.more u"
    "\<forall>x. (\<forall>c \<in> P. 544 \<le> x - c) \<and> 4 \<le> x - off \<and> of_nat n \<le> x - dest \<longrightarrow> mem t x = mem u x"
    "\<forall>c \<in> P. contents (mem t) c = contents (mem u) c" "buff_head t = buff_head u" "io_log t = io_log u"
proof -
  define m1 m2 where "m1 = wr32 (mem u) off (rd32 (mem u) off + of_nat n)"
    and "m2 = memcpy_loop m1 dest (of_nat off' + bh_buff b) (of_nat n)"
  have n': "n < 2 ^ 32" using n by simp
  have P: "pool_ok P" using inv by (simp add: cache_inv_def)
  obtain f where w: "copy_out n dest (of_nat off' + bh_buff b) (u\<lparr>mem := m1\<rparr>) = tty_update f (u\<lparr>mem := m2\<rparr>)"
    using copy_out_memcpy [OF n', of dest "of_nat off' + bh_buff b" "u\<lparr>mem := m1\<rparr>"] by (auto simp: m2_def)
  have ps1: "pool_same P (mem u) m1" unfolding m1_def by (rule pool_same_wr32 [OF out(2)])
  have ps: "pool_same P (mem u) m2"
    using ps1 pool_same_memcpy [OF out(1) n'] unfolding m2_def by (rule pool_same_trans)
  have inv2: "cache_inv P (tty_update f (u\<lparr>mem := m2\<rparr>))"
    using cache_inv_heads [OF inv, of m2] pool_same_head [OF ps] by (simp add: cache_inv_def)
  obtain t where t: "put_block b (tty_update f (u\<lparr>mem := m2\<rparr>)) = Done () t"
    using put_block_returns [of "tty_update f (u\<lparr>mem := m2\<rparr>)" b] free by auto
  note pe = put_block_effect [OF inv2 b t]
  have ho: "heads_only P m2 (mem t)" using pe by simp
  have po: "mem t x = m2 x" if "\<forall>c \<in> P. 544 \<le> x - c" for x
    using heads_only_pool [OF ho] that by (simp add: pool_only_def)
  have frame: "mem t x = mem u x" if x: "\<forall>c \<in> P. 544 \<le> x - c" "4 \<le> x - off" "of_nat n \<le> x - dest" for x
    using po [OF x(1)] x(2,3) by (simp add: m2_def memcpy_loop_frame m1_def wr32_other)
  have cont: "contents (mem t) c = contents (mem u) c" if "c \<in> P" for c
    using heads_only_contents(1) [OF ho P that] pool_same_contents [OF ps that] by simp
  have "mem t (dest + of_nat k) = mem u (bh_buff b + of_nat (off' + k))" if k: "k < n" for k
  proof -
    have "mem t (dest + of_nat k) = m2 (dest + of_nat k)" using po out(1) k unfolding outside_def by blast
    also have "\<dots> = m1 (bh_buff b + of_nat (off' + k))" unfolding m2_def by (rule copy_out_eq [OF out(1) b n k])
    also have "\<dots> = mem u (bh_buff b + of_nat (off' + k))"
      using ps1 b in_buffer [of off' k] k n unfolding pool_same_def bh_buff_def add.assoc by simp
    finally show ?thesis .
  qed
  then have data: "load_bytes (mem t) dest n = take n (drop off' (contents (mem u) b))"
    using n by (intro nth_equalityI) (simp_all add: load_bytes_nth contents_def)
  have "mem t (off + of_nat k) = m1 (off + of_nat k)" if k: "k < 4" for k
  proof -
    have "mem t (off + of_nat k) = m2 (off + of_nat k)" using po out(2) k unfolding outside_def by blast
    also have "\<dots> = m1 (off + of_nat k)" unfolding m2_def using sep k by (intro memcpy_loop_frame) simp
    finally show ?thesis .
  qed
  then have "rd32 (mem t) off = rd32 m1 off" by (intro rd32_cong4) simp
  then have pos: "rd32 (mem t) off = rd32 (mem u) off + of_nat n" by (simp add: m1_def)
  have lab: "\<forall>c \<in> P. label (mem t) c = label (mem u) c" using pe pool_same_head [OF ps] by (simp add: label_def)
  have more: "cache.more t = cache.more u" using put_block_more [OF t] by simp
  show ?thesis
    by (rule that [of t]) (use w t pe data pos lab more frame cont m1_def in auto)
qed

lemma pool_only_outside: "pool_only P m m' \<Longrightarrow> outside P a n \<Longrightarrow> \<forall>k < n. m' (a + of_nat k) = m (a + of_nat k)"
  unfolding pool_only_def outside_def by blast

text \<open>The conditions under which a transfer stays inside one sector and is one round of the loops: the regions it works on are
  outside the cache and apart from each other, and no further direct block follows.\<close>

definition one_sector :: "u32 set \<Rightarrow> u32 \<Rightarrow> u32 \<Rightarrow> nat \<Rightarrow> transfer \<Rightarrow> 'a ext2_scheme \<Rightarrow> bool" where
  "one_sector P tmp off n v s \<longleftrightarrow> 0 < n \<and> unat (t_offset v) + n \<le> 512 \<and> t_count v = of_nat n \<and> 512 \<le> block_size s \<and>
     t_i v < 12 \<and> ei_direct_block (mem s) tmp (t_i v) \<noteq> 0 \<and>
     (t_i v = 11 \<or> ei_direct_block (mem s) tmp (t_i v + 1) = 0) \<and>
     outside P (t_buff v) n \<and> outside P off 4 \<and> outside P tmp 128 \<and>
     (\<forall>k < 4. of_nat n \<le> off + of_nat k - t_buff v) \<and>
     (\<forall>k < 128. 4 \<le> tmp + of_nat k - off \<and> of_nat n \<le> tmp + of_nat k - t_buff v)"

lemma one_sector_ends:
  assumes "one_sector P tmp off n v s" and "\<forall>k < 128. mem t (tmp + of_nat k) = mem s (tmp + of_nat k)"
  shows "\<not> (t_i (advance c v) < 12 \<and> ei_direct_block (mem t) tmp (t_i (advance c v)) \<noteq> 0)"
proof -
  have i: "t_i (advance c v) = t_i v + 1" by (simp add: advance_def)
  have "t_i v = 11 \<or> ei_direct_block (mem s) tmp (t_i v + 1) = 0" using assms(1) by (simp add: one_sector_def)
  moreover have "ei_direct_block (mem t) tmp (t_i v + 1) = ei_direct_block (mem s) tmp (t_i v + 1)" if "t_i v + 1 < 12"
    using direct_block_cong [OF assms(2) that] .
  ultimately show ?thesis unfolding i by auto
qed

lemma sectors_pos: "512 \<le> block_size s \<Longrightarrow> 0 < unat (block_size s div BLOCK_SIZE)"
  by (simp add: BLOCK_SIZE_def unat_div word_le_nat_alt div_greater_zero_iff)

lemma read_blocks_sector:
  fixes s u :: "'a ext2_scheme"
  assumes inv: "cache_inv P s" and one: "one_sector P tmp off n v s"
    and g: "get_block (ADDR_OF_BLOCK (ei_direct_block (mem s) tmp (t_i v)) s) dev s = Done b u"
    and free: "lru_buff u \<noteq> 0" "mru_buff u \<noteq> 0"
  obtains t where "ext2_read_blocks dev tmp off v s = Some (Done (Inr (advance (of_nat n) v)) t)" "cache_inv P t"
    "load_bytes (mem t) (t_buff v) n = take n (drop (unat (t_offset v)) (contents (mem u) b))"
    "rd32 (mem t) off = rd32 (mem s) off + of_nat n" "io_log t = io_log u"
proof -
  note o = one [unfolded one_sector_def]
  have b: "b \<in> P" and inv': "cache_inv P u" and po: "pool_only P (mem s) (mem u)"
    using get_block_safe [OF inv g] by blast+
  have b0: "b \<noteq> 0" using b inv by (auto simp: cache_inv_def pool_ok_def)
  have n: "unat (t_offset v) + n \<le> 512" "outside P (t_buff v) n" "outside P off 4"
    "\<forall>k < 4. of_nat n \<le> off + of_nat k - t_buff v" using o by blast+
  obtain t where t: "put_block b (copy_out n (t_buff v) (of_nat (unat (t_offset v)) + bh_buff b)
      (u\<lparr>mem := wr32 (mem u) off (rd32 (mem u) off + of_nat n)\<rparr>)) = Done () t"
    "cache_inv P t" "load_bytes (mem t) (t_buff v) n = take n (drop (unat (t_offset v)) (contents (mem u) b))"
    "rd32 (mem t) off = rd32 (mem u) off + of_nat n"
    "\<forall>x. (\<forall>c \<in> P. 544 \<le> x - c) \<and> 4 \<le> x - off \<and> of_nat n \<le> x - t_buff v \<longrightarrow> mem t x = mem u x" "io_log t = io_log u"
    using read_round [OF inv' b n free] by metis
  have "mem t (tmp + of_nat k) = mem s (tmp + of_nat k)" if "k < 128" for k
  proof -
    have "mem t (tmp + of_nat k) = mem u (tmp + of_nat k)" using t(5) o that unfolding outside_def by blast
    then show ?thesis using pool_only_outside [OF po, of tmp 128] o that by simp
  qed
  then have stop: "\<not> (t_i (advance (of_nat n) v) < 12 \<and> ei_direct_block (mem t) tmp (t_i (advance (of_nat n) v)) \<noteq> 0)"
    by (intro one_sector_ends [OF one]) simp
  have pos: "rd32 (mem u) off = rd32 (mem s) off" using pool_only_outside [OF po n(3)] by (rule rd32_cong4)
  have f: "0 < n" "n \<le> 512" "t_count v = of_nat n" "0 < unat (block_size s div BLOCK_SIZE)"
    using o sectors_pos [of s] by simp_all
  have "ext2_read_sectors (unat (block_size s div BLOCK_SIZE)) 0 dev tmp off v s = Done (Inr (advance (of_nat n) v)) t"
    using t(1) b0 by (simp add: read_one_sector [OF f] g)
  moreover have last: "ext2_read_blocks dev tmp off (advance (of_nat n) v) t = Some (Done (Inr (advance (of_nat n) v)) t)"
    using stop by (subst ext2_read_blocks.simps) auto
  ultimately have "ext2_read_blocks dev tmp off v s = Some (Done (Inr (advance (of_nat n) v)) t)"
    using o last by (subst ext2_read_blocks.simps) simp
  then show thesis using that t pos by simp
qed

text \<open>What writing inside such a sector leaves behind.\<close>

lemma write_blocks_sector:
  fixes s u :: "'a ext2_scheme"
  assumes inv: "cache_inv P s" and one: "one_sector P tmp off n v s" and sep: "\<forall>k < n. 4 \<le> t_buff v + of_nat k - off"
    and last: "t_i v < 11" and cnt: "\<forall>b \<in> P. bh_count (mem s) b < 0xFFFFFFFF"
    and g: "get_block (ADDR_OF_BLOCK (ei_direct_block (mem s) tmp (t_i v)) s) dev s = Done b u"
    and free: "lru_buff u \<noteq> 0" "mru_buff u \<noteq> 0"
  obtains t where "ext2_write_blocks dev tmp off v s = Some (Done (advance (of_nat n) v) t)" "cache_inv P t" "b \<in> P"
    "h_count (head (mem t) b) \<noteq> 0" "h_count (head (mem t) b) \<noteq> 0xFFFFFFFF" "block_size t = block_size s"
    "find_buffer (mem t) (ADDR_OF_BLOCK (ei_direct_block (mem s) tmp (t_i v)) s) dev
       (buff_head t (ucast (ADDR_OF_BLOCK (ei_direct_block (mem s) tmp (t_i v)) s))) = Some b"
    "\<forall>k < n. mem t (bh_buff b + of_nat (unat (t_offset v) + k)) = mem s (t_buff v + of_nat k)"
    "\<forall>x. (\<forall>c \<in> P. 544 \<le> x - c) \<and> 4 \<le> x - off \<longrightarrow> mem t x = mem s x" "lru_buff t \<noteq> 0" "mru_buff t \<noteq> 0"
proof -
  note o = one [unfolded one_sector_def]
  define off' where "off' = unat (t_offset v)"
  have off': "t_offset v = of_nat off'" by (simp add: off'_def)
  have b: "b \<in> P" and inv1: "cache_inv P u" and po: "pool_only P (mem s) (mem u)"
    using get_block_safe [OF inv g] by blast+
  have P: "pool_ok P" and b0: "b \<noteq> 0" using b inv by (auto simp: cache_inv_def pool_ok_def)
  have n: "off' + n \<le> 512" "n < 2 ^ 32" "outside P (t_buff v) n" "outside P off 4" using o by (simp_all add: off'_def)
  define m1 m2 where "m1 = wr32 (mem u) off (rd32 (mem u) off + of_nat n)"
    and "m2 = memcpy_loop m1 (of_nat off' + bh_buff b) (t_buff v) (of_nat n)"
  note ci = copy_in_eq [OF P n(3) b n(1), of _ m1, folded m2_def]
  obtain f where w: "copy_in n (t_buff v) (of_nat off' + bh_buff b) (u\<lparr>mem := m1\<rparr>) = tty_update f (u\<lparr>mem := m2\<rparr>)"
    using copy_in_memcpy [OF n(2), of "t_buff v" "of_nat off' + bh_buff b" "u\<lparr>mem := m1\<rparr>"] by (auto simp: m2_def)
  define w where "w = (tty_update f (u\<lparr>mem := m2\<rparr>))\<lparr>mem := set_dirty b 1 m2\<rparr>"
  obtain t where t: "put_block b w = Done () t" using put_block_returns [of w b] free by (auto simp: w_def)
  have h: "head (mem w) c = (if c = b then (head (mem u) c)\<lparr>h_dirty := 1\<rparr> else head (mem u) c)" if "c \<in> P" for c
    using ci(1) [OF that] pool_same_head [OF pool_same_wr32 [OF n(4)] that] head_set(2) [OF P b that] by (auto simp: w_def m1_def)
  have rel: "cache_inv P t" "h_count (head (mem t) b) \<noteq> 0" "h_count (head (mem t) b) \<noteq> 0xFFFFFFFF"
    "find_buffer (mem t) (ADDR_OF_BLOCK (ei_direct_block (mem s) tmp (t_i v)) s) dev
       (buff_head t (ucast (ADDR_OF_BLOCK (ei_direct_block (mem s) tmp (t_i v)) s))) = Some b" "heads_only P (mem w) (mem t)"
    using released_buffer [OF inv g, where w = w, OF _ _ _ _ cnt t] h by (simp_all add: w_def)
  have wx: "mem w x = m2 x" if "32 \<le> x - b" for x using that by (simp add: w_def bh_set_outside)
  have frame: "mem t x = mem s x" if x: "\<forall>c \<in> P. 544 \<le> x - c" "4 \<le> x - off" for x
  proof -
    have "32 \<le> x - b" using x(1) b order_trans [of 32 544 "x - b"] by auto
    then have "mem t x = m2 x" using heads_only_pool [OF rel(5)] x(1) wx by (auto simp: pool_only_def)
    also have "\<dots> = m1 x" unfolding m2_def using x(1) b n(1) by (intro memcpy_loop_frame outside_buffer) auto
    finally show ?thesis using x po by (simp add: m1_def wr32_other pool_only_def)
  qed
  have data: "mem t (bh_buff b + of_nat (off' + k)) = mem s (t_buff v + of_nat k)" if k: "k < n" for k
  proof -
    have "32 \<le> bh_buff b + of_nat (off' + k) - b" using k n(1)
      by (simp add: bh_buff_def word_le_nat_alt unat_word_ariths unat_of_nat del: of_nat_add)
    then have "mem t (bh_buff b + of_nat (off' + k)) = m2 (bh_buff b + of_nat (off' + k))"
      using heads_only_data [OF rel(5) P b, of "off' + k"] k n(1) wx by simp
    also have "\<dots> = m1 (t_buff v + of_nat k)" using ci(2) [OF k] .
    also have "\<dots> = mem s (t_buff v + of_nat k)"
      using sep k pool_only_outside [OF po n(3)] by (simp add: m1_def wr32_other)
    finally show ?thesis .
  qed
  have more: "cache.more t = cache.more s" using put_block_more [OF t] get_block_more [OF g] by (simp add: w_def)
  have "\<forall>k < 128. mem t (tmp + of_nat k) = mem s (tmp + of_nat k)" using frame o unfolding outside_def by blast
  from one_sector_ends [OF one this, of "of_nat n"]
  have stop: "ei_direct_block (mem t) tmp (t_i (advance (of_nat n) v)) = 0"
    using last by (simp add: advance_def word_less_nat_alt word_le_nat_alt unat_word_ariths)
  have f: "0 < n" "n \<le> 512" "t_count v = of_nat n" "0 < unat (block_size s div BLOCK_SIZE)"
    using o sectors_pos [of s] by simp_all
  have "ext2_write_sectors (unat (block_size s div BLOCK_SIZE)) 0 dev tmp off v s = Done (Inr (advance (of_nat n) v)) t"
    using t b0 w unfolding w_def by (simp add: write_one_sector [OF f] g off' m1_def)
  moreover have "ext2_write_blocks dev tmp off (advance (of_nat n) v) t = Some (Done (advance (of_nat n) v) t)"
    using stop by (subst ext2_write_blocks.simps) simp
  ultimately have run: "ext2_write_blocks dev tmp off v s = Some (Done (advance (of_nat n) v) t)"
    using o by (subst ext2_write_blocks.simps) simp
  have "lru_buff t \<noteq> 0" "mru_buff t \<noteq> 0"
    using t free b0 by (auto simp: put_block_def w_def Let_def split: if_splits)
  then show thesis
    using that [OF run rel(1) b rel(2,3) _ rel(4)] more_ext2(2) [OF more] data frame unfolding off'_def by blast
qed

lemma one_sector_cong:
  fixes s t :: "'a ext2_scheme"
  assumes "one_sector P tmp off n v s" and "block_size t = block_size s"
    and "\<forall>k < 128. mem t (tmp + of_nat k) = mem s (tmp + of_nat k)"
  shows "one_sector P tmp off n v t"
proof -
  note o = assms(1) [unfolded one_sector_def]
  have d: "ei_direct_block (mem t) tmp i = ei_direct_block (mem s) tmp i" if "i < 12" for i
    by (rule direct_block_cong [OF assms(3) that])
  have "t_i v + 1 < 12" if "t_i v \<noteq> 11"
    using o that by (auto simp: word_less_nat_alt word_unat_eq_iff unat_word_ariths)
  then have "t_i v = 11 \<or> ei_direct_block (mem t) tmp (t_i v + 1) = 0"
    using o d [of "t_i v + 1"] by (cases "t_i v = 11") auto
  then show ?thesis using o d assms(2) unfolding one_sector_def by simp
qed

text \<open>What the loops of \<^verbatim>\<open>ext2_write\<close> store inside such a sector, the loops of \<^verbatim>\<open>ext2_read\<close> deliver
  afterwards: both return with the transfer advanced by the \<open>n\<close> bytes, the reader's buffer holds the bytes the
  writer's buffer held, and the read needs no disk access (the I/O log does not grow), provided the
  cache invariant holds, the regions involved are apart from each other and from the cache, and no reference
  counter is at its maximum.
\<close>

theorem ext2_write_read_back:
  fixes s u :: "'a ext2_scheme"
  assumes inv: "cache_inv P s" and one: "one_sector P tmp off n v s" and sep: "\<forall>k < n. 4 \<le> t_buff v + of_nat k - off"
    and last: "t_i v < 11" and cnt: "\<forall>b \<in> P. bh_count (mem s) b < 0xFFFFFFFF"
    and g: "get_block (ADDR_OF_BLOCK (ei_direct_block (mem s) tmp (t_i v)) s) dev s = Done b u"
    and free: "lru_buff u \<noteq> 0" "mru_buff u \<noteq> 0"
    and reader: "one_sector P tmp off' n v' s" "t_i v' = t_i v" "t_offset v' = t_offset v"
  shows "\<exists>t x. ext2_write_blocks dev tmp off v s = Some (Done (advance (of_nat n) v) t) \<and>
    ext2_read_blocks dev tmp off' v' t = Some (Done (Inr (advance (of_nat n) v')) x) \<and>
    load_bytes (mem x) (t_buff v') n = load_bytes (mem s) (t_buff v) n \<and> io_log x = io_log t"
proof -
  define block where "block = ADDR_OF_BLOCK (ei_direct_block (mem s) tmp (t_i v)) s"
  obtain t where t: "ext2_write_blocks dev tmp off v s = Some (Done (advance (of_nat n) v) t)" "cache_inv P t" "b \<in> P"
    "h_count (head (mem t) b) \<noteq> 0" "block_size t = block_size s"
    "find_buffer (mem t) block dev (buff_head t (ucast block)) = Some b"
    "\<forall>k < n. mem t (bh_buff b + of_nat (unat (t_offset v) + k)) = mem s (t_buff v + of_nat k)"
    "\<forall>x. (\<forall>c \<in> P. 544 \<le> x - c) \<and> 4 \<le> x - off \<longrightarrow> mem t x = mem s x" "lru_buff t \<noteq> 0" "mru_buff t \<noteq> 0"
    using write_blocks_sector [OF inv one sep last cnt g free] unfolding block_def by metis
  have P: "pool_ok P" "b \<noteq> 0" using t(2,3) by (auto simp: cache_inv_def pool_ok_def)
  have tmp: "\<forall>k < 128. mem t (tmp + of_nat k) = mem s (tmp + of_nat k)"
    using t(8) one unfolding one_sector_def outside_def by blast
  have "t_i v < 12" using one by (simp add: one_sector_def)
  then have blk: "ADDR_OF_BLOCK (ei_direct_block (mem t) tmp (t_i v')) t = block"
    using direct_block_cong [OF tmp] t(5) by (simp add: block_def reader(2) ADDR_OF_BLOCK_def)
  obtain t1 where hit: "get_hit b block dev t = Done b t1" using t(4) by (simp add: get_hit_def Let_def bh_head)
  note he = get_hit_effect [OF t(2,3) hit]
  have "get_block (ADDR_OF_BLOCK (ei_direct_block (mem t) tmp (t_i v')) t) dev t = Done b t1"
    using t(6) P(2) hit by (simp add: blk get_block_def)
  moreover have "lru_buff t1 = lru_buff t \<and> mru_buff t1 = mru_buff t"
    using he by (cases t; cases t1) simp
  ultimately obtain x where x: "ext2_read_blocks dev tmp off' v' t = Some (Done (Inr (advance (of_nat n) v')) x)"
    "load_bytes (mem x) (t_buff v') n = take n (drop (unat (t_offset v)) (contents (mem t1) b))" "io_log x = io_log t1"
    using read_blocks_sector [OF t(2) one_sector_cong [OF reader(1) t(5) tmp]] t(9,10) reader(3) by metis
  have "contents (mem t1) b = contents (mem t) b" using he heads_only_contents(1) [OF _ P(1) t(3)] by blast
  moreover have "unat (t_offset v) + n \<le> 512" using one by (simp add: one_sector_def)
  ultimately have "load_bytes (mem x) (t_buff v') n = load_bytes (mem s) (t_buff v) n"
    using t(7) x(2) by (intro nth_equalityI) (simp_all add: load_bytes_nth contents_def)
  then show ?thesis using t(1) x(1,3) he t(4) by metis
qed

text \<open>A file whose only block is block 1, cached as sector 2; two bytes are written at offset 3.\<close>

definition sample_file :: ext2 where
  "sample_file = sample_geometry\<lparr>mem := sample_sb_mem(0xC0400028 := 1, 0xC0600000 := 0x68, 0xC0600001 := 0x69),
     lru_buff := 0xC0202000, mru_buff := 0xC0202000\<rparr>"

definition sample_transfer :: "u32 \<Rightarrow> transfer" where
  "sample_transfer buff = \<lparr>t_i = 0, t_offset = 3, t_moved = 0, t_count = 2, t_buff = buff\<rparr>"

lemma sample_file_simps:
  "mem sample_file = sample_sb_mem(0xC0400028 := 1, 0xC0600000 := 0x68, 0xC0600001 := 0x69)" "block_size sample_file = 0x400"
  "lru_buff sample_file = 0xC0202000" "mru_buff sample_file = 0xC0202000"
  "buff_head sample_file = (\<lambda>_. 0)(2 := 0xC0200000, 3 := 0xC0201000, 4 := 0xC0202000)"
  by (simp_all add: sample_file_def sample_geometry_def sample_ext2_simps)

lemma sample_file_head: "b \<in> sample_sb_pool \<Longrightarrow> head (mem sample_file) b = head sample_sb_mem b"
  by (rule head_cong) (auto simp: sample_file_simps sample_sb_pool_def word_less_nat_alt unat_word_ariths)

lemma sample_file_inv: "cache_inv sample_sb_pool sample_file"
  using sample_ext2_inv sample_file_head unfolding cache_inv_def links_ok_def
  by (simp add: sample_ext2_simps sample_file_simps sample_sb_pool_def)

lemma sample_one_sector:
  assumes "buff \<in> {0xC0600000, 0xC0700000}" and "off \<in> {0xC0500000, 0xC0500010}"
  shows "one_sector sample_sb_pool 0xC0400000 off 2 (sample_transfer buff) sample_file"
proof -
  have "outside sample_sb_pool a n" if "0xC0300000 \<le> a" "a \<le> 0xC0700000" "n \<le> 1024" for a n
    using that by (intro outside_sample) (auto simp: sample_sb_pool_def word_le_nat_alt unat_sub_if')
  then have out: "outside sample_sb_pool buff 2" "outside sample_sb_pool off 4" "outside sample_sb_pool 0xC0400000 128"
    using assms by auto
  have far: "c \<le> x + of_nat k - y" if "unat x + n \<le> unat y" "unat c + unat y \<le> 2 ^ 32" "k < n" for x y c :: u32 and n k
  proof -
    have "unat (x + of_nat k) = unat x + k"
      using that unat_u32_less [of y] by (simp add: unat_word_ariths unat_of_nat)
    then have "unat (x + of_nat k - y) = unat x + k + 2 ^ 32 - unat y" using that by (simp add: unat_sub_if')
    then show ?thesis using that by (simp add: word_le_nat_alt)
  qed
  have "2 \<le> off + of_nat k - buff" if "k < 4" for k using assms far [of off 4 buff 2] that by auto
  moreover have "4 \<le> 0xC0400000 + of_nat k - off" "2 \<le> 0xC0400000 + of_nat k - buff" if "k < 128" for k
    using assms far [of "0xC0400000" 128 off 4] far [of "0xC0400000" 128 buff 2] that by auto
  ultimately show ?thesis
    using out by (simp add: one_sector_def sample_transfer_def sample_file_simps ei_direct_block_def byte_defs sample_sb_mem_def)
qed

theorem ext2_write_read_back_witness:
  "\<exists>t x. ext2_write_blocks 0x300 0xC0400000 0xC0500000 (sample_transfer 0xC0600000) sample_file =
       Some (Done (advance 2 (sample_transfer 0xC0600000)) t) \<and>
     ext2_read_blocks 0x300 0xC0400000 0xC0500010 (sample_transfer 0xC0700000) t =
       Some (Done (Inr (advance 2 (sample_transfer 0xC0700000))) x) \<and>
     load_bytes (mem x) 0xC0700000 2 = [0x68, 0x69]"
proof -
  have d: "ei_direct_block (mem sample_file) 0xC0400000 0 = 1"
    by (simp add: sample_file_simps ei_direct_block_def byte_defs sample_sb_mem_def)
  have A: "0xC0200000 \<in> sample_sb_pool" by (simp add: sample_sb_pool_def)
  have "set_count 0xC0200000 1 (mem sample_file) = mem sample_file"
    by (rule count_idem) (simp_all add: sample_file_simps sample_sb_mem_def)
  then have "get_block 2 0x300 sample_file = Done 0xC0200000 (tty_update (terminal_printhex32 2)
      (sample_file\<lparr>mem := set_count 0xC0200000 2 (mem sample_file)\<rparr>))"
    by (intro load_held(1) [where a = "0xC0300000"]) (simp_all add: sample_file_simps(5) bh_head sample_file_head [OF A] sample_sb_heads)
  then have g: "get_block (ADDR_OF_BLOCK (ei_direct_block (mem sample_file) 0xC0400000 (t_i (sample_transfer 0xC0600000))) sample_file) 0x300
      sample_file = Done 0xC0200000 (tty_update (terminal_printhex32 2) (sample_file\<lparr>mem := set_count 0xC0200000 2 (mem sample_file)\<rparr>))"
    by (simp add: sample_transfer_def d ADDR_OF_BLOCK_def BLOCK_SIZE_def sample_file_simps(2))
  have "\<exists>t x. ext2_write_blocks 0x300 0xC0400000 0xC0500000 (sample_transfer 0xC0600000) sample_file =
       Some (Done (advance (of_nat 2) (sample_transfer 0xC0600000)) t) \<and>
     ext2_read_blocks 0x300 0xC0400000 0xC0500010 (sample_transfer 0xC0700000) t =
       Some (Done (Inr (advance (of_nat 2) (sample_transfer 0xC0700000))) x) \<and>
     load_bytes (mem x) (t_buff (sample_transfer 0xC0700000)) 2 = load_bytes (mem sample_file) (t_buff (sample_transfer 0xC0600000)) 2 \<and>
     io_log x = io_log t"
  proof (rule ext2_write_read_back [OF sample_file_inv sample_one_sector _ _ _ g _ _ sample_one_sector])
    show "\<forall>b \<in> sample_sb_pool. bh_count (mem sample_file) b < 0xFFFFFFFF"
      by (simp add: bh_head sample_file_head) (simp add: sample_sb_pool_def sample_sb_heads)
    show "\<forall>k < 2. 4 \<le> t_buff (sample_transfer 0xC0600000) + of_nat k - 0xC0500000"
      by (auto simp: sample_transfer_def less_2_cases_iff)
  qed (simp_all add: sample_file_simps(3,4) sample_transfer_def)
  then show ?thesis by (auto simp: sample_transfer_def sample_file_simps(1) numeral_2_eq_2 sample_sb_mem_def)
qed

end
