(* ===== verification/Ext2_Calls.thy ===== *)
theory Ext2_Calls
  imports Ext2_Files
begin

unbundle bit_operations_syntax

text \<open>
  \<^verbatim>\<open>ext2_read\<close> and \<^verbatim>\<open>ext2_write\<close> as whole calls: the inode copy on the heap, the buffer cache and the caller's memory
  together. A call keeps to the memory it may use, whatever the disk holds, because each of its steps does: \<open>kept\<close> is the contract of such a step, and the
  loops over the sectors of a block satisfy it by the locale \<open>sector_loop\<close>.
\<close>

section \<open>What cache clients leave alone\<close>

definition pool_bytes :: "u32 set \<Rightarrow> u32 set" where "pool_bytes P = (\<Union>b \<in> P. bytes b 544)"

lemma pool_only_iff: "pool_only P m m' \<longleftrightarrow> only (pool_bytes P) m m'"
  by (auto simp: pool_only_def only_def pool_bytes_def bytes_def not_less)

lemma only_pool_same: "only R m m' \<Longrightarrow> R \<inter> pool_bytes P = {} \<Longrightarrow> pool_same P m m'"
  unfolding pool_same_def
proof (intro ballI allI impI)
  fix b k :: u32
  assume o: "only R m m'" "R \<inter> pool_bytes P = {}" and "b \<in> P" "k < 544"
  then have "b + k \<in> pool_bytes P" by (auto simp: pool_bytes_def bytes_def intro!: bexI [of _ b])
  then show "m' (b + k) = m (b + k)" using o by (auto simp: only_def)
qed

definition kept :: "u32 set \<Rightarrow> u32 set \<Rightarrow> 'a cache_scheme \<Rightarrow> 'a cache_scheme \<Rightarrow> bool" where
  "kept P R s t \<longleftrightarrow> cache_inv P t \<and> first t = first s \<and> cache.more t = cache.more s \<and> only (pool_bytes P \<union> R) (mem s) (mem t)"

lemma kept_refl: "cache_inv P s \<Longrightarrow> kept P R s s"
  by (simp add: kept_def)

lemma kept_trans [trans]: "kept P R s t \<Longrightarrow> kept P R t u \<Longrightarrow> kept P R s u"
  unfolding kept_def by (auto intro: only_trans)

lemma kept_mono: "kept P R s t \<Longrightarrow> R \<subseteq> S \<Longrightarrow> kept P S s t"
  unfolding kept_def by (blast intro: only_mono)

lemma kept_tty [simp]: "kept P R s (tty_update f t) = kept P R s t" "kept P R (tty_update f s) t = kept P R s t"
  by (simp_all add: kept_def cache_inv_def)

lemma kept_get:
  assumes "cache_inv P s" and "get_block block dev s = Done b t"
  shows "b \<in> P" "kept P R s t"
  using get_block_safe [OF assms] get_block_fields [OF assms(2)] by (auto simp: kept_def pool_only_iff intro: only_mono)

lemma kept_put: "cache_inv P s \<Longrightarrow> b \<in> P \<Longrightarrow> put_block b s = Done () t \<Longrightarrow> kept P R s t"
  using put_block_effect [of P s b t] put_block_more [of b s t] put_block_heap [of b s t] heads_only_pool [of P "mem s" "mem t"]
  by (auto simp: kept_def pool_only_iff intro: only_mono)

lemma kept_mem:
  assumes "cache_inv P s" and "only R (mem s) m" and "R \<inter> pool_bytes P = {}"
  shows "kept P R s (s\<lparr>mem := m\<rparr>)"
  using cache_inv_heads [OF assms(1)] pool_same_head [OF only_pool_same [OF assms(2,3)]] assms(2)
  by (auto simp: kept_def intro: only_mono)

section \<open>Reading keeps the cache and the heap\<close>

lemma only_copy_out:
  assumes "n < 2 ^ 32"
  obtains f m where "copy_out n b p s = tty_update f (s\<lparr>mem := m\<rparr>)" "only (bytes b (of_nat n)) (mem s) m"
  using copy_out_memcpy [OF assms, of b p s] memcpy_loop_frame [of "of_nat n" _ b "mem s" p]
  by (auto simp: only_def bytes_def not_less)

definition round_chars :: "transfer \<Rightarrow> u32" where
  "round_chars v = (if t_count v < BLOCK_SIZE then t_count v else BLOCK_SIZE)"

lemma read_sectors_step:
  assumes "0 < t_count v"
    and "get_block (ADDR_OF_BLOCK (ei_direct_block (mem s) tmp (t_i v)) s + k) dev s = Done b u"
  shows "ext2_read_sectors (Suc n) k dev tmp off v s = (if b = 0 then Done (Inl (- 1)) u
    else obind (put_block b (copy_out (unat (round_chars v)) (t_buff v) (t_offset v + bh_buff b)
           (u\<lparr>mem := wr32 (mem u) off (rd32 (mem u) off + round_chars v)\<rparr>)))
         (\<lambda>_. ext2_read_sectors n (k + 1) dev tmp off (advance (round_chars v) v)))"
  using assms by (simp add: round_chars_def [symmetric] Let_def cong: if_cong)

text \<open>How far a transfer has come: the count is used up, the buffer and the file position advance.\<close>

definition progress :: "u32 \<Rightarrow> transfer \<Rightarrow> memory \<Rightarrow> transfer \<Rightarrow> memory \<Rightarrow> bool" where
  "progress off v m v' m' \<longleftrightarrow> t_count v' \<le> t_count v \<and> t_moved v' + t_count v' = t_moved v + t_count v \<and>
     bytes (t_buff v') (t_count v') \<subseteq> bytes (t_buff v) (t_count v) \<and> rd32 m' off - t_moved v' = rd32 m off - t_moved v"

lemma progress_refl: "progress off v m v m"
  by (simp add: progress_def)

lemma progress_trans: "progress off v m v' m' \<Longrightarrow> progress off v' m' v'' m'' \<Longrightarrow> progress off v m v'' m''"
  by (auto simp: progress_def)

definition transfer_apart :: "u32 set \<Rightarrow> u32 \<Rightarrow> transfer \<Rightarrow> bool" where
  "transfer_apart P off v \<longleftrightarrow> bytes (t_buff v) (t_count v) \<inter> bytes off 4 = {} \<and>
     (bytes (t_buff v) (t_count v) \<union> bytes off 4) \<inter> pool_bytes P = {}"

definition transfer_area :: "u32 \<Rightarrow> transfer \<Rightarrow> u32 set" where
  "transfer_area off v = bytes (t_buff v) (t_count v) \<union> bytes off 4"

lemma progress_apart: "progress off v m v' m' \<Longrightarrow> transfer_apart P off v \<Longrightarrow> transfer_apart P off v'"
  unfolding progress_def transfer_apart_def by blast

lemma progress_area: "progress off v m v' m' \<Longrightarrow> transfer_area off v' \<subseteq> transfer_area off v"
  unfolding progress_def transfer_area_def by blast

text \<open>One round on a buffer already obtained.\<close>

lemma read_round_kept:
  fixes u w :: "'a ext2_scheme"
  assumes inv: "cache_inv P u" and b: "b \<in> P" and ap: "transfer_apart P off v"
    and p: "put_block b (copy_out (unat (round_chars v)) (t_buff v) (t_offset v + bh_buff b)
           (u\<lparr>mem := wr32 (mem u) off (rd32 (mem u) off + round_chars v)\<rparr>)) = Done () w"
  shows "kept P (transfer_area off v) u w" "progress off v (mem u) (advance (round_chars v) v) (mem w)"
proof -
  define c where "c = round_chars v"
  have c: "c \<le> t_count v" "unat c < 2 ^ 32" using unat_u32_less [of c] by (auto simp: c_def round_chars_def)
  define u' where "u' = u\<lparr>mem := wr32 (mem u) off (rd32 (mem u) off + c)\<rparr>"
  obtain f m where m: "copy_out (unat c) (t_buff v) (t_offset v + bh_buff b) u' = tty_update f (u'\<lparr>mem := m\<rparr>)"
    "only (bytes (t_buff v) (of_nat (unat c))) (mem u') m" by (rule only_copy_out [OF c(2)])
  define x where "x = tty_update f (u'\<lparr>mem := m\<rparr>)"
  have p: "put_block b x = Done () w" using p by (simp add: m(1) u'_def [symmetric] c_def [symmetric] x_def)
  have o: "only (bytes off 4) (mem u) (mem u')" "only (bytes (t_buff v) c) (mem u') m"
    using m(2) by (simp_all add: u'_def only_wr32_bytes)
  then have "only (transfer_area off v) (mem u) m"
    by (rule only_trans) (use bytes_tail(2) [OF c(1), of "t_buff v"] in \<open>auto simp: transfer_area_def\<close>)
  then have "kept P (transfer_area off v) u (u\<lparr>mem := m\<rparr>)" using ap by (intro kept_mem [OF inv]) (auto simp: transfer_area_def transfer_apart_def)
  then have um: "kept P (transfer_area off v) u x" by (simp add: u'_def x_def)
  have xw: "kept P {} x w" using um by (intro kept_put [OF _ b p]) (simp add: kept_def)
  then show "kept P (transfer_area off v) u w" using kept_trans [OF um] kept_mono by blast
  have "rd32 (mem w) off = rd32 (mem x) off"
    using xw ap by (intro only_rd32 [of "pool_bytes P"]) (auto simp: kept_def transfer_apart_def)
  also have "\<dots> = rd32 (mem u') off"
    using o(2) ap bytes_tail(2) [OF c(1), of "t_buff v"] by (intro only_rd32 [of "bytes (t_buff v) c"]) (auto simp: x_def transfer_apart_def)
  finally have "rd32 (mem w) off = rd32 (mem u) off + c" by (simp add: u'_def)
  then show "progress off v (mem u) (advance (round_chars v) v) (mem w)"
    using c bytes_tail(1) [OF c(1), of "t_buff v"] unfolding c_def [symmetric]
    by (auto simp: progress_def advance_def word_sub_le)
qed

text \<open>
  The loops over the sectors of a block. A round that does anything works on memory in \<open>R v\<close> and the cache, and
  advances the transfer; then so does the whole loop, and it never takes the early exit.
\<close>

locale sector_loop =
  fixes sectors :: "nat \<Rightarrow> u32 \<Rightarrow> transfer \<Rightarrow> 'a ext2_scheme \<Rightarrow> ('a ext2_scheme, 'e + transfer) outcome"
    and P :: "u32 set" and off :: u32 and R :: "transfer \<Rightarrow> u32 set" and fits :: "transfer \<Rightarrow> bool"
  assumes stop: "sectors 0 k v s = Done (Inr v) s"
    and round: "sectors (Suc n) k v s = Done r t \<Longrightarrow> cache_inv P s \<Longrightarrow> transfer_apart P off v \<Longrightarrow> fits v \<Longrightarrow>
      r = Inr v \<and> t = s \<or> (\<exists>w. kept P (R v) s w \<and> progress off v (mem s) (advance (round_chars v) v) (mem w) \<and>
        sectors n (k + 1) (advance (round_chars v) v) w = Done r t)"
    and fits_advance: "fits (advance (round_chars v) v)"
    and shrink: "progress off v m v' m' \<Longrightarrow> R v' \<subseteq> R v"
begin

lemma kept_sectors:
  "sectors n k v s = Done r t \<Longrightarrow> cache_inv P s \<Longrightarrow> transfer_apart P off v \<Longrightarrow> fits v \<Longrightarrow>
     \<exists>v'. r = Inr v' \<and> kept P (R v) s t \<and> progress off v (mem s) v' (mem t) \<and> fits v'"
proof (induction n arbitrary: k v s)
  case 0
  then show ?case by (auto simp: stop kept_refl progress_refl)
next
  case (Suc n)
  from round [OF Suc.prems] consider "r = Inr v" "t = s"
    | w where "kept P (R v) s w" "progress off v (mem s) (advance (round_chars v) v) (mem w)" "sectors n (k + 1) (advance (round_chars v) v) w = Done r t"
    by blast
  then show ?case
  proof cases
    case 1
    then show ?thesis using Suc.prems by (simp add: kept_refl progress_refl)
  next
    case 2
    obtain v' where "r = Inr v'" "kept P (R (advance (round_chars v) v)) w t" "progress off (advance (round_chars v) v) (mem w) v' (mem t)" "fits v'"
      using Suc.IH [OF 2(3) _ progress_apart [OF 2(2) Suc.prems(3)] fits_advance] 2(1) by (auto simp: kept_def)
    then show ?thesis
      using kept_trans [OF 2(1)] kept_mono shrink [OF 2(2)] progress_trans [OF 2(2)] by blast
  qed
qed

end

lemma get_in_loop:
  assumes "cache_inv P s" and "get_block block dev s = Done b u" and "transfer_apart P off v"
  shows "b \<in> P" "b \<noteq> 0" "cache_inv P u" "kept P R s u" "rd32 (mem u) off = rd32 (mem s) off"
proof -
  note u = kept_get [OF assms(1,2)]
  show "b \<in> P" "b \<noteq> 0" "cache_inv P u" "kept P R s u" using u assms(1) by (auto simp: kept_def cache_inv_def pool_ok_def)
  show "rd32 (mem u) off = rd32 (mem s) off"
    using u(2) [of "{}"] assms(3) by (intro only_rd32 [of "pool_bytes P"]) (auto simp: kept_def transfer_apart_def)
qed

interpretation read_loop: sector_loop "\<lambda>n k. ext2_read_sectors n k dev tmp off" P off "transfer_area off" "\<lambda>_. True" for dev tmp off P
proof (unfold_locales, goal_cases)
  case (2 n k v s r t)
  show ?case
  proof (cases "t_count v > 0")
    case False
    then show ?thesis using 2 by auto
  next
    case True
    obtain b u where g: "get_block (ADDR_OF_BLOCK (ei_direct_block (mem s) tmp (t_i v)) s + k) dev s = Done b u"
      using 2(1) True by (auto simp: obind_Done_iff split: if_splits)
    note u = get_in_loop [OF 2(2) g 2(3)]
    obtain w where p: "put_block b (copy_out (unat (round_chars v)) (t_buff v) (t_offset v + bh_buff b)
         (u\<lparr>mem := wr32 (mem u) off (rd32 (mem u) off + round_chars v)\<rparr>)) = Done () w"
      and w: "ext2_read_sectors n (k + 1) dev tmp off (advance (round_chars v) v) w = Done r t"
      using 2(1) [unfolded read_sectors_step [OF True g]] u(2) by (auto simp: obind_Done_iff)
    note round = read_round_kept [OF u(3,1) 2(3) p]
    show ?thesis using kept_trans [OF u(4) round(1)] round(2) u(5) w by (auto simp: progress_def)
  qed
qed (auto intro: progress_area [THEN subsetD])

lemma kept_read_blocks:
  fixes s t :: "'a ext2_scheme"
  assumes "ext2_read_blocks dev tmp off v s = Some (Done r t)" and "cache_inv P s" and "transfer_apart P off v"
  shows "\<exists>v'. r = Inr v' \<and> kept P (transfer_area off v) s t \<and> progress off v (mem s) v' (mem t)"
proof -
  have "cache_inv P s \<longrightarrow> transfer_apart P off v \<longrightarrow> x = Done r t \<longrightarrow>
      (\<exists>v'. r = Inr v' \<and> kept P (transfer_area off v) s t \<and> progress off v (mem s) v' (mem t))"
    if "ext2_read_blocks dev tmp off v s = Some x" for x
  proof (induction rule: ext2_read_blocks.raw_induct [OF _ that])
    case (1 f dev tmp off v s x)
    show ?case
    proof (intro impI)
      assume inv: "cache_inv P s" and R: "transfer_apart P off v" and x: "x = Done r t"
      note run = 1(2) [unfolded x]
      show "\<exists>v'. r = Inr v' \<and> kept P (transfer_area off v) s t \<and> progress off v (mem s) v' (mem t)"
      proof (cases "t_i v < 12 \<and> ei_direct_block (mem s) tmp (t_i v) \<noteq> 0")
        case False
        then show ?thesis using run inv by (auto simp: kept_refl progress_refl split: if_splits)
      next
        case True
        define q where "q = ext2_read_sectors (unat (block_size s div BLOCK_SIZE)) 0 dev tmp off v s"
        obtain z u where z: "q = Done z u" using run True unfolding q_def by (auto split: outcome.splits)
        obtain v1 where v1: "z = Inr v1" "kept P (transfer_area off v) s u" "progress off v (mem s) v1 (mem u)"
          using read_loop.kept_sectors [OF z [unfolded q_def] inv R] by blast
        have rest: "f dev tmp off v1 u = Some (Done r t)" using run True z v1(1) unfolding q_def by simp
        obtain v' where "r = Inr v'" "kept P (transfer_area off v1) u t" "progress off v1 (mem u) v' (mem t)"
          using 1(1) [OF rest] v1(2) progress_apart [OF v1(3) R] unfolding kept_def by blast
        then show ?thesis using kept_trans [OF v1(2)] kept_mono progress_area [OF v1(3)] progress_trans [OF v1(3)] by blast
      qed
    qed
  qed
  from this [OF assms(1)] show ?thesis using assms(2,3) by blast
qed

lemma print_bytes_tty: "\<exists>f. print_bytes n a s = tty_update f s"
proof (induction n arbitrary: a s)
  case 0
  show ?case by (auto intro: exI [of _ id])
next
  case (Suc n)
  obtain f where "print_bytes n (a + 1) (tty_update (terminal_printhex (mem s a)) s) = tty_update f (tty_update (terminal_printhex (mem s a)) s)"
    using Suc by blast
  then show ?case by (auto intro!: exI [of _ "f \<circ> terminal_printhex (mem s a)"])
qed

lemma kept_read_inode:
  fixes s t :: "'a ext2_scheme"
  assumes inv: "cache_inv P s" and run: "read_inode dest inode dev s = Done b t" and R: "bytes dest 128 \<inter> pool_bytes P = {}"
  shows "b \<in> P \<and> kept P (bytes dest 128) s t"
proof -
  obtain f u where g: "get_block (inode_sector inode (tty_update f s)) dev (tty_update f s) = Done b u"
    and t: "t = (if dest \<noteq> 0 then u\<lparr>mem := memcpy_loop (mem u) dest (INODE_OFFSET inode u + bh_buff b) EXT2_INODE_SIZE\<rparr> else u)"
    using run by (auto simp: read_inode_def Let_def obind_Done_iff split: if_splits)
  have "cache_inv P (tty_update f s)" using inv by (simp add: cache_inv_def)
  note u = kept_get [OF this g]
  have "only (bytes dest 128) (mem u) (mem t)"
    using memcpy_loop_frame [of 128 _ dest "mem u"] by (auto simp: t only_def bytes_def not_less EXT2_INODE_SIZE_def)
  then have "kept P (bytes dest 128) u (u\<lparr>mem := mem t\<rparr>)" using u(2) by (intro kept_mem [OF _ _ R]) (auto simp: kept_def)
  moreover have "u\<lparr>mem := mem t\<rparr> = t" by (simp add: t)
  ultimately show ?thesis using u kept_trans [OF u(2)] by simp
qed

lemma ext2_read_cases:
  fixes s :: "'a ext2_scheme"
  assumes "ext2_read filep buff count off s = Done r t"
  obtains (refused) f where "r = - 1" "t = tty_update f s"
  | (opened) f tmp s1 b s2 s3 g where "kmalloc EXT2_INODE_SIZE (tty_update f s) = Done tmp s1"
      "read_inode tmp (i_no (mem s1) (f_inode (mem s) filep)) (ucast (i_dev (mem s) (f_inode (mem s) filep))) s1 = Done b s2"
      "put_block b s2 = Done () s3"
      "if ucast (ei_type_permissions (mem s3) tmp) AND TYPE_REG_FILE = 0 then r = - 1 \<and> t = tty_update g s3
       else \<exists>x w. ext2_read_blocks (ucast (i_dev (mem s) (f_inode (mem s) filep))) tmp off
           \<lparr>t_i = rd32 (mem s3) off div BLOCK_SIZE, t_offset = rd32 (mem s3) off mod BLOCK_SIZE, t_moved = 0, t_count = count, t_buff = buff\<rparr>
           (tty_update g s3) = Some (Done x w) \<and>
         (case x of Inl e \<Rightarrow> r = e \<and> t = w | Inr v \<Rightarrow> kfree tmp w = Done () t \<and> r = t_moved v)"
proof -
  define f where "f = terminal_writestring ''in ext2_read''"
  define inode where "inode = f_inode (mem s) filep"
  define dev :: u16 where "dev = ucast (i_dev (mem s) inode)"
  define refused where "refused \<longleftrightarrow> rd32 (mem s) off + count \<ge> i_size (mem s) inode \<or> not_a_file (i_flags (mem s) inode)"
  define body where "body = (\<lambda>tmp (s :: 'a ext2_scheme). if ucast (ei_type_permissions (mem s) tmp) AND TYPE_REG_FILE = 0 then Done (- 1) s
    else case ext2_read_blocks dev tmp off
        \<lparr>t_i = rd32 (mem s) off div BLOCK_SIZE, t_offset = rd32 (mem s) off mod BLOCK_SIZE, t_moved = 0, t_count = count, t_buff = buff\<rparr> s
      of None \<Rightarrow> Diverged
       | Some r \<Rightarrow> obind r (\<lambda>x s. case x of Inl ret \<Rightarrow> Done ret s | Inr v \<Rightarrow> obind (kfree tmp s) (\<lambda>_ s. Done (t_moved v) s)))"
  have ok: "strcmp (mem s) (fs_name (mem s) (sb_fs_type (mem s) (i_sb (mem s) inode))) (literal s ''ext2'') = 0"
    using assms by (auto simp: ext2_read_def Let_def inode_def kpanic_def split: if_splits)
  have eq: "ext2_read filep buff count off s = (if refused then Done (- 1) (tty_update f s)
      else obind (kmalloc EXT2_INODE_SIZE (tty_update f s)) (\<lambda>tmp s. obind (read_inode tmp (i_no (mem s) inode) dev s) (\<lambda>b s.
        obind (put_block b s) (\<lambda>_ s. body tmp (print_bytes 128 tmp s)))))"
    using ok by (simp add: ext2_read_def Let_def f_def inode_def dev_def refused_def body_def cong: if_cong)
  show thesis
  proof (cases refused)
    case True
    then show thesis using assms eq that(1) [of f] by auto
  next
    case False
    then obtain tmp s1 b s2 s3 where k: "kmalloc EXT2_INODE_SIZE (tty_update f s) = Done tmp s1"
      "read_inode tmp (i_no (mem s1) inode) dev s1 = Done b s2" "put_block b s2 = Done () s3"
      and rest: "body tmp (print_bytes 128 tmp s3) = Done r t"
      using assms unfolding eq by (auto simp: obind_Done_iff)
    obtain g where g: "print_bytes 128 tmp s3 = tty_update g s3" using print_bytes_tty by blast
    show thesis
      using k rest unfolding g dev_def inode_def
      by (intro that(2)) (auto simp: body_def dev_def inode_def obind_Done_iff split: option.splits sum.splits if_splits)
  qed
qed

lemma kept_first: "kept P R s t \<Longrightarrow> first t = first s" "kept P R s t \<Longrightarrow> cache_inv P t"
  "kept P R s t \<Longrightarrow> only (pool_bytes P \<union> R) (mem s) (mem t)"
  by (simp_all add: kept_def)

lemma progress_start:
  assumes "progress off v m v' m'" and "t_moved v = 0"
  shows "rd32 m' off = rd32 m off + t_moved v'" "t_moved v' \<le> t_count v"
proof -
  have "rd32 m' off - t_moved v' + t_moved v' = rd32 m off + t_moved v'" using assms by (simp add: progress_def)
  then show "rd32 m' off = rd32 m off + t_moved v'" by simp
  have "t_count v' \<le> t_moved v' + t_count v'" "t_count v = t_moved v' + t_count v'" using assms by (auto simp: progress_def)
  then show "t_moved v' \<le> t_count v" using olen_add_eqv by metis
qed

text \<open>The memory \<^verbatim>\<open>ext2_read\<close> and \<^verbatim>\<open>ext2_write\<close> work on: the cache lies outside the bytes the heap owns, and the caller's
  buffer and file position are apart from both and from each other.\<close>

definition call_memory :: "u32 set \<Rightarrow> blocks \<Rightarrow> u32 \<Rightarrow> u32 \<Rightarrow> u32 \<Rightarrow> 'a cache_scheme \<Rightarrow> bool" where
  "call_memory P bs buff count off s \<longleftrightarrow> cache_inv P s \<and> heap_ok s bs \<and> pool_bytes P \<inter> heap_own s bs = {} \<and>
     (bytes buff count \<union> bytes off 4) \<inter> (pool_bytes P \<union> heap_own s bs) = {} \<and> bytes buff count \<inter> bytes off 4 = {}"

lemma heap_own_tty [simp]: "heap_own (tty_update f s) bs = heap_own s bs" "heap_ok (tty_update f s) bs = heap_ok s bs"
  by (simp_all add: heap_own_def heap_ok_def heap_rep_def)

lemma heap_own_first: "first t = first s \<Longrightarrow> heap_own t bs = heap_own s bs"
  by (simp add: heap_own_def)

lemma cache_inv_tty [simp]: "cache_inv P (tty_update f s) = cache_inv P s"
  by (simp add: cache_inv_def)

lemma call_memory_tty [simp]: "call_memory P bs buff count off (tty_update f s) = call_memory P bs buff count off s"
  by (simp add: call_memory_def)

text \<open>The temporary copy of an inode at \<open>tmp\<close>: \<open>s1\<close> is the state after its allocation in \<open>s\<close>.\<close>

definition inode_copy :: "u32 set \<Rightarrow> blocks \<Rightarrow> nat \<Rightarrow> blocks \<Rightarrow> u32 \<Rightarrow> 'a cache_scheme \<Rightarrow> 'a cache_scheme \<Rightarrow> bool" where
  "inode_copy P bs j bs' tmp s s1 \<longleftrightarrow> alloc_list 128 bs = Some (j, bs') \<and> heap_ok s1 bs' \<and> first s1 = first s \<and>
     unat tmp = unat (first s) + j + 16 \<and> cache_inv P s1 \<and> only (heap_own s bs) (mem s) (mem s1) \<and>
     bytes tmp 128 \<subseteq> heap_own s bs \<and> heap_own s1 bs' \<subseteq> heap_own s bs - bytes tmp 128 \<and> bytes tmp 128 \<inter> pool_bytes P = {}"

lemma inode_copy_tty [simp]: "inode_copy P bs j bs' tmp (tty_update f s) s1 = inode_copy P bs j bs' tmp s s1"
  by (simp add: inode_copy_def)

lemma kmalloc_inode_copy:
  fixes s s1 :: "'a cache_scheme"
  assumes env: "call_memory P bs buff count off s" and k: "kmalloc EXT2_INODE_SIZE s = Done tmp s1"
  obtains j bs' where "inode_copy P bs j bs' tmp s s1"
proof -
  have ok: "heap_ok s bs" and inv: "cache_inv P s" and sep: "heap_own s bs \<inter> pool_bytes P = {}"
    using env by (auto simp: call_memory_def)
  obtain j bs' where a: "alloc_list (unat (128 :: u32)) bs = Some (j, bs')" "heap_ok s1 bs'" "first s1 = first s" "unat tmp = unat (first s) + j + 16"
    "only (heap_own s bs) (mem s) (mem s1)" "bytes tmp 128 \<subseteq> heap_own s bs" "heap_own s1 bs' \<subseteq> heap_own s bs - bytes tmp 128"
    by (rule kmalloc_own [OF ok _ _ k [unfolded EXT2_INODE_SIZE_def]]) simp_all
  obtain m where m: "s1 = s\<lparr>mem := m\<rparr>" using kmalloc_only_mem [OF k] by blast
  then have "cache_inv P s1" using kept_mem [OF inv _ sep(1), of m] a(5) by (simp add: kept_def)
  then show thesis using that [of j bs'] a sep by (auto simp: inode_copy_def)
qed

text \<open>What the caller sees of any run that uses the copy, the cache and the caller's memory, and of the release of the copy.\<close>

lemma inode_copy_frame:
  fixes s s1 w :: "'a cache_scheme"
  assumes env: "call_memory P bs buff count off s" and copy: "inode_copy P bs j bs' tmp s s1"
    and w: "kept P (bytes tmp 128 \<union> bytes buff count \<union> bytes off 4) s1 w"
  shows "heap_ok w bs'" "only (pool_bytes P \<union> heap_own s bs \<union> bytes buff count \<union> bytes off 4) (mem s) (mem w)"
proof -
  note c = copy [unfolded inode_copy_def]
  have "(pool_bytes P \<union> (bytes tmp 128 \<union> bytes buff count \<union> bytes off 4)) \<inter> heap_own s1 bs' = {}"
    using env c by (auto simp: call_memory_def)
  then show "heap_ok w bs'" using heap_ok_only [OF _ kept_first(1,3) [OF w]] c by blast
  show "only (pool_bytes P \<union> heap_own s bs \<union> bytes buff count \<union> bytes off 4) (mem s) (mem w)"
    by (rule only_trans [OF _ kept_first(3) [OF w]]) (use c in auto)
qed

lemma free_inode_copy:
  fixes s s1 w :: "'a cache_scheme"
  assumes env: "call_memory P bs buff count off s" and copy: "inode_copy P bs j bs' tmp s s1"
    and w: "kept P (bytes tmp 128 \<union> bytes buff count \<union> bytes off 4) s1 w"
  obtains t where "kfree tmp w = Done () t" "heap_ok t bs" "cache_inv P t" "rd32 (mem t) off = rd32 (mem w) off"
    "only (pool_bytes P \<union> heap_own s bs \<union> bytes buff count \<union> bytes off 4) (mem s) (mem t)"
    "only (heap_own s bs) (mem w) (mem t)" "\<exists>m. t = w\<lparr>mem := m\<rparr>"
proof -
  note c = copy [unfolded inode_copy_def] and fw = inode_copy_frame [OF env copy w] and kw = kept_first [OF w]
  have up: "unat tmp = unat (first w) + j + 16" and "merged bs" and "alloc_list (unat (128 :: u32)) bs = Some (j, bs')"
    using kw(1) c env by (simp_all add: call_memory_def heap_ok_def)
  then obtain t where t: "kfree tmp w = Done () t" "heap_ok t bs" "only (heap_own w bs') (mem w) (mem t)"
    using kfree_own [OF _ fw(1)] by metis
  have ow: "heap_own w bs' \<subseteq> heap_own s bs" using c heap_own_first [of w s1] kw(1) by auto
  then have o: "only (heap_own s bs) (mem w) (mem t)" using t(3) only_mono by blast
  obtain m where m: "t = w\<lparr>mem := m\<rparr>" using t(1) by (auto simp: kfree_def Let_def split: prod.splits)
  have sep: "heap_own s bs \<inter> pool_bytes P = {}" "bytes off 4 \<inter> heap_own s bs = {}" using env by (auto simp: call_memory_def)
  have "cache_inv P t" using kept_mem [OF kw(2) _ sep(1), of m] o by (simp add: m kept_def)
  moreover have "only (pool_bytes P \<union> heap_own s bs \<union> bytes buff count \<union> bytes off 4) (mem s) (mem t)"
    by (rule only_trans [OF fw(2) o]) auto
  ultimately show thesis using that t(1,2) only_rd32 [OF o sep(2)] o m by blast
qed

text \<open>C14: Whenever \<^verbatim>\<open>ext2_read\<close> returns, whatever the disk holds and however many sectors it has read, it has kept to its memory: the pointers of the
  cache are in order, and only the cache's buffers, the bytes the heap owns, the caller's buffer and the file position have
  changed. Unless the result is -1, the heap has the block list it had before, at most \<^verbatim>\<open>count\<close> bytes were read, and the position has
  advanced by exactly their number; with -1 the heap may have lost one block of 128 bytes.
\<close>

theorem ext2_read_keeps_memory:
  fixes s t :: "'a ext2_scheme"
  assumes env: "call_memory P bs buff count off s" and run: "ext2_read filep buff count off s = Done r t"
  shows "cache_inv P t \<and> only (pool_bytes P \<union> heap_own s bs \<union> bytes buff count \<union> bytes off 4) (mem s) (mem t) \<and>
    (if r = - 1 then heap_ok t bs \<or> (\<exists>j bs'. alloc_list 128 bs = Some (j, bs') \<and> heap_ok t bs')
     else heap_ok t bs \<and> r \<le> count \<and> rd32 (mem t) off = rd32 (mem s) off + r)"
  using run
proof (cases rule: ext2_read_cases)
  case (refused f)
  then show ?thesis using env by (simp add: call_memory_def)
next
  case (opened f tmp s1 b s2 s3 g)
  obtain j bs' where copy: "inode_copy P bs j bs' tmp s s1"
    using kmalloc_inode_copy [OF _ opened(1), of P bs buff count off] env by auto
  note c = copy [unfolded inode_copy_def]
  have b: "b \<in> P" and k2: "kept P (bytes tmp 128) s1 s2" using kept_read_inode [OF _ opened(2)] c by blast+
  have k3: "kept P (bytes tmp 128) s1 s3" using kept_trans [OF k2 kept_put [OF _ b opened(3)]] k2 by (simp add: kept_def)
  show ?thesis
  proof (cases "ucast (ei_type_permissions (mem s3) tmp) AND TYPE_REG_FILE = 0")
    case True
    then have t: "r = - 1" "t = tty_update g s3" using opened(4) by simp_all
    have k: "kept P (bytes tmp 128 \<union> bytes buff count \<union> bytes off 4) s1 t" using k3 by (auto simp: t intro: kept_mono)
    show ?thesis using inode_copy_frame [OF env copy k] kept_first(2) [OF k] t(1) c by auto
  next
    case False
    define v where "v = \<lparr>t_i = rd32 (mem s3) off div BLOCK_SIZE, t_offset = rd32 (mem s3) off mod BLOCK_SIZE,
      t_moved = 0, t_count = count, t_buff = buff\<rparr>"
    obtain x w where w: "ext2_read_blocks (ucast (i_dev (mem s) (f_inode (mem s) filep))) tmp off v (tty_update g s3) = Some (Done x w)"
      "case x of Inl e \<Rightarrow> r = e \<and> t = w | Inr v \<Rightarrow> kfree tmp w = Done () t \<and> r = t_moved v"
      using opened(4) False by (auto simp: v_def)
    have "transfer_apart P off v" using env by (auto simp: transfer_apart_def v_def call_memory_def)
    then obtain v' where v': "x = Inr v'" "kept P (transfer_area off v) s3 w" "progress off v (mem s3) v' (mem w)"
      using kept_read_blocks [OF w(1)] kept_first(2) [OF k3] by auto
    have k: "kept P (bytes tmp 128 \<union> bytes buff count \<union> bytes off 4) s1 w"
      by (rule kept_trans [OF kept_mono [OF k3] kept_mono [OF v'(2)]]) (auto simp: transfer_area_def v_def)
    obtain u where u: "kfree tmp w = Done () u" "heap_ok u bs" "cache_inv P u" "rd32 (mem u) off = rd32 (mem w) off"
      "only (pool_bytes P \<union> heap_own s bs \<union> bytes buff count \<union> bytes off 4) (mem s) (mem u)"
      by (rule free_inode_copy [OF env copy k])
    have "rd32 (mem s3) off = rd32 (mem s1) off"
      using kept_first(3) [OF k3] env c by (intro only_rd32) (auto simp: call_memory_def)
    also have "\<dots> = rd32 (mem s) off"
      using env c by (intro only_rd32 [of "heap_own s bs"]) (auto simp: call_memory_def)
    finally have "rd32 (mem w) off = rd32 (mem s) off + t_moved v'" "t_moved v' \<le> count"
      using progress_start [OF v'(3)] by (simp_all add: v_def)
    then show ?thesis using w(2) u by (auto simp: v'(1))
  qed
qed

section \<open>Writing keeps the cache and the heap\<close>

lemma kept_dirty: "cache_inv P s \<Longrightarrow> b \<in> P \<Longrightarrow> kept P R s (s\<lparr>mem := set_dirty b d (mem s)\<rparr>)"
  using heads_only_pool [OF heads_only_set(2), of b P "mem s" d] links_ok_set(6) [of P b "mem s" d]
  by (auto simp: kept_def cache_inv_def pool_only_iff intro: only_mono)

lemma outside_bytes: "bytes a (of_nat n) \<inter> pool_bytes P = {} \<Longrightarrow> n < 2 ^ 32 \<Longrightarrow> outside P a n"
  unfolding outside_def
proof (intro allI impI ballI)
  fix k b
  assume a: "bytes a (of_nat n) \<inter> pool_bytes P = {}" "n < 2 ^ 32" "k < n" "b \<in> P"
  then have "a + of_nat k \<in> bytes a (of_nat n)" by (simp add: bytes_def word_less_nat_alt unat_of_nat)
  then have "a + of_nat k \<notin> bytes b 544" using a(1,4) by (auto simp: pool_bytes_def)
  then show "544 \<le> a + of_nat k - b" by (simp add: bytes_def not_less)
qed

lemma kept_copy_in:
  fixes u :: "'a ext2_scheme"
  assumes inv: "cache_inv P u" and b: "b \<in> P" and n: "off' + n \<le> 512" and src: "outside P a n"
  obtains f m where "copy_in n a (of_nat off' + bh_buff b) u = tty_update f (u\<lparr>mem := m\<rparr>)" "kept P R u (u\<lparr>mem := m\<rparr>)"
proof -
  have P: "pool_ok P" and n': "n < 2 ^ 32" using inv n by (simp_all add: cache_inv_def)
  define m where "m = memcpy_loop (mem u) (of_nat off' + bh_buff b) a (of_nat n)"
  obtain f where f: "copy_in n a (of_nat off' + bh_buff b) u = tty_update f (u\<lparr>mem := m\<rparr>)"
    using copy_in_memcpy [OF n', of a "of_nat off' + bh_buff b" u] by (auto simp: m_def)
  have "cache_inv P (u\<lparr>mem := m\<rparr>)"
    using cache_inv_heads [OF inv, of m] copy_in_eq(1) [OF P src b n, of _ "mem u"] by (simp add: m_def)
  moreover have "only (pool_bytes P) (mem u) m"
    unfolding pool_only_iff [symmetric] pool_only_def m_def using b n outside_buffer memcpy_loop_frame by blast
  ultimately show thesis using that [OF f] by (auto simp: kept_def intro: only_mono)
qed

lemma write_sectors_step:
  assumes "0 < t_count v"
    and "get_block (ADDR_OF_BLOCK (ei_direct_block (mem s) tmp (t_i v)) s + k) dev s = Done b u"
  shows "ext2_write_sectors (Suc n) k dev tmp off v s = (if b = 0 then Done (Inl v) u
    else let w = copy_in (unat (round_chars v)) (t_buff v) (t_offset v + bh_buff b) (u\<lparr>mem := wr32 (mem u) off (rd32 (mem u) off + round_chars v)\<rparr>)
         in obind (put_block b (w\<lparr>mem := set_dirty b 1 (mem w)\<rparr>)) (\<lambda>_. ext2_write_sectors n (k + 1) dev tmp off (advance (round_chars v) v)))"
  using assms by (simp add: round_chars_def [symmetric] Let_def cong: if_cong)

text \<open>The next round stays inside its sector.\<close>

definition in_sector :: "transfer \<Rightarrow> bool" where
  "in_sector v \<longleftrightarrow> unat (t_offset v) + unat (round_chars v) \<le> 512"

lemma in_sector_advance: "in_sector (advance c v)"
  by (simp add: in_sector_def advance_def round_chars_def BLOCK_SIZE_def word_less_nat_alt)

lemma write_round_kept:
  fixes u w :: "'a ext2_scheme"
  assumes inv: "cache_inv P u" and b: "b \<in> P" and ap: "transfer_apart P off v" and ins: "in_sector v"
    and x: "x = copy_in (unat (round_chars v)) (t_buff v) (t_offset v + bh_buff b) (u\<lparr>mem := wr32 (mem u) off (rd32 (mem u) off + round_chars v)\<rparr>)"
    and p: "put_block b (x\<lparr>mem := set_dirty b 1 (mem x)\<rparr>) = Done () w"
  shows "kept P (bytes off 4) u w" "progress off v (mem u) (advance (round_chars v) v) (mem w)"
proof -
  define c where "c = round_chars v"
  have c: "c \<le> t_count v" "unat c < 2 ^ 32" using unat_u32_less [of c] by (auto simp: c_def round_chars_def)
  define u' where "u' = u\<lparr>mem := wr32 (mem u) off (rd32 (mem u) off + c)\<rparr>"
  have ku': "kept P (bytes off 4) u u'"
    unfolding u'_def using ap by (intro kept_mem [OF inv only_wr32_bytes]) (auto simp: transfer_apart_def)
  have "bytes (t_buff v) (of_nat (unat c)) \<inter> pool_bytes P = {}"
    using ap bytes_tail(2) [OF c(1), of "t_buff v"] by (auto simp: transfer_apart_def)
  then have src: "outside P (t_buff v) (unat c)" by (rule outside_bytes [OF _ c(2)])
  obtain f m where m: "copy_in (unat c) (t_buff v) (of_nat (unat (t_offset v)) + bh_buff b) u' = tty_update f (u'\<lparr>mem := m\<rparr>)"
    "kept P {} u' (u'\<lparr>mem := m\<rparr>)"
    by (rule kept_copy_in [OF kept_first(2) [OF ku'] b ins [unfolded in_sector_def, folded c_def] src])
  have x: "x = tty_update f (u'\<lparr>mem := m\<rparr>)" using x m(1) by (simp add: c_def u'_def)
  then have kx: "kept P {} u' x" using m(2) by simp
  note d = kept_dirty [OF kept_first(2) [OF kx] b, of "{}" 1]
  have kw: "kept P {} u' w" using kept_trans [OF kept_trans [OF kx d] kept_put [OF kept_first(2) [OF d] b p]] .
  then show "kept P (bytes off 4) u w" using kept_trans [OF ku'] kept_mono by blast
  have "rd32 (mem w) off = rd32 (mem u') off"
    using kept_first(3) [OF kw] ap by (intro only_rd32) (auto simp: transfer_apart_def)
  then have "rd32 (mem w) off = rd32 (mem u) off + c" by (simp add: u'_def)
  then show "progress off v (mem u) (advance (round_chars v) v) (mem w)"
    using c bytes_tail(1) [OF c(1), of "t_buff v"] unfolding c_def [symmetric]
    by (auto simp: progress_def advance_def word_sub_le)
qed

interpretation write_loop: sector_loop "\<lambda>n k. ext2_write_sectors n k dev tmp off" P off "\<lambda>_. bytes off 4" in_sector for dev tmp off P
proof (unfold_locales, goal_cases)
  case (2 n k v s r t)
  show ?case
  proof (cases "t_count v > 0")
    case False
    then show ?thesis using 2 by auto
  next
    case True
    obtain b u where g: "get_block (ADDR_OF_BLOCK (ei_direct_block (mem s) tmp (t_i v)) s + k) dev s = Done b u"
      using 2(1) True by (auto simp: obind_Done_iff split: if_splits)
    note u = get_in_loop [OF 2(2) g 2(3)]
    define x where "x = copy_in (unat (round_chars v)) (t_buff v) (t_offset v + bh_buff b) (u\<lparr>mem := wr32 (mem u) off (rd32 (mem u) off + round_chars v)\<rparr>)"
    obtain w where p: "put_block b (x\<lparr>mem := set_dirty b 1 (mem x)\<rparr>) = Done () w"
      and w: "ext2_write_sectors n (k + 1) dev tmp off (advance (round_chars v) v) w = Done r t"
      using 2(1) [unfolded write_sectors_step [OF True g] Let_def] u(2) unfolding x_def [symmetric] by (auto simp: obind_Done_iff)
    note round = write_round_kept [OF u(3,1) 2(3,4) x_def p]
    show ?thesis using kept_trans [OF u(4) round(1)] round(2) u(5) w by (auto simp: progress_def)
  qed
qed (auto intro: in_sector_advance)

lemma kept_write_blocks:
  fixes s t :: "'a ext2_scheme"
  assumes "ext2_write_blocks dev tmp off v s = Some (Done v' t)" and "cache_inv P s" and "transfer_apart P off v" and "in_sector v"
  shows "kept P (bytes off 4) s t \<and> progress off v (mem s) v' (mem t)"
proof -
  have "cache_inv P s \<longrightarrow> transfer_apart P off v \<longrightarrow> in_sector v \<longrightarrow> x = Done v' t \<longrightarrow> kept P (bytes off 4) s t \<and> progress off v (mem s) v' (mem t)"
    if "ext2_write_blocks dev tmp off v s = Some x" for x
  proof (induction rule: ext2_write_blocks.raw_induct [OF _ that])
    case (1 f dev tmp off v s x)
    show ?case
    proof (intro impI)
      assume inv: "cache_inv P s" and R: "transfer_apart P off v" and ins: "in_sector v" and x: "x = Done v' t"
      note run = 1(2) [unfolded x]
      show "kept P (bytes off 4) s t \<and> progress off v (mem s) v' (mem t)"
      proof (cases "ei_direct_block (mem s) tmp (t_i v) \<noteq> 0")
        case False
        then show ?thesis using run inv by (auto simp: kept_refl progress_refl split: if_splits)
      next
        case True
        define q where "q = ext2_write_sectors (unat (block_size s div BLOCK_SIZE)) 0 dev tmp off v s"
        obtain z u where z: "q = Done z u" using run True unfolding q_def by (auto split: outcome.splits)
        obtain v1 where v1: "z = Inr v1" "kept P (bytes off 4) s u" "progress off v (mem s) v1 (mem u)" "in_sector v1"
          using write_loop.kept_sectors [OF z [unfolded q_def] inv R ins] by blast
        have rest: "f dev tmp off v1 u = Some (Done v' t)" using run True z v1(1) unfolding q_def by simp
        have "kept P (bytes off 4) u t \<and> progress off v1 (mem u) v' (mem t)"
          using 1(1) [OF rest] kept_first(2) [OF v1(2)] progress_apart [OF v1(3) R] v1(4) by blast
        then show ?thesis using kept_trans [OF v1(2)] progress_trans [OF v1(3)] by blast
      qed
    qed
  qed
  from this [OF assms(1)] show ?thesis using assms(2-4) by blast
qed

lemma ext2_write_cases:
  fixes s :: "'a ext2_scheme"
  assumes "ext2_write filep buff count off s = Done r t"
  obtains (refused) f where "r = - 1" "t = tty_update f s"
  | (opened) f tmp s1 b s2 where "kmalloc EXT2_INODE_SIZE (tty_update f s) = Done tmp s1"
      "read_inode tmp (i_no (mem s1) (f_inode (mem s) filep)) (ucast (i_dev (mem s) (f_inode (mem s) filep))) s1 = Done b s2"
      "if ucast (ei_type_permissions (mem s2) tmp) AND TYPE_REG_FILE = 0 then r = - 1 \<and> t = s2
       else \<exists>v w z. ext2_write_blocks (ucast (i_dev (mem s) (f_inode (mem s) filep))) tmp off
           \<lparr>t_i = rd32 (mem s2) off div BLOCK_SIZE, t_offset = rd32 (mem s2) off mod BLOCK_SIZE, t_moved = 0, t_count = count, t_buff = buff\<rparr>
           s2 = Some (Done v w) \<and> put_block b (w\<lparr>mem := set_dirty b 1 (set_ei_size_low tmp (t_moved v) (mem w))\<rparr>) = Done () z \<and>
         kfree tmp z = Done () t \<and> r = t_moved v"
proof -
  define f where "f = terminal_writestring ''in ext2_write''"
  define inode where "inode = f_inode (mem s) filep"
  define dev :: u16 where "dev = ucast (i_dev (mem s) inode)"
  define refused where "refused \<longleftrightarrow> rd32 (mem s) off + count \<ge> i_size (mem s) inode \<or> not_a_file (i_flags (mem s) inode)"
  define body where "body = (\<lambda>tmp b (s :: 'a ext2_scheme). if ucast (ei_type_permissions (mem s) tmp) AND TYPE_REG_FILE = 0 then Done (- 1) s
    else case ext2_write_blocks dev tmp off
        \<lparr>t_i = rd32 (mem s) off div BLOCK_SIZE, t_offset = rd32 (mem s) off mod BLOCK_SIZE, t_moved = 0, t_count = count, t_buff = buff\<rparr> s
      of None \<Rightarrow> Diverged
       | Some r \<Rightarrow> obind r (\<lambda>v s. obind (put_block b (s\<lparr>mem := set_dirty b 1 (set_ei_size_low tmp (t_moved v) (mem s))\<rparr>)) (\<lambda>_ s.
           obind (kfree tmp s) (\<lambda>_ s. Done (t_moved v) s))))"
  have ok: "strcmp (mem s) (fs_name (mem s) (sb_fs_type (mem s) (i_sb (mem s) inode))) (literal s ''ext2'') = 0"
    using assms by (auto simp: ext2_write_def Let_def inode_def kpanic_def split: if_splits)
  have eq: "ext2_write filep buff count off s = (if refused then Done (- 1) (tty_update f s)
      else obind (kmalloc EXT2_INODE_SIZE (tty_update f s)) (\<lambda>tmp s. obind (read_inode tmp (i_no (mem s) inode) dev s) (\<lambda>b s. body tmp b s)))"
    using ok unfolding ext2_write_def Let_def by (simp add: f_def inode_def dev_def refused_def body_def cong: if_cong)
  show thesis
  proof (cases refused)
    case True
    then show thesis using assms eq that(1) [of f] by auto
  next
    case False
    then obtain tmp s1 b s2 where k: "kmalloc EXT2_INODE_SIZE (tty_update f s) = Done tmp s1"
      "read_inode tmp (i_no (mem s1) inode) dev s1 = Done b s2" and rest: "body tmp b s2 = Done r t"
      using assms unfolding eq by (auto simp: obind_Done_iff)
    show thesis
      using k rest unfolding dev_def inode_def
      by (intro that(2)) (auto simp: body_def dev_def inode_def obind_Done_iff split: option.splits if_splits)
  qed
qed

lemma inode_copy_position:
  assumes env: "call_memory P bs buff count off s" and copy: "inode_copy P bs j bs' tmp s s1" and k: "kept P (bytes tmp 128) s1 u"
  shows "rd32 (mem u) off = rd32 (mem s) off"
proof -
  note c = copy [unfolded inode_copy_def]
  have "rd32 (mem u) off = rd32 (mem s1) off"
    using kept_first(3) [OF k] env c by (intro only_rd32) (auto simp: call_memory_def)
  also have "\<dots> = rd32 (mem s) off"
    using env c by (intro only_rd32 [of "heap_own s bs"]) (auto simp: call_memory_def)
  finally show ?thesis .
qed

lemma kept_close_inode:
  fixes w z :: "'a ext2_scheme"
  assumes inv: "cache_inv P w" and b: "b \<in> P" and tmp: "bytes tmp 128 \<inter> pool_bytes P = {}" "bytes off 4 \<inter> bytes tmp 128 = {}"
     "bytes off 4 \<inter> pool_bytes P = {}"
    and p: "put_block b (w\<lparr>mem := set_dirty b 1 (set_ei_size_low tmp n (mem w))\<rparr>) = Done () z"
  shows "kept P (bytes tmp 128) w z" "rd32 (mem z) off = rd32 (mem w) off"
proof -
  define x where "x = w\<lparr>mem := set_ei_size_low tmp n (mem w)\<rparr>"
  have "bytes (tmp + 4) 4 \<subseteq> bytes tmp 128" by (auto simp: bytes_def) uint_arith
  then have "only (bytes tmp 128) (mem w) (set_ei_size_low tmp n (mem w))"
    unfolding set_ei_size_low_def by (rule only_mono [OF only_wr32_bytes])
  then have kx: "kept P (bytes tmp 128) w x" unfolding x_def by (rule kept_mem [OF inv _ tmp(1)])
  note d = kept_dirty [OF kept_first(2) [OF kx] b, of "bytes tmp 128" 1]
  have "put_block b (x\<lparr>mem := set_dirty b 1 (mem x)\<rparr>) = Done () z" using p by (simp add: x_def)
  from kept_put [OF kept_first(2) [OF d] b this] show k: "kept P (bytes tmp 128) w z" using kept_trans [OF kept_trans [OF kx d]] by blast
  show "rd32 (mem z) off = rd32 (mem w) off" using only_rd32 [OF kept_first(3) [OF k], of off] tmp by blast
qed

text \<open>C15: The same for \<^verbatim>\<open>ext2_write\<close>, for transfers that start at the beginning of a sector or end within it: whatever the disk holds,
  the pointers of the cache are in order afterwards, only the cache's buffers, the bytes the heap owns and the file position have
  changed, and unless the result is -1 the heap has its old block list and the position has advanced by the number of bytes written.
\<close>

theorem ext2_write_keeps_memory:
  fixes s t :: "'a ext2_scheme"
  assumes env: "call_memory P bs buff count off s" and run: "ext2_write filep buff count off s = Done r t"
    and ins: "unat (rd32 (mem s) off mod BLOCK_SIZE) + min (unat count) 512 \<le> 512"
  shows "cache_inv P t \<and> only (pool_bytes P \<union> heap_own s bs \<union> bytes off 4) (mem s) (mem t) \<and>
    (if r = - 1 then heap_ok t bs \<or> (\<exists>j bs'. alloc_list 128 bs = Some (j, bs') \<and> heap_ok t bs')
     else heap_ok t bs \<and> r \<le> count \<and> rd32 (mem t) off = rd32 (mem s) off + r)"
  using run
proof (cases rule: ext2_write_cases)
  case (refused f)
  then show ?thesis using env by (simp add: call_memory_def)
next
  case (opened f tmp s1 b s2)
  have env0: "call_memory P bs buff 0 off s" using env by (auto simp: call_memory_def bytes_def)
  obtain j bs' where copy: "inode_copy P bs j bs' tmp s s1"
    using kmalloc_inode_copy [OF _ opened(1), of P bs buff count off] env by auto
  note c = copy [unfolded inode_copy_def]
  have b: "b \<in> P" and k2: "kept P (bytes tmp 128) s1 s2" using kept_read_inode [OF _ opened(2)] c by blast+
  have no: "bytes buff 0 = {}" by (simp add: bytes_def)
  note pos = inode_copy_position [OF env copy k2]
  show ?thesis
  proof (cases "ucast (ei_type_permissions (mem s2) tmp) AND TYPE_REG_FILE = 0")
    case True
    then have t: "r = - 1" "t = s2" using opened(3) by simp_all
    have k: "kept P (bytes tmp 128 \<union> bytes buff 0 \<union> bytes off 4) s1 t" using k2 by (auto simp: t intro: kept_mono)
    show ?thesis using inode_copy_frame [OF env0 copy k] kept_first(2) [OF k] t(1) c no by auto
  next
    case False
    define v where "v = \<lparr>t_i = rd32 (mem s2) off div BLOCK_SIZE, t_offset = rd32 (mem s2) off mod BLOCK_SIZE,
      t_moved = 0, t_count = count, t_buff = buff\<rparr>"
    obtain v' w z where w: "ext2_write_blocks (ucast (i_dev (mem s) (f_inode (mem s) filep))) tmp off v s2 = Some (Done v' w)"
      "put_block b (w\<lparr>mem := set_dirty b 1 (set_ei_size_low tmp (t_moved v') (mem w))\<rparr>) = Done () z"
      "kfree tmp z = Done () t" "r = t_moved v'"
      using opened(3) False by (auto simp: v_def)
    have "transfer_apart P off v" "in_sector v"
      using env ins by (auto simp: transfer_apart_def v_def call_memory_def in_sector_def round_chars_def pos BLOCK_SIZE_def min_def word_less_nat_alt split: if_splits)
    then have kw: "kept P (bytes off 4) s2 w" "progress off v (mem s2) v' (mem w)"
      using kept_write_blocks [OF w(1) kept_first(2) [OF k2]] by blast+
    have sep: "bytes tmp 128 \<inter> pool_bytes P = {}" "bytes off 4 \<inter> bytes tmp 128 = {}" "bytes off 4 \<inter> pool_bytes P = {}"
      using env c by (auto simp: call_memory_def)
    note z = kept_close_inode [OF kept_first(2) [OF kw(1)] b sep w(2)]
    have k: "kept P (bytes tmp 128 \<union> bytes buff 0 \<union> bytes off 4) s1 z"
      by (rule kept_trans [OF kept_trans [OF kept_mono [OF k2] kept_mono [OF kw(1)]] kept_mono [OF z(1)]]) auto
    obtain u where u: "kfree tmp z = Done () u" "heap_ok u bs" "cache_inv P u" "rd32 (mem u) off = rd32 (mem z) off"
      "only (pool_bytes P \<union> heap_own s bs \<union> bytes buff 0 \<union> bytes off 4) (mem s) (mem u)"
      by (rule free_inode_copy [OF env0 copy k])
    show ?thesis using progress_start [OF kw(2)] w(3,4) u z(2) pos no by (auto simp: v_def)
  qed
qed

end
