(* ===== verification/Ext2_Cached.thy ===== *)
theory Ext2_Cached
  imports Ext2_Calls
begin

unbundle bit_operations_syntax

text \<open>
  Whole calls of \<^verbatim>\<open>ext2_read\<close> and \<^verbatim>\<open>ext2_write\<close> on a file whose inode and sector the buffer cache holds: every step of the calls is then
  determined, the heap, the cache and the console included, and what a write stores a later read delivers. The calls refuse
  what is not a regular file only after they have allocated memory, which they then lose.
\<close>

section \<open>Blocks the cache holds\<close>

text \<open>Memories whose buffers differ at most in contents and dirty marks.\<close>

definition calm :: "u32 set \<Rightarrow> memory \<Rightarrow> memory \<Rightarrow> bool" where
  "calm P m m' \<longleftrightarrow> (\<forall>c \<in> P. \<exists>d. head m' c = (head m c)\<lparr>h_dirty := d\<rparr>)"

lemma same_but_dirty [simp]: "\<exists>d. (r :: head) = r\<lparr>h_dirty := d\<rparr>"
  by (rule exI [of _ "h_dirty r"]) simp

lemma calm_same: "pool_same P m m' \<Longrightarrow> calm P m m'"
  unfolding calm_def by (simp add: pool_same_head)

lemma calm_trans [trans]: "calm P m m' \<Longrightarrow> calm P m' m'' \<Longrightarrow> calm P m m''"
  unfolding calm_def by fastforce

lemma calm_only: "only R m m' \<Longrightarrow> R \<inter> pool_bytes P = {} \<Longrightarrow> calm P m m'"
  by (rule calm_same [OF only_pool_same])

lemma calm_dirty: "pool_ok P \<Longrightarrow> b \<in> P \<Longrightarrow> calm P m (set_dirty b d m)"
  by (auto simp: calm_def head_set(2))

lemma calm_label: "calm P m m' \<Longrightarrow> c \<in> P \<Longrightarrow> label m' c = label m c \<and> h_count (head m' c) = h_count (head m c)"
  by (auto simp: calm_def label_def dest!: bspec)

lemma calm_inv: "calm P (mem s) m \<Longrightarrow> cache_inv P s \<Longrightarrow> cache_inv P (tty_update f (s\<lparr>mem := m\<rparr>))"
  by (fastforce simp: calm_def cache_inv_def links_ok_def)

text \<open>Buffer \<open>b\<close> holds the block, has a user and can take two more.\<close>

definition held :: "u32 set \<Rightarrow> u32 \<Rightarrow> u16 \<Rightarrow> u32 \<Rightarrow> 'a cache_scheme \<Rightarrow> bool" where
  "held P block dev b s \<longleftrightarrow> cache_inv P s \<and> b \<in> P \<and> find_buffer (mem s) block dev (buff_head s (ucast block)) = Some b \<and>
     0 < h_count (head (mem s) b) \<and> h_count (head (mem s) b) < 0xFFFFFFFE"

lemma held_tty [simp]: "held P block dev b (tty_update f s) = held P block dev b s"
  by (simp add: held_def)

lemma held_calm:
  assumes "held P block dev b s" and "calm P (mem s) m"
  shows "held P block dev b (s\<lparr>mem := m\<rparr>)"
  using assms(1) calm_inv [OF assms(2), of id] calm_label [OF assms(2)] find_buffer_cong [of "mem s" block dev _ b P m]
  by (auto simp: held_def cache_inv_def)

lemma held_get:
  assumes "held P block dev b s"
  shows "get_block block dev s = Done b (tty_update (terminal_printhex32 block) (s\<lparr>mem := set_count b (h_count (head (mem s) b) + 1) (mem s)\<rparr>))"
proof -
  have "b \<noteq> 0" using assms by (auto simp: held_def cache_inv_def pool_ok_def)
  then show ?thesis using assms by (simp add: held_def get_block_def get_hit_def bh_head Let_def word_gt_0)
qed

lemma held_counted:
  assumes "held P block dev b s" and "calm P (set_count b (h_count (head (mem s) b) + 1) (mem s)) m"
  shows "h_count (head m b) = h_count (head (mem s) b) + 1" "1 < h_count (head m b)"
    "calm P (mem s) (set_count b (h_count (head (mem s) b)) m)" "heads_only P m (set_count b (h_count (head (mem s) b)) m)"
proof -
  have P: "pool_ok P" "b \<in> P" using assms(1) by (simp_all add: held_def cache_inv_def)
  show c: "h_count (head m b) = h_count (head (mem s) b) + 1"
    using calm_label [OF assms(2) P(2)] head_set(4) [OF P P(2)] by simp
  have "0 < h_count (head (mem s) b)" "h_count (head (mem s) b) < 0xFFFFFFFE" using assms(1) by (simp_all add: held_def)
  then show "1 < h_count (head m b)" unfolding c by (simp add: word_less_nat_alt unat_word_ariths)
  show "heads_only P m (set_count b (h_count (head (mem s) b)) m)" by (rule heads_only_set(4) [OF P(2)])
  show "calm P (mem s) (set_count b (h_count (head (mem s) b)) m)"
    unfolding calm_def
  proof
    fix x assume x: "x \<in> P"
    then obtain d where "head m x = (head (set_count b (h_count (head (mem s) b) + 1) (mem s)) x)\<lparr>h_dirty := d\<rparr>"
      using assms(2) by (auto simp: calm_def)
    then show "\<exists>d. head (set_count b (h_count (head (mem s) b)) m) x = (head (mem s) x)\<lparr>h_dirty := d\<rparr>"
      by (auto simp: head_set(4) [OF P x] intro!: exI [of _ d])
  qed
qed

lemma held_put:
  assumes "held P block dev b s" and "calm P (set_count b (h_count (head (mem s) b) + 1) (mem s)) m"
  shows "put_block b (tty_update f (s\<lparr>mem := m\<rparr>)) = Done () (tty_update f (s\<lparr>mem := set_count b (h_count (head (mem s) b)) m\<rparr>))"
  using held_counted [OF assms] by (simp add: put_block_def bh_head)

lemma contents_same:
  assumes "pool_ok P" "x \<in> P"
  shows "heads_only P m m' \<Longrightarrow> contents m' x = contents m x" "pool_same P m m' \<Longrightarrow> contents m' x = contents m x"
  using heads_only_contents(1) [OF _ assms] pool_same_contents [OF _ assms(2)] by blast+

section \<open>Transfers inside a sector the cache holds\<close>

lemma one_sector_simps:
  assumes "one_sector P tmp off n v s"
  shows "0 < n" "n \<le> 512" "n < 2 ^ 32" "unat (t_offset v) + n \<le> 512" "t_count v = of_nat n" "t_i v < 12" "0 < unat (block_size s div BLOCK_SIZE)"
    "outside P (t_buff v) n" "outside P off 4" "outside P tmp 128"
    "k < 128 \<Longrightarrow> 4 \<le> tmp + of_nat k - off" "k < 128 \<Longrightarrow> of_nat n \<le> tmp + of_nat k - t_buff v"
    "ei_direct_block (mem s) tmp (t_i v) \<noteq> 0"
  using assms sectors_pos [of s] by (simp_all add: one_sector_def)

text \<open>Memory after a round, as far as it is outside the buffers.\<close>

lemma counted_outside:
  assumes "b \<in> P" and "\<forall>c \<in> P. 544 \<le> x - c"
  shows "set_count b v m x = m x"
  using heads_only_pool [OF heads_only_set(4) [OF assms(1)]] assms(2) by (simp add: pool_only_def)

lemma held_read_round:
  fixes s :: "'a ext2_scheme"
  assumes h: "held P block dev b s" and n: "off' + n \<le> 512" and out: "outside P dest n" "outside P off 4"
  defines "m0 \<equiv> set_count b (h_count (head (mem s) b) + 1) (mem s)"
  obtains f m where "put_block b (copy_out n dest (of_nat off' + bh_buff b) ((tty_update g s)\<lparr>mem := wr32 m0 off (rd32 m0 off + of_nat n)\<rparr>)) =
      Done () (tty_update f (s\<lparr>mem := m\<rparr>))"
    "load_bytes m dest n = take n (drop off' (contents (mem s) b))"
    "\<forall>x. (\<forall>c \<in> P. 544 \<le> x - c) \<and> 4 \<le> x - off \<and> of_nat n \<le> x - dest \<longrightarrow> m x = mem s x"
proof -
  define c where "c = h_count (head (mem s) b)"
  have P: "pool_ok P" "b \<in> P" and n': "n < 2 ^ 32" using h n by (auto simp: held_def cache_inv_def)
  define m1 m2 where "m1 = wr32 m0 off (rd32 m0 off + of_nat n)" and "m2 = memcpy_loop m1 dest (of_nat off' + bh_buff b) (of_nat n)"
  define m3 where "m3 = set_count b c m2"
  have ps1: "pool_same P m0 m1" unfolding m1_def by (rule pool_same_wr32 [OF out(2)])
  have ps: "pool_same P m0 m2" using ps1 pool_same_memcpy [OF out(1) n'] unfolding m2_def by (rule pool_same_trans)
  obtain f where f: "copy_out n dest (of_nat off' + bh_buff b) ((tty_update g s)\<lparr>mem := m1\<rparr>) = tty_update f (s\<lparr>mem := m2\<rparr>)"
    using copy_out_memcpy [OF n', of dest "of_nat off' + bh_buff b" "(tty_update g s)\<lparr>mem := m1\<rparr>"]
    by (auto simp: m2_def intro: that [of "_ \<circ> g"])
  note put = held_put [OF h calm_same [OF ps [unfolded m0_def]], folded c_def m3_def]
  have frame: "m3 x = mem s x" if "\<forall>c \<in> P. 544 \<le> x - c" "4 \<le> x - off" "of_nat n \<le> x - dest" for x
    using that counted_outside [OF P(2)] by (simp add: m3_def m2_def memcpy_loop_frame m1_def wr32_other m0_def)
  have "m3 (dest + of_nat k) = mem s (bh_buff b + of_nat (off' + k))" if k: "k < n" for k
  proof -
    have "m3 (dest + of_nat k) = m2 (dest + of_nat k)"
      unfolding m3_def using out(1) k by (intro counted_outside [OF P(2)]) (simp add: outside_def)
    also have "\<dots> = m1 (bh_buff b + of_nat (off' + k))" unfolding m2_def by (rule copy_out_eq [OF out(1) P(2) n k])
    also have "\<dots> = m0 (bh_buff b + of_nat (off' + k))"
      using ps1 P(2) in_buffer [of off' k] k n unfolding pool_same_def bh_buff_def add.assoc by simp
    also have "\<dots> = mem s (bh_buff b + of_nat (off' + k))"
      unfolding m0_def by (rule heads_only_data [OF heads_only_set(4) [OF P(2)] P(1,2)]) (use k n in simp)
    finally show ?thesis .
  qed
  then have "load_bytes m3 dest n = take n (drop off' (contents (mem s) b))"
    using n by (intro nth_equalityI) (simp_all add: load_bytes_nth contents_def)
  then show thesis using that put [of f] f frame unfolding m1_def [symmetric] by simp
qed

lemma read_blocks_held:
  fixes s :: "'a ext2_scheme"
  assumes one: "one_sector P tmp off n v s" and h: "held P (ADDR_OF_BLOCK (ei_direct_block (mem s) tmp (t_i v)) s) dev b s"
  obtains f m where "ext2_read_blocks dev tmp off v s = Some (Done (Inr (advance (of_nat n) v)) (tty_update f (s\<lparr>mem := m\<rparr>)))"
    "load_bytes m (t_buff v) n = take n (drop (unat (t_offset v)) (contents (mem s) b))"
proof -
  note o = one_sector_simps [OF one]
  have b: "b \<noteq> 0" using h by (auto simp: held_def cache_inv_def pool_ok_def)
  define block where "block = ADDR_OF_BLOCK (ei_direct_block (mem s) tmp (t_i v)) s"
  define m0 where "m0 = set_count b (h_count (head (mem s) b) + 1) (mem s)"
  obtain f m where m: "put_block b (copy_out n (t_buff v) (of_nat (unat (t_offset v)) + bh_buff b)
      ((tty_update (terminal_printhex32 block) s)\<lparr>mem := wr32 m0 off (rd32 m0 off + of_nat n)\<rparr>)) = Done () (tty_update f (s\<lparr>mem := m\<rparr>))"
    "load_bytes m (t_buff v) n = take n (drop (unat (t_offset v)) (contents (mem s) b))"
    "\<forall>x. (\<forall>c \<in> P. 544 \<le> x - c) \<and> 4 \<le> x - off \<and> of_nat n \<le> x - t_buff v \<longrightarrow> m x = mem s x"
    unfolding m0_def by (rule held_read_round [OF h o(4,8,9)])
  define t where "t = tty_update f (s\<lparr>mem := m\<rparr>)"
  have sec: "ext2_read_sectors (unat (block_size s div BLOCK_SIZE)) 0 dev tmp off v s = Done (Inr (advance (of_nat n) v)) t"
    using m(1) b unfolding read_one_sector [OF o(1,2,5,7)] held_get [OF h] by (simp add: m0_def t_def block_def)
  have "\<forall>k < 128. mem t (tmp + of_nat k) = mem s (tmp + of_nat k)"
    using m(3) o(10-12) by (auto simp: t_def outside_def)
  note stop = one_sector_ends [OF one this, of "of_nat n"]
  have "ext2_read_blocks dev tmp off (advance (of_nat n) v) t = Some (Done (Inr (advance (of_nat n) v)) t)"
    using stop by (subst ext2_read_blocks.simps) auto
  then have "ext2_read_blocks dev tmp off v s = Some (Done (Inr (advance (of_nat n) v)) t)"
    using o(6,13) sec by (subst ext2_read_blocks.simps) simp
  then show thesis using that m(2) unfolding t_def by blast
qed

section \<open>Inodes the cache holds\<close>

definition geometry :: "'a ext2_scheme \<Rightarrow> bool" where
  "geometry s \<longleftrightarrow> inodes_per_group s \<noteq> 0 \<and> inodes_per_block s \<noteq> 0 \<and> 512 \<le> block_size s \<and>
     unat (inode_size s) dvd 512 \<and> 128 \<le> unat (inode_size s)"

lemma inode_sector_tty [simp]: "inode_sector inode (tty_update f s) = inode_sector inode s" "INODE_OFFSET inode (tty_update f s) = INODE_OFFSET inode s"
  "INODE_OFFSET inode (s\<lparr>mem := m\<rparr>) = INODE_OFFSET inode s"
  by (simp_all add: inode_sector_def INODE_OFFSET_def ADDR_OF_BLOCK_def BLOCK_OF_INODE_def INODE_INDEX_def BG_OF_INODE_def Let_def)

lemma read_inode_held:
  fixes s :: "'a ext2_scheme"
  assumes geo: "geometry s" and h: "held P (inode_sector inode s) dev b s" and dest: "outside P dest 128" "dest \<noteq> 0"
  defines "m0 \<equiv> set_count b (h_count (head (mem s) b) + 1) (mem s)"
  obtains f m where "read_inode dest inode dev s = Done b (tty_update f (s\<lparr>mem := m\<rparr>))" "only (bytes dest 128) m0 m" "pool_same P m0 m"
    "\<forall>k < 128. m (dest + of_nat k) = mem s (bh_buff b + INODE_OFFSET inode s + of_nat k)"
proof -
  have P: "pool_ok P" "b \<in> P" using h by (auto simp: held_def cache_inv_def)
  define off where "off = unat (INODE_OFFSET inode s)"
  have off: "INODE_OFFSET inode s = of_nat off" "off + 128 \<le> 512"
    using inode_offset_bound [of s inode] geo by (simp_all add: off_def geometry_def)
  define m where "m = memcpy_loop m0 dest (of_nat off + bh_buff b) (of_nat 128)"
  have nz: "inodes_per_group s \<noteq> 0" "inodes_per_block s \<noteq> 0" "block_size s \<noteq> 0" using geo by (auto simp: geometry_def)
  have g: "get_block (inode_sector inode s) dev (tty_update g s) =
      Done b (tty_update (terminal_printhex32 (inode_sector inode s)) ((tty_update g s)\<lparr>mem := m0\<rparr>))" for g
    using held_get [of P _ dev b "tty_update g s"] h by (simp add: m0_def)
  have "\<exists>f. read_inode dest inode dev s = Done b ((tty_update f s)\<lparr>mem := m\<rparr>)"
    using nz dest(2) by (auto simp: read_inode_def Let_def g m_def off(1) EXT2_INODE_SIZE_def)
  then obtain f where "read_inode dest inode dev s = Done b ((tty_update f s)\<lparr>mem := m\<rparr>)" by blast
  then have f: "read_inode dest inode dev s = Done b (tty_update f (s\<lparr>mem := m\<rparr>))" by simp
  have "only (bytes dest 128) m0 m" "pool_same P m0 m"
    using pool_same_memcpy [OF dest(1), of m0] by (auto simp: m_def only_def bytes_def not_less memcpy_loop_frame)
  moreover have "m (dest + of_nat k) = mem s (bh_buff b + INODE_OFFSET inode s + of_nat k)" if k: "k < 128" for k
  proof -
    have "m (dest + of_nat k) = m0 (bh_buff b + of_nat (off + k))" unfolding m_def by (rule copy_out_eq [OF dest(1) P(2) off(2) k])
    also have "\<dots> = mem s (bh_buff b + of_nat (off + k))"
      unfolding m0_def by (rule heads_only_data [OF heads_only_set(4) [OF P(2)] P(1,2)]) (use k off(2) in simp)
    finally show ?thesis by (simp add: off(1) add.assoc)
  qed
  ultimately show thesis using that f by blast
qed

lemma calm_count: "pool_ok P \<Longrightarrow> b \<in> P \<Longrightarrow> calm P m m' \<Longrightarrow> calm P (set_count b v m) (set_count b v m')"
  unfolding calm_def
proof
  fix c assume P: "pool_ok P" "b \<in> P" and m: "\<forall>c \<in> P. \<exists>d. head m' c = (head m c)\<lparr>h_dirty := d\<rparr>" and c: "c \<in> P"
  then obtain d where "head m' c = (head m c)\<lparr>h_dirty := d\<rparr>" by blast
  then show "\<exists>d. head (set_count b v m') c = (head (set_count b v m) c)\<lparr>h_dirty := d\<rparr>"
    by (intro exI [of _ d], cases "c = b") (simp_all add: head_set(4) [OF P c] head_set(4) [OF P P(2)])
qed

lemma inode_shift:
  assumes "\<forall>k < 128. m' (t + of_nat k) = m (a + of_nat k)"
  shows "i < 12 \<Longrightarrow> ei_direct_block m' t i = ei_direct_block m a i" "ei_type_permissions m' t = ei_type_permissions m a"
proof -
  show "ei_type_permissions m' t = ei_type_permissions m a"
    using assms [rule_format, of 0] assms [rule_format, of 1] by (simp add: ei_type_permissions_def rd16_def)
  assume i: "i < 12"
  define j where "j = 40 + 4 * unat i"
  have j: "c + 40 + 4 * i = c + of_nat j" "j + 4 \<le> 128" for c
    using i by (simp_all add: j_def word_less_nat_alt)
  have "m' (t + of_nat j + of_nat k) = m (a + of_nat j + of_nat k)" if "k < 4" for k
    using assms [rule_format, of "j + k"] j(2) that by (simp add: add.assoc)
  from this [of 0] this [of 1] this [of 2] this [of 3] show "ei_direct_block m' t i = ei_direct_block m a i"
    unfolding ei_direct_block_def j(1) by (simp add: rd32_def)
qed

lemma bytes_far:
  assumes "bytes a (of_nat n) \<inter> bytes b m = {}" and "n < 2 ^ 32" and "k < n"
  shows "m \<le> a + of_nat k - b"
proof -
  have "a + of_nat k \<in> bytes a (of_nat n)" using assms(2,3) by (simp add: bytes_def word_less_nat_alt unat_of_nat)
  then have "a + of_nat k \<notin> bytes b m" using assms(1) by blast
  then show ?thesis by (simp add: bytes_def not_less)
qed

lemma pool_only_calm_contents: "only R m m' \<Longrightarrow> R \<inter> pool_bytes P = {} \<Longrightarrow> x \<in> P \<Longrightarrow> contents m' x = contents m x"
  by (rule pool_same_contents [OF only_pool_same])

text \<open>
  A transfer of \<open>n\<close> bytes at the file position that stays inside one sector of a regular file, followed by an empty entry in the inode: the inode's sector is in
  buffer \<open>ib\<close> of the cache, the file's sector in buffer \<open>b\<close>, and the heap has room for the copy of the inode.
\<close>

definition inode_image :: "u32 \<Rightarrow> u32 \<Rightarrow> 'a ext2_scheme \<Rightarrow> u32" where
  "inode_image filep ib s = bh_buff ib + INODE_OFFSET (i_no (mem s) (f_inode (mem s) filep)) s"

definition file_dev :: "u32 \<Rightarrow> 'a ext2_scheme \<Rightarrow> u16" where
  "file_dev filep s = ucast (i_dev (mem s) (f_inode (mem s) filep))"

definition inode_cached :: "u32 set \<Rightarrow> blocks \<Rightarrow> u32 \<Rightarrow> u32 \<Rightarrow> 'a ext2_scheme \<Rightarrow> bool" where
  "inode_cached P bs filep ib s \<longleftrightarrow> geometry s \<and> (\<exists>j bs'. alloc_list 128 bs = Some (j, bs')) \<and>
     (let inode = f_inode (mem s) filep; ino = i_no (mem s) inode
      in bytes inode 32 \<inter> heap_own s bs = {} \<and> bytes (bgdt_entries s + 32 * BG_OF_INODE ino s + 8) 4 \<inter> heap_own s bs = {} \<and>
         \<not> not_a_file (i_flags (mem s) inode) \<and> held P (inode_sector ino s) (file_dev filep s) ib s)"

definition regular :: "u32 \<Rightarrow> u32 \<Rightarrow> 'a ext2_scheme \<Rightarrow> bool" where
  "regular filep ib s \<longleftrightarrow> ucast (ei_type_permissions (mem s) (inode_image filep ib s)) AND TYPE_REG_FILE \<noteq> 0"

definition sector_cached :: "u32 set \<Rightarrow> u32 \<Rightarrow> nat \<Rightarrow> u32 \<Rightarrow> u32 \<Rightarrow> u32 \<Rightarrow> 'a ext2_scheme \<Rightarrow> bool" where
  "sector_cached P filep n pos ib b s \<longleftrightarrow> regular filep ib s \<and> 0 < n \<and> unat (pos mod BLOCK_SIZE) + n \<le> 512 \<and>
     pos + of_nat n < i_size (mem s) (f_inode (mem s) filep) \<and>
     (let a = inode_image filep ib s; i = pos div BLOCK_SIZE
      in i < 12 \<and> ei_direct_block (mem s) a i \<noteq> 0 \<and> (i = 11 \<or> ei_direct_block (mem s) a (i + 1) = 0) \<and>
         held P (ADDR_OF_BLOCK (ei_direct_block (mem s) a i) s) (file_dev filep s) b s)"

lemma inode_sector_cong:
  assumes "only R (mem s) m" and "bytes (bgdt_entries s + 32 * BG_OF_INODE ino s + 8) 4 \<inter> R = {}"
  shows "inode_sector ino (s\<lparr>mem := m\<rparr>) = inode_sector ino s"
proof -
  have "bgd_inode_table m (bgdt_entries s) (BG_OF_INODE ino s) = bgd_inode_table (mem s) (bgdt_entries s) (BG_OF_INODE ino s)"
    unfolding bgd_inode_table_def by (rule only_rd32 [OF assms])
  then show ?thesis
    by (simp add: inode_sector_def ADDR_OF_BLOCK_def BLOCK_OF_INODE_def INODE_INDEX_def BG_OF_INODE_def Let_def)
qed

lemma inode_image_byte:
  assumes "geometry s" and "pool_same P m m'" and "ib \<in> P" and "k < 128"
  shows "m' (bh_buff ib + INODE_OFFSET ino s + of_nat k) = m (bh_buff ib + INODE_OFFSET ino s + of_nat k)"
proof -
  define off where "off = unat (INODE_OFFSET ino s)"
  have off: "INODE_OFFSET ino s = of_nat off" "off + k < 512"
    using inode_offset_bound [of s ino] assms(1,4) by (simp_all add: off_def geometry_def)
  have "m' (ib + (32 + of_nat (off + k))) = m (ib + (32 + of_nat (off + k)))"
    using assms(2,3) in_buffer [OF off(2)] unfolding pool_same_def by blast
  then show ?thesis by (simp add: off(1) bh_buff_def add.assoc)
qed

lemma open_cached:
  fixes s :: "'a ext2_scheme"
  assumes env: "call_memory P bs buff count off s" and ic: "inode_cached P bs filep ib s"
  defines "m0 \<equiv> set_count ib (h_count (head (mem s) ib) + 1) (mem s)"
  obtains j bs' tmp s1 f m where "kmalloc EXT2_INODE_SIZE (tty_update g s) = Done tmp s1" "inode_copy P bs j bs' tmp s s1"
    "read_inode tmp (i_no (mem s1) (f_inode (mem s) filep)) (file_dev filep s) s1 = Done ib (tty_update f (s\<lparr>mem := m\<rparr>))"
    "calm P m0 m" "\<forall>x \<in> P. contents m x = contents (mem s) x" 
    "\<forall>k < 128. m (tmp + of_nat k) = mem s (inode_image filep ib s + of_nat k)" "tmp \<noteq> 0"
proof -
  define inode where "inode = f_inode (mem s) filep"
  define ino where "ino = i_no (mem s) inode"
  have geo: "geometry s" and a: "\<exists>j bs'. alloc_list 128 bs = Some (j, bs')" and sep: "bytes inode 32 \<inter> heap_own s bs = {}"
    "bytes (bgdt_entries s + 32 * BG_OF_INODE ino s + 8) 4 \<inter> heap_own s bs = {}" and h: "held P (inode_sector ino s) (file_dev filep s) ib s"
    using ic by (auto simp: inode_cached_def Let_def inode_def ino_def)
  have ok: "heap_ok (tty_update g s) bs" using env by (simp add: call_memory_def)
  obtain tmp s1 where k: "kmalloc EXT2_INODE_SIZE (tty_update g s) = Done tmp s1"
    using a kmalloc_simulation [OF ok, of 128] by (auto simp: EXT2_INODE_SIZE_def)
  then obtain j bs' where copy: "inode_copy P bs j bs' tmp s s1"
    using kmalloc_inode_copy [OF _ k, of P bs buff count off] env by auto
  note c = copy [unfolded inode_copy_def]
  obtain m1 where "s1 = (tty_update g s)\<lparr>mem := m1\<rparr>" using kmalloc_only_mem [OF k] by blast
  then have s1: "s1 = tty_update g (s\<lparr>mem := m1\<rparr>)" by simp
  have o1: "only (heap_own s bs) (mem s) m1" and hp: "heap_own s bs \<inter> pool_bytes P = {}" and P: "pool_ok P" "ib \<in> P"
    using c env h by (auto simp: s1 call_memory_def held_def cache_inv_def)
  note calm1 = calm_only [OF o1 hp]
  have "bytes (inode + 4) 4 \<subseteq> bytes inode 32" by (rule field_bytes) simp
  then have "i_no m1 inode = ino" unfolding ino_def i_no_def using sep(1) by (intro only_rd32 [OF o1]) blast
  moreover have "inode_sector ino s1 = inode_sector ino s" using inode_sector_cong [OF o1 sep(2)] by (simp add: s1)
  moreover have h1: "held P (inode_sector ino s) (file_dev filep s) ib s1" using held_calm [OF h calm1] by (simp add: s1)
  moreover have "geometry s1" using geo by (simp add: s1 geometry_def)
  moreover have t0: "tmp \<noteq> 0" using c by auto
  moreover have "outside P tmp 128" using c by (intro outside_bytes) simp_all
  ultimately obtain f m where m: "read_inode tmp (i_no (mem s1) inode) (file_dev filep s) s1 = Done ib (tty_update f (s1\<lparr>mem := m\<rparr>))"
    "pool_same P (set_count ib (h_count (head (mem s1) ib) + 1) (mem s1)) m"
    "\<forall>k < 128. m (tmp + of_nat k) = mem s1 (bh_buff ib + INODE_OFFSET ino s1 + of_nat k)"
    using read_inode_held [of s1 P ino "file_dev filep s" ib tmp] by (simp add: s1) metis
  have hc: "h_count (head m1 ib) = h_count (head (mem s) ib)" using calm_label [OF calm1 P(2)] by simp
  have "calm P m0 m"
    using calm_count [OF P calm1, of "h_count (head (mem s) ib) + 1"] calm_same [OF m(2)] hc unfolding m0_def
    by (auto simp: s1 intro: calm_trans)
  moreover have "contents m x = contents (mem s) x" if x: "x \<in> P" for x
    using contents_same(2) [OF P(1) x m(2)] contents_same(1) [OF P(1) x heads_only_set(4) [OF P(2)]] contents_same(2) [OF P(1) x only_pool_same [OF o1 hp]]
    by (simp add: s1)
  moreover have "m (tmp + of_nat k) = mem s (inode_image filep ib s + of_nat k)" if "k < 128" for k
    using m(3) that inode_image_byte [OF geo only_pool_same [OF o1 hp] P(2) that, of ino] by (simp add: s1 inode_image_def inode_def ino_def)
  ultimately show thesis using that [OF k copy] m(1) t0 by (simp add: s1 inode_def)
qed

definition transfer_at :: "u32 \<Rightarrow> u32 \<Rightarrow> u32 \<Rightarrow> transfer" where
  "transfer_at pos count buff = \<lparr>t_i = pos div BLOCK_SIZE, t_offset = pos mod BLOCK_SIZE, t_moved = 0, t_count = count, t_buff = buff\<rparr>"

lemma next_direct: "i < 12 \<Longrightarrow> i \<noteq> 11 \<Longrightarrow> (i :: u32) + 1 < 12"
  by (auto simp: word_less_nat_alt word_unat_eq_iff unat_word_ariths)

lemma cached_one_sector:
  fixes s t :: "'a ext2_scheme"
  assumes env: "call_memory P bs buff (of_nat n) off s" and sc: "sector_cached P filep n pos ib b s" and geo: "geometry s"
    and copy: "inode_copy P bs j bs' tmp s s1" and t: "t = tty_update f (s\<lparr>mem := m\<rparr>)"
    and img: "\<forall>k < 128. m (tmp + of_nat k) = mem s (inode_image filep ib s + of_nat k)"
  shows "one_sector P tmp off n (transfer_at pos (of_nat n) buff) t"
    "ADDR_OF_BLOCK (ei_direct_block (mem t) tmp (pos div BLOCK_SIZE)) t =
       ADDR_OF_BLOCK (ei_direct_block (mem s) (inode_image filep ib s) (pos div BLOCK_SIZE)) s"
proof -
  note c = copy [unfolded inode_copy_def] and e = env [unfolded call_memory_def] and sc' = sc [unfolded sector_cached_def Let_def]
  have n: "0 < n" "unat (pos mod BLOCK_SIZE) + n \<le> 512" "n < 2 ^ 32" and i: "pos div BLOCK_SIZE < 12" using sc' by auto
  note d = inode_shift(1) [OF img]
  have d': "ei_direct_block m tmp (pos div BLOCK_SIZE) = ei_direct_block (mem s) (inode_image filep ib s) (pos div BLOCK_SIZE)"
    "pos div BLOCK_SIZE = 11 \<or> ei_direct_block m tmp (pos div BLOCK_SIZE + 1) = 0"
    using d [OF i] d [OF next_direct [OF i]] sc' by (auto simp: disj_imp)
  have "bytes buff (of_nat n) \<inter> pool_bytes P = {}" "bytes off (of_nat 4) \<inter> pool_bytes P = {}" "bytes tmp (of_nat 128) \<inter> pool_bytes P = {}"
    using e c by auto
  note out = outside_bytes [OF this(1) n(3)] outside_bytes [OF this(2)] outside_bytes [OF this(3)]
  have "bytes off (of_nat 4) \<inter> bytes buff (of_nat n) = {}" "bytes tmp (of_nat 128) \<inter> bytes off 4 = {}"
    "bytes tmp (of_nat 128) \<inter> bytes buff (of_nat n) = {}" using e c by auto
  note far = bytes_far [OF this(1)] bytes_far [OF this(2)] bytes_far [OF this(3)]
  have bs: "512 \<le> block_size s" using geo by (simp add: geometry_def)
  show "one_sector P tmp off n (transfer_at pos (of_nat n) buff) t"
    unfolding one_sector_def transfer_at_def using n i d' sc' out far bs by (simp add: t)
  show "ADDR_OF_BLOCK (ei_direct_block (mem t) tmp (pos div BLOCK_SIZE)) t =
       ADDR_OF_BLOCK (ei_direct_block (mem s) (inode_image filep ib s) (pos div BLOCK_SIZE)) s"
    by (simp add: t d'(1) ADDR_OF_BLOCK_def)
qed

lemma ext2_read_opens:
  fixes s :: "'a ext2_scheme"
  assumes "rd32 (mem s) off + count < i_size (mem s) (f_inode (mem s) filep)" "\<not> not_a_file (i_flags (mem s) (f_inode (mem s) filep))"
    and "kmalloc EXT2_INODE_SIZE (tty_update (terminal_writestring ''in ext2_read'') s) = Done tmp s1"
    and "read_inode tmp (i_no (mem s1) (f_inode (mem s) filep)) (file_dev filep s) s1 = Done b s2" and "put_block b s2 = Done () s3"
    and "ucast (ei_type_permissions (mem s3) tmp) AND TYPE_REG_FILE \<noteq> 0"
  obtains g where "ext2_read filep buff count off s =
    (case ext2_read_blocks (file_dev filep s) tmp off (transfer_at (rd32 (mem s3) off) count buff) (tty_update g s3) of
       None \<Rightarrow> Diverged
     | Some r \<Rightarrow> obind r (\<lambda>x s. case x of Inl ret \<Rightarrow> Done ret s | Inr v \<Rightarrow> obind (kfree tmp s) (\<lambda>_ s. Done (t_moved v) s)))"
proof -
  obtain g where g: "print_bytes 128 tmp s3 = tty_update g s3" using print_bytes_tty by blast
  have c: "\<not> i_size (mem s) (f_inode (mem s) filep) \<le> rd32 (mem s) off + count" using assms(1) by simp
  have "ext2_read filep buff count off s =
    (case ext2_read_blocks (file_dev filep s) tmp off (transfer_at (rd32 (mem s3) off) count buff) (tty_update g s3) of
       None \<Rightarrow> Diverged
     | Some r \<Rightarrow> obind r (\<lambda>x s. case x of Inl ret \<Rightarrow> Done ret s | Inr v \<Rightarrow> obind (kfree tmp s) (\<lambda>_ s. Done (t_moved v) s)))"
    using assms(2-) c unfolding ext2_read_def Let_def
    by (simp add: strcmp_always_equal g file_dev_def transfer_at_def)
  then show thesis by (rule that)
qed

lemma open_cached_read:
  fixes s :: "'a ext2_scheme"
  assumes env: "call_memory P bs buff count off s" and ic: "inode_cached P bs filep ib s"
  obtains j bs' tmp s1 s2 f m where "kmalloc EXT2_INODE_SIZE (tty_update g s) = Done tmp s1" "inode_copy P bs j bs' tmp s s1"
    "read_inode tmp (i_no (mem s1) (f_inode (mem s) filep)) (file_dev filep s) s1 = Done ib s2" "put_block ib s2 = Done () (tty_update f (s\<lparr>mem := m\<rparr>))"
    "calm P (mem s) m" "\<forall>x \<in> P. contents m x = contents (mem s) x" "\<forall>k < 128. m (tmp + of_nat k) = mem s (inode_image filep ib s + of_nat k)"
    "kept P (bytes tmp 128) s1 (tty_update f (s\<lparr>mem := m\<rparr>))"
proof -
  have P: "pool_ok P" "ib \<in> P" and h: "held P (inode_sector (i_no (mem s) (f_inode (mem s) filep)) s) (file_dev filep s) ib s"
    using ic by (auto simp: inode_cached_def Let_def held_def cache_inv_def)
  obtain j bs' tmp s1 f m where o: "kmalloc EXT2_INODE_SIZE (tty_update g s) = Done tmp s1" and copy: "inode_copy P bs j bs' tmp s s1"
    and r: "read_inode tmp (i_no (mem s1) (f_inode (mem s) filep)) (file_dev filep s) s1 = Done ib (tty_update f (s\<lparr>mem := m\<rparr>))"
    and m: "calm P (set_count ib (h_count (head (mem s) ib) + 1) (mem s)) m" "\<forall>x \<in> P. contents m x = contents (mem s) x" 
    "\<forall>k < 128. m (tmp + of_nat k) = mem s (inode_image filep ib s + of_nat k)" "tmp \<noteq> 0"
    by (rule open_cached [OF env ic])
  note c = copy [unfolded inode_copy_def]
  define m3 where "m3 = set_count ib (h_count (head (mem s) ib)) m"
  have put: "put_block ib (tty_update f (s\<lparr>mem := m\<rparr>)) = Done () (tty_update f (s\<lparr>mem := m3\<rparr>))"
    unfolding m3_def by (rule held_put [OF h m(1)])
  note hc = held_counted [OF h m(1), folded m3_def]
  have out: "outside P tmp 128" using c by (intro outside_bytes) simp_all
  have img: "\<forall>k < 128. m3 (tmp + of_nat k) = mem s (inode_image filep ib s + of_nat k)"
    using m(3) out counted_outside [OF P(2)] unfolding m3_def outside_def by simp
  have k2: "kept P (bytes tmp 128) s1 (tty_update f (s\<lparr>mem := m\<rparr>))" using kept_read_inode [OF _ r] c by blast
  have k3: "kept P (bytes tmp 128) s1 (tty_update f (s\<lparr>mem := m3\<rparr>))"
    by (rule kept_trans [OF k2 kept_put [OF kept_first(2) [OF k2] P(2) put]])
  have "\<forall>x \<in> P. contents m3 x = contents (mem s) x" using m(2) contents_same(1) [OF P(1) _ hc(4)] by simp
  then show thesis using that [OF o copy r put hc(3) _ img k3] by blast
qed

lemma load_bytes_only:
  assumes "only R m m'" and "bytes a (of_nat n) \<inter> R = {}" and "n < 2 ^ 32"
  shows "load_bytes m' a n = load_bytes m a n"
proof (rule load_bytes_cong)
  fix k assume "k < n"
  then have "a + of_nat k \<in> bytes a (of_nat n)" using assms(3) by (simp add: bytes_def word_less_nat_alt unat_of_nat)
  then show "m' (a + of_nat k) = m (a + of_nat k)" using assms(1,2) by (auto simp: only_def)
qed

lemma read_cached_sector:
  fixes s t3 :: "'a ext2_scheme"
  assumes env: "call_memory P bs buff (of_nat n) off s" and sc: "sector_cached P filep n pos ib b s" and geo: "geometry s"
    and copy: "inode_copy P bs j bs' tmp s s1" and t3: "t3 = tty_update f (s\<lparr>mem := m\<rparr>)" and pos: "rd32 m off = pos"
    and m: "\<forall>k < 128. m (tmp + of_nat k) = mem s (inode_image filep ib s + of_nat k)" "calm P (mem s) m" "\<forall>x \<in> P. contents m x = contents (mem s) x"
    and k3: "kept P (bytes tmp 128) s1 t3"
  obtains w t where "ext2_read_blocks (file_dev filep s) tmp off (transfer_at pos (of_nat n) buff) t3 =
      Some (Done (Inr (advance (of_nat n) (transfer_at pos (of_nat n) buff))) w)" "kfree tmp w = Done () t"
    "load_bytes (mem t) buff n = take n (drop (unat (pos mod BLOCK_SIZE)) (contents (mem s) b))"
    "rd32 (mem t) off = pos + of_nat n" "io_log t = io_log s" "heap_ok t bs" "cache_inv P t"
proof -
  define v where "v = transfer_at pos (of_nat n) buff"
  have v: "t_buff v = buff" "t_count v = of_nat n" "t_offset v = pos mod BLOCK_SIZE" "t_i v = pos div BLOCK_SIZE" "t_moved v = 0"
    by (simp_all add: v_def transfer_at_def)
  note one = cached_one_sector [OF env sc geo copy t3 m(1), folded v_def v(4)]
  have "held P (ADDR_OF_BLOCK (ei_direct_block (mem t3) tmp (t_i v)) t3) (file_dev filep s) b t3"
    unfolding one(2) using held_calm [OF _ m(2)] sc by (simp add: t3 sector_cached_def Let_def v(4))
  note one = one(1) this
  obtain f' m' where w: "ext2_read_blocks (file_dev filep s) tmp off v t3 = Some (Done (Inr (advance (of_nat n) v)) (tty_update f' (t3\<lparr>mem := m'\<rparr>)))"
    "load_bytes m' (t_buff v) n = take n (drop (unat (t_offset v)) (contents (mem t3) b))"
    by (rule read_blocks_held [OF one])
  define w' where "w' = tty_update f' (t3\<lparr>mem := m'\<rparr>)"
  have "transfer_apart P off v" using env by (auto simp: transfer_apart_def v call_memory_def)
  then have kw: "kept P (transfer_area off v) t3 w'" "progress off v (mem t3) (advance (of_nat n) v) (mem w')"
    using kept_read_blocks [OF w(1) kept_first(2) [OF k3]] by (auto simp: w'_def)
  have k: "kept P (bytes tmp 128 \<union> bytes buff (of_nat n) \<union> bytes off 4) s1 w'"
    by (rule kept_trans [OF kept_mono [OF k3] kept_mono [OF kw(1)]]) (auto simp: transfer_area_def v)
  obtain t where t: "kfree tmp w' = Done () t" "heap_ok t bs" "cache_inv P t" "rd32 (mem t) off = rd32 (mem w') off"
    "only (heap_own s bs) (mem w') (mem t)" "\<exists>m. t = w'\<lparr>mem := m\<rparr>"
    by (rule free_inode_copy [OF env copy k])
  have n: "n < 2 ^ 32" and b: "b \<in> P" using sc by (auto simp: sector_cached_def Let_def held_def)
  have "load_bytes (mem t) buff n = load_bytes m' buff n"
    using load_bytes_only [OF t(5) _ n, of buff] env by (auto simp: call_memory_def w'_def)
  moreover have "rd32 (mem t) off = pos + of_nat n"
    using progress_start(1) [OF kw(2) v(5)] t(4) pos by (simp add: t3 advance_def v)
  moreover have "io_log t = io_log s" using t(6) by (auto simp: w'_def t3)
  ultimately show thesis using that w t(1-3) m(3) b unfolding w'_def v_def [symmetric] by (simp add: v t3)
qed

lemma read_cached_file:
  fixes s :: "'a ext2_scheme"
  assumes env: "call_memory P bs buff (of_nat n) off s" and ic: "inode_cached P bs filep ib s"
    and sc: "sector_cached P filep n (rd32 (mem s) off) ib b s"
  shows "\<exists>t. ext2_read filep buff (of_nat n) off s = Done (of_nat n) t \<and>
    load_bytes (mem t) buff n = take n (drop (unat (rd32 (mem s) off mod BLOCK_SIZE)) (contents (mem s) b)) \<and>
    rd32 (mem t) off = rd32 (mem s) off + of_nat n \<and> io_log t = io_log s \<and> heap_ok t bs \<and> cache_inv P t"
proof -
  define pos where "pos = rd32 (mem s) off"
  obtain j bs' tmp s1 s2 f m where o: "kmalloc EXT2_INODE_SIZE (tty_update (terminal_writestring ''in ext2_read'') s) = Done tmp s1"
    and copy: "inode_copy P bs j bs' tmp s s1"
    and r: "read_inode tmp (i_no (mem s1) (f_inode (mem s) filep)) (file_dev filep s) s1 = Done ib s2"
    and put: "put_block ib s2 = Done () (tty_update f (s\<lparr>mem := m\<rparr>))"
    and m: "calm P (mem s) m" "\<forall>x \<in> P. contents m x = contents (mem s) x" "\<forall>k < 128. m (tmp + of_nat k) = mem s (inode_image filep ib s + of_nat k)"
    and k3: "kept P (bytes tmp 128) s1 (tty_update f (s\<lparr>mem := m\<rparr>))"
    by (rule open_cached_read [OF env ic])
  have reg: "ucast (ei_type_permissions (mem (tty_update f (s\<lparr>mem := m\<rparr>))) tmp) AND TYPE_REG_FILE \<noteq> 0"
    using sc inode_shift(2) [OF m(3)] by (simp add: sector_cached_def regular_def)
  have pos3: "rd32 m off = pos" using inode_copy_position [OF env copy k3] by (simp add: pos_def)
  have guards: "rd32 (mem s) off + of_nat n < i_size (mem s) (f_inode (mem s) filep)" "\<not> not_a_file (i_flags (mem s) (f_inode (mem s) filep))"
    and geo: "geometry s"
    using ic sc by (simp_all add: inode_cached_def sector_cached_def Let_def)
  obtain g where g: "ext2_read filep buff (of_nat n) off s =
    (case ext2_read_blocks (file_dev filep s) tmp off (transfer_at pos (of_nat n) buff) (tty_update (g \<circ> f) (s\<lparr>mem := m\<rparr>)) of
       None \<Rightarrow> Diverged
     | Some r \<Rightarrow> obind r (\<lambda>x s. case x of Inl ret \<Rightarrow> Done ret s | Inr v \<Rightarrow> obind (kfree tmp s) (\<lambda>_ s. Done (t_moved v) s)))"
    using ext2_read_opens [OF guards o r put reg, of buff] by (auto simp: pos3)
  have "kept P (bytes tmp 128) s1 (tty_update (g \<circ> f) (s\<lparr>mem := m\<rparr>))" using k3 by (simp add: kept_def)
  from read_cached_sector [OF env sc [folded pos_def] geo copy refl pos3 m(3,1,2) this]
  show ?thesis unfolding g pos_def [symmetric] by (fastforce simp: advance_def transfer_at_def)
qed

section \<open>Writing a sector the cache holds\<close>

lemma held_other:
  assumes h: "held P block dev b s" and c: "c \<in> P" "c \<noteq> b"
  shows "held P block dev b (s\<lparr>mem := set_count c v (mem s)\<rparr>)"
proof -
  have P: "pool_ok P" "links_ok P (mem s)" "buff_head s (ucast block) \<in> insert 0 P" "b \<in> P" using h by (auto simp: held_def cache_inv_def)
  note hs = head_set(4) [OF P(1) c(1)]
  have lab: "\<forall>x \<in> P. label (set_count c v (mem s)) x = label (mem s) x" by (simp add: label_def hs)
  have "find_buffer (set_count c v (mem s)) block dev (buff_head s (ucast block)) = Some b"
    using h by (intro find_buffer_cong [OF _ P(2,3) lab]) (simp add: held_def)
  moreover have "head (set_count c v (mem s)) b = head (mem s) b" using c(2) hs [OF P(4)] by simp
  ultimately show ?thesis
    using h links_ok_set(8) [OF P(1) c(1) P(2), of v] by (simp add: held_def cache_inv_def)
qed

lemma buffers_disjoint:
  assumes "pool_ok P" "b \<in> P" "c \<in> P" "c \<noteq> b" "k < 512" "off + n \<le> 512"
  shows "of_nat n \<le> bh_buff c + of_nat k - (of_nat off + bh_buff b)"
proof (rule outside_buffer [OF _ assms(6)])
  have "32 + (of_nat k :: u32) < 544" using in_buffer [of 0 k] assms(5) by simp
  then have "544 \<le> c + (32 + of_nat k) - b" using assms(1-4) by (intro apart_offset) (auto simp: pool_ok_def)
  then show "544 \<le> bh_buff c + of_nat k - b" by (simp add: bh_buff_def add.assoc)
qed

lemma held_write_round:
  fixes s :: "'a ext2_scheme"
  assumes h: "held P block dev b s" and n: "off' + n \<le> 512" and out: "outside P src n" "outside P off 4" and sep: "\<forall>k < n. 4 \<le> src + of_nat k - off"
    and m0_def: "m0 = set_count b (h_count (head (mem s) b) + 1) (mem s)"
    and w_def: "w = copy_in n src (of_nat off' + bh_buff b) ((tty_update g s)\<lparr>mem := wr32 m0 off (rd32 m0 off + of_nat n)\<rparr>)"
  obtains f m where "put_block b (w\<lparr>mem := set_dirty b 1 (mem w)\<rparr>) = Done () (tty_update f (s\<lparr>mem := m\<rparr>))" "calm P (mem s) m"
    "take n (drop off' (contents m b)) = load_bytes (mem s) src n" "\<forall>x \<in> P - {b}. contents m x = contents (mem s) x"
    "\<forall>x. (\<forall>c \<in> P. 544 \<le> x - c) \<and> 4 \<le> x - off \<longrightarrow> m x = mem s x"
proof -
  define c where "c = h_count (head (mem s) b)"
  have P: "pool_ok P" "b \<in> P" and n': "n < 2 ^ 32" using h n by (auto simp: held_def cache_inv_def)
  define m1 m2 where "m1 = wr32 m0 off (rd32 m0 off + of_nat n)" and "m2 = memcpy_loop m1 (of_nat off' + bh_buff b) src (of_nat n)"
  define m3 m4 where "m3 = set_dirty b 1 m2" and "m4 = set_count b c m3"
  note ci = copy_in_eq [OF P(1) out(1) P(2) n, of _ m1, folded m2_def]
  have ps1: "pool_same P m0 m1" unfolding m1_def by (rule pool_same_wr32 [OF out(2)])
  have "calm P m1 m2" using ci(1) by (simp add: calm_def)
  then have c3: "calm P m0 m3" unfolding m3_def using calm_same [OF ps1] calm_dirty [OF P] by (blast intro: calm_trans)
  obtain f where f: "w = tty_update f (s\<lparr>mem := m2\<rparr>)"
    using copy_in_memcpy [OF n', of src "of_nat off' + bh_buff b" "(tty_update g s)\<lparr>mem := m1\<rparr>"]
    by (auto simp: w_def m1_def m2_def intro: that [of "_ \<circ> g"])
  have put: "put_block b (w\<lparr>mem := set_dirty b 1 (mem w)\<rparr>) = Done () (tty_update f (s\<lparr>mem := m4\<rparr>))"
  proof -
    have "w\<lparr>mem := set_dirty b 1 (mem w)\<rparr> = tty_update f (s\<lparr>mem := m3\<rparr>)" by (simp add: f m3_def)
    then show ?thesis using held_put [OF h c3 [unfolded m0_def], of f] by (simp only: m4_def c_def)
  qed
  have calm4: "calm P (mem s) m4" unfolding m4_def c_def using held_counted(3) [OF h c3 [unfolded m0_def]] .
  have h34: "heads_only P m2 m4" "heads_only P (mem s) m0"
    unfolding m4_def m3_def m0_def using heads_only_trans heads_only_set(2,4) [OF P(2)] by blast+
  have frame: "m4 x = mem s x" if x: "\<forall>c \<in> P. 544 \<le> x - c" "4 \<le> x - off" for x
  proof -
    have "m4 x = m2 x" "m0 x = mem s x" using heads_only_pool [OF h34(1)] heads_only_pool [OF h34(2)] x(1) by (simp_all add: pool_only_def)
    moreover have "m2 x = m1 x" unfolding m2_def using x(1) P(2) n by (intro memcpy_loop_frame outside_buffer) auto
    ultimately show ?thesis using x(2) by (simp add: m1_def wr32_other)
  qed
  have "contents m4 x = contents (mem s) x" if x: "x \<in> P - {b}" for x
  proof -
    have "contents m2 x = contents m1 x"
      unfolding contents_def m2_def using x P n by (intro load_bytes_cong memcpy_loop_frame buffers_disjoint [of P]) auto
    then show ?thesis
      using contents_same(1) [OF P(1) _ h34(1)] contents_same(1) [OF P(1) _ h34(2)] contents_same(2) [OF P(1) _ ps1] x by simp
  qed
  moreover have "m4 (bh_buff b + of_nat (off' + k)) = mem s (src + of_nat k)" if k: "k < n" for k
  proof -
    have "m4 (bh_buff b + of_nat (off' + k)) = m2 (bh_buff b + of_nat (off' + k))"
      by (rule heads_only_data [OF h34(1) P]) (use k n in simp)
    also have "\<dots> = m1 (src + of_nat k)" by (rule ci(2) [OF k])
    also have "\<dots> = m0 (src + of_nat k)" using sep k by (simp add: m1_def wr32_other)
    also have "\<dots> = mem s (src + of_nat k)" unfolding m0_def using out(1) k by (intro counted_outside [OF P(2)]) (simp add: outside_def)
    finally show ?thesis .
  qed
  then have "take n (drop off' (contents m4 b)) = load_bytes (mem s) src n"
    using n by (intro nth_equalityI) (simp_all add: load_bytes_nth contents_def)
  ultimately show thesis using that put calm4 frame by blast
qed

lemma write_blocks_held:
  fixes s :: "'a ext2_scheme"
  assumes one: "one_sector P tmp off n v s" and h: "held P (ADDR_OF_BLOCK (ei_direct_block (mem s) tmp (t_i v)) s) dev b s"
    and sep: "\<forall>k < n. 4 \<le> t_buff v + of_nat k - off" and last: "t_i v < 11"
  obtains f m where "ext2_write_blocks dev tmp off v s = Some (Done (advance (of_nat n) v) (tty_update f (s\<lparr>mem := m\<rparr>)))" "calm P (mem s) m"
    "take n (drop (unat (t_offset v)) (contents m b)) = load_bytes (mem s) (t_buff v) n" "\<forall>x \<in> P - {b}. contents m x = contents (mem s) x"
proof -
  note o = one_sector_simps [OF one]
  have b: "b \<noteq> 0" using h by (auto simp: held_def cache_inv_def pool_ok_def)
  define block where "block = ADDR_OF_BLOCK (ei_direct_block (mem s) tmp (t_i v)) s"
  define m0 where "m0 = set_count b (h_count (head (mem s) b) + 1) (mem s)"
  define w where "w = copy_in n (t_buff v) (of_nat (unat (t_offset v)) + bh_buff b)
      ((tty_update (terminal_printhex32 block) s)\<lparr>mem := wr32 m0 off (rd32 m0 off + of_nat n)\<rparr>)"
  obtain f m where m: "put_block b (w\<lparr>mem := set_dirty b 1 (mem w)\<rparr>) = Done () (tty_update f (s\<lparr>mem := m\<rparr>))" "calm P (mem s) m"
    "take n (drop (unat (t_offset v)) (contents m b)) = load_bytes (mem s) (t_buff v) n" "\<forall>x \<in> P - {b}. contents m x = contents (mem s) x"
    "\<forall>x. (\<forall>c \<in> P. 544 \<le> x - c) \<and> 4 \<le> x - off \<longrightarrow> m x = mem s x"
    by (rule held_write_round [OF h o(4,8,9) sep m0_def w_def])
  define t where "t = tty_update f (s\<lparr>mem := m\<rparr>)"
  have g: "get_block (ADDR_OF_BLOCK (ei_direct_block (mem s) tmp (t_i v)) s) dev s =
      Done b ((tty_update (terminal_printhex32 block) s)\<lparr>mem := m0\<rparr>)"
    using held_get [OF h] by (simp add: m0_def block_def)
  have "ext2_write_sectors (unat (block_size s div BLOCK_SIZE)) 0 dev tmp off v s = Done (Inr (advance (of_nat n) v)) t"
    using m(1) b unfolding write_one_sector [OF o(1,2,5,7)] g t_def w_def by (simp add: Let_def)
  moreover have "\<forall>k < 128. mem t (tmp + of_nat k) = mem s (tmp + of_nat k)" using m(5) o(10-11) by (auto simp: t_def outside_def)
  from one_sector_ends [OF one this, of "of_nat n"]
  have "\<not> t_i (advance (of_nat n) v) \<ge> 12" "ei_direct_block (mem t) tmp (t_i (advance (of_nat n) v)) = 0"
    using last by (simp_all add: advance_def word_less_nat_alt word_le_nat_alt unat_word_ariths)
  then have "ext2_write_blocks dev tmp off (advance (of_nat n) v) t = Some (Done (advance (of_nat n) v) t)"
    by (subst ext2_write_blocks.simps) simp
  ultimately have "ext2_write_blocks dev tmp off v s = Some (Done (advance (of_nat n) v) t)"
    using o(6,13) by (subst ext2_write_blocks.simps) (simp add: not_le)
  then show thesis using that m(2-4) unfolding t_def by blast
qed

lemma ext2_write_opens:
  fixes s :: "'a ext2_scheme"
  assumes "rd32 (mem s) off + count < i_size (mem s) (f_inode (mem s) filep)" "\<not> not_a_file (i_flags (mem s) (f_inode (mem s) filep))"
    and "kmalloc EXT2_INODE_SIZE (tty_update (terminal_writestring ''in ext2_write'') s) = Done tmp s1"
    and "read_inode tmp (i_no (mem s1) (f_inode (mem s) filep)) (file_dev filep s) s1 = Done b s2"
    and "ucast (ei_type_permissions (mem s2) tmp) AND TYPE_REG_FILE \<noteq> 0"
  shows "ext2_write filep buff count off s =
    (case ext2_write_blocks (file_dev filep s) tmp off (transfer_at (rd32 (mem s2) off) count buff) s2 of
       None \<Rightarrow> Diverged
     | Some r \<Rightarrow> obind r (\<lambda>v s. obind (put_block b (s\<lparr>mem := set_dirty b 1 (set_ei_size_low tmp (t_moved v) (mem s))\<rparr>)) (\<lambda>_ s.
           obind (kfree tmp s) (\<lambda>_ s. Done (t_moved v) s))))"
proof -
  have c: "\<not> i_size (mem s) (f_inode (mem s) filep) \<le> rd32 (mem s) off + count" using assms(1) by simp
  show ?thesis
    using assms(2-) c unfolding ext2_write_def Let_def
    by (simp add: strcmp_always_equal file_dev_def transfer_at_def)
qed

lemma close_cached_inode:
  fixes s :: "'a ext2_scheme"
  assumes h: "held P block dev ib s" and m: "calm P (set_count ib (h_count (head (mem s) ib) + 1) (mem s)) m" and tmp: "bytes tmp 128 \<inter> pool_bytes P = {}"
    and w: "w = tty_update f (s\<lparr>mem := m\<rparr>)"
  obtains m' where "put_block ib (w\<lparr>mem := set_dirty ib 1 (set_ei_size_low tmp v (mem w))\<rparr>) = Done () (tty_update f (s\<lparr>mem := m'\<rparr>))"
    "calm P (mem s) m'" "\<forall>x \<in> P. contents m' x = contents m x"
proof -
  have P: "pool_ok P" "ib \<in> P" using h by (auto simp: held_def cache_inv_def)
  define m1 m2 where "m1 = set_ei_size_low tmp v m" and "m2 = set_dirty ib 1 m1"
  define m3 where "m3 = set_count ib (h_count (head (mem s) ib)) m2"
  have "bytes (tmp + 4) 4 \<subseteq> bytes tmp 128" by (rule field_bytes) simp
  then have o: "only (bytes tmp 128) m m1" unfolding m1_def set_ei_size_low_def by (rule only_mono [OF only_wr32_bytes])
  note ps = only_pool_same [OF o tmp]
  have c: "calm P (set_count ib (h_count (head (mem s) ib) + 1) (mem s)) m2"
    unfolding m2_def using calm_trans [OF m calm_same [OF ps]] calm_dirty [OF P] by (blast intro: calm_trans)
  have "w\<lparr>mem := set_dirty ib 1 (set_ei_size_low tmp v (mem w))\<rparr> = tty_update f (s\<lparr>mem := m2\<rparr>)" by (simp add: w m1_def m2_def)
  then have "put_block ib (w\<lparr>mem := set_dirty ib 1 (set_ei_size_low tmp v (mem w))\<rparr>) = Done () (tty_update f (s\<lparr>mem := m3\<rparr>))"
    using held_put [OF h c, of f] by (simp only: m3_def)
  moreover have "heads_only P m1 m3" unfolding m3_def m2_def using heads_only_trans heads_only_set(2,4) [OF P(2)] by blast
  then have "\<forall>x \<in> P. contents m3 x = contents m x"
    using contents_same(1) [OF P(1), of _ m1 m3] contents_same(2) [OF P(1) _ ps] by simp
  ultimately show thesis using that held_counted(3) [OF h c, folded m3_def] by blast
qed

lemma open_cached_write:
  fixes s :: "'a ext2_scheme"
  assumes env: "call_memory P bs buff (of_nat n) off s" and ic: "inode_cached P bs filep ib s"
    and sc: "sector_cached P filep n pos ib b s" and ne: "ib \<noteq> b" and pos: "pos = rd32 (mem s) off"
  obtains j bs' tmp s1 s2 f m where "inode_copy P bs j bs' tmp s s1" "s2 = tty_update f (s\<lparr>mem := m\<rparr>)"
    "calm P (set_count ib (h_count (head (mem s) ib) + 1) (mem s)) m" "\<forall>x \<in> P. contents m x = contents (mem s) x"
    "kept P (bytes tmp 128) s1 s2" "one_sector P tmp off n (transfer_at pos (of_nat n) buff) s2"
    "held P (ADDR_OF_BLOCK (ei_direct_block (mem s2) tmp (pos div BLOCK_SIZE)) s2) (file_dev filep s) b s2"
    "ext2_write filep buff (of_nat n) off s =
    (case ext2_write_blocks (file_dev filep s) tmp off (transfer_at pos (of_nat n) buff) s2 of
       None \<Rightarrow> Diverged
     | Some r \<Rightarrow> obind r (\<lambda>v s. obind (put_block ib (s\<lparr>mem := set_dirty ib 1 (set_ei_size_low tmp (t_moved v) (mem s))\<rparr>)) (\<lambda>_ s.
           obind (kfree tmp s) (\<lambda>_ s. Done (t_moved v) s))))" "load_bytes m buff n = load_bytes (mem s) buff n"
proof -
  have P: "pool_ok P" "ib \<in> P" and geo: "geometry s"
    and h: "held P (inode_sector (i_no (mem s) (f_inode (mem s) filep)) s) (file_dev filep s) ib s"
    using ic by (auto simp: inode_cached_def Let_def held_def cache_inv_def)
  define m0 where "m0 = set_count ib (h_count (head (mem s) ib) + 1) (mem s)"
  obtain j bs' tmp s1 f m where o: "kmalloc EXT2_INODE_SIZE (tty_update (terminal_writestring ''in ext2_write'') s) = Done tmp s1"
    and copy: "inode_copy P bs j bs' tmp s s1"
    and r: "read_inode tmp (i_no (mem s1) (f_inode (mem s) filep)) (file_dev filep s) s1 = Done ib (tty_update f (s\<lparr>mem := m\<rparr>))"
    and m: "calm P m0 m" "\<forall>x \<in> P. contents m x = contents (mem s) x" 
    "\<forall>k < 128. m (tmp + of_nat k) = mem s (inode_image filep ib s + of_nat k)" "tmp \<noteq> 0"
    unfolding m0_def by (rule open_cached [OF env ic])
  note c = copy [unfolded inode_copy_def]
  define s2 where "s2 = tty_update f (s\<lparr>mem := m\<rparr>)"
  note one = cached_one_sector [OF env sc geo copy s2_def m(3)]
  have "held P (ADDR_OF_BLOCK (ei_direct_block (mem s) (inode_image filep ib s) (pos div BLOCK_SIZE)) s) (file_dev filep s) b s"
    using sc by (simp add: sector_cached_def Let_def)
  from held_calm [OF held_other [OF this P(2) ne], of _ m] m(1)
  have hb: "held P (ADDR_OF_BLOCK (ei_direct_block (mem s2) tmp (pos div BLOCK_SIZE)) s2) (file_dev filep s) b s2"
    unfolding one(2) by (simp add: s2_def m0_def)
  have k2: "kept P (bytes tmp 128) s1 s2" using kept_read_inode [OF _ r] c by (simp add: s2_def)
  have pos2: "rd32 (mem s2) off = pos" using inode_copy_position [OF env copy k2] pos by simp
  have reg: "ucast (ei_type_permissions (mem s2) tmp) AND TYPE_REG_FILE \<noteq> 0"
    using sc inode_shift(2) [OF m(3)] by (simp add: s2_def sector_cached_def regular_def)
  have guards: "rd32 (mem s) off + of_nat n < i_size (mem s) (f_inode (mem s) filep)" "\<not> not_a_file (i_flags (mem s) (f_inode (mem s) filep))"
    and n: "n < 2 ^ 32" using ic sc pos by (auto simp: inode_cached_def sector_cached_def Let_def)
  have "only (pool_bytes P \<union> heap_own s bs \<union> bytes buff 0 \<union> bytes off 4) (mem s) (mem s2)"
    using env by (intro inode_copy_frame(2) [OF _ copy kept_mono [OF k2]]) (auto simp: call_memory_def bytes_def)
  then have "load_bytes m buff n = load_bytes (mem s) buff n"
    using env by (intro load_bytes_only [OF _ _ n]) (auto simp: call_memory_def s2_def bytes_def)
  then show thesis
    using that [OF copy s2_def m(1) [unfolded m0_def] m(2) k2 one(1) hb] ext2_write_opens [OF guards o r [folded s2_def] reg, of buff] unfolding pos2 by blast
qed

lemma write_cached_sector:
  fixes s s2 :: "'a ext2_scheme"
  assumes env: "call_memory P bs buff (of_nat n) off s" and sc: "sector_cached P filep n pos ib b s" and last: "pos div BLOCK_SIZE < 11"
    and inv: "cache_inv P s2" and one: "one_sector P tmp off n (transfer_at pos (of_nat n) buff) s2"
    and hb: "held P (ADDR_OF_BLOCK (ei_direct_block (mem s2) tmp (pos div BLOCK_SIZE)) s2) dev b s2"
  obtains f m where "ext2_write_blocks dev tmp off (transfer_at pos (of_nat n) buff) s2 =
      Some (Done (advance (of_nat n) (transfer_at pos (of_nat n) buff)) (tty_update f (s2\<lparr>mem := m\<rparr>)))" "calm P (mem s2) m"
    "take n (drop (unat (pos mod BLOCK_SIZE)) (contents m b)) = load_bytes (mem s2) buff n" "\<forall>x \<in> P - {b}. contents m x = contents (mem s2) x"
    "kept P (bytes off 4) s2 (tty_update f (s2\<lparr>mem := m\<rparr>))"
proof -
  define v where "v = transfer_at pos (of_nat n) buff"
  have v: "t_buff v = buff" "t_count v = of_nat n" "t_offset v = pos mod BLOCK_SIZE" "t_i v = pos div BLOCK_SIZE"
    by (simp_all add: v_def transfer_at_def)
  have sep: "\<forall>k < n. 4 \<le> t_buff v + of_nat k - off"
    using env sc by (auto simp: call_memory_def v sector_cached_def intro!: bytes_far [of buff n])
  obtain f m where m: "ext2_write_blocks dev tmp off v s2 = Some (Done (advance (of_nat n) v) (tty_update f (s2\<lparr>mem := m\<rparr>)))" "calm P (mem s2) m"
    "take n (drop (unat (t_offset v)) (contents m b)) = load_bytes (mem s2) (t_buff v) n" "\<forall>x \<in> P - {b}. contents m x = contents (mem s2) x"
    by (rule write_blocks_held [OF one [folded v_def] hb [folded v(4)] sep]) (use last in \<open>simp add: v\<close>)
  have ins: "in_sector v" and ap: "transfer_apart P off v" using env sc
    by (auto simp: in_sector_def transfer_apart_def round_chars_def v call_memory_def sector_cached_def BLOCK_SIZE_def word_less_nat_alt unat_of_nat)
  have "kept P (bytes off 4) s2 (tty_update f (s2\<lparr>mem := m\<rparr>))" using kept_write_blocks [OF m(1) inv ap ins] by blast
  then show thesis using that [of f m] m unfolding v_def [symmetric] by (simp add: v)
qed

text \<open>Everything about the state after a write that a later call depends on.\<close>

lemma write_cached_file:
  fixes s :: "'a ext2_scheme"
  assumes env: "call_memory P bs buff (of_nat n) off s" and ic: "inode_cached P bs filep ib s"
    and sc: "sector_cached P filep n (rd32 (mem s) off) ib b s" and ne: "ib \<noteq> b" and last: "rd32 (mem s) off div BLOCK_SIZE < 11"
  obtains f m where "ext2_write filep buff (of_nat n) off s = Done (of_nat n) (tty_update f (s\<lparr>mem := m\<rparr>))" "calm P (mem s) m" "heap_ok (s\<lparr>mem := m\<rparr>) bs"
    "take n (drop (unat (rd32 (mem s) off mod BLOCK_SIZE)) (contents m b)) = load_bytes (mem s) buff n" "\<forall>x \<in> P - {b}. contents m x = contents (mem s) x"
    "only (pool_bytes P \<union> heap_own s bs \<union> bytes off 4) (mem s) m"
proof -
  define pos where "pos = rd32 (mem s) off"
  have P: "ib \<in> P" "b \<in> P" and h: "held P (inode_sector (i_no (mem s) (f_inode (mem s) filep)) s) (file_dev filep s) ib s"
    using ic sc by (auto simp: inode_cached_def sector_cached_def Let_def held_def)
  obtain j bs' tmp s1 s2 f m where copy: "inode_copy P bs j bs' tmp s s1" and s2: "s2 = tty_update f (s\<lparr>mem := m\<rparr>)"
    and m: "calm P (set_count ib (h_count (head (mem s) ib) + 1) (mem s)) m" "\<forall>x \<in> P. contents m x = contents (mem s) x"
    and k2: "kept P (bytes tmp 128) s1 s2" and one: "one_sector P tmp off n (transfer_at pos (of_nat n) buff) s2"
    and hb: "held P (ADDR_OF_BLOCK (ei_direct_block (mem s2) tmp (pos div BLOCK_SIZE)) s2) (file_dev filep s) b s2"
    and run: "ext2_write filep buff (of_nat n) off s = (case ext2_write_blocks (file_dev filep s) tmp off (transfer_at pos (of_nat n) buff) s2 of
       None \<Rightarrow> Diverged
     | Some r \<Rightarrow> obind r (\<lambda>v s. obind (put_block ib (s\<lparr>mem := set_dirty ib 1 (set_ei_size_low tmp (t_moved v) (mem s))\<rparr>)) (\<lambda>_ s.
           obind (kfree tmp s) (\<lambda>_ s. Done (t_moved v) s))))" and src: "load_bytes m buff n = load_bytes (mem s) buff n"
    by (rule open_cached_write [OF env ic sc [folded pos_def] ne pos_def])
  define v where "v = advance (of_nat n) (transfer_at pos (of_nat n) buff)"
  have moved: "t_moved v = of_nat n" by (simp add: v_def advance_def transfer_at_def)
  obtain f' m' where b: "ext2_write_blocks (file_dev filep s) tmp off (transfer_at pos (of_nat n) buff) s2 = Some (Done v (tty_update f' (s2\<lparr>mem := m'\<rparr>)))"
    "calm P (mem s2) m'" "take n (drop (unat (pos mod BLOCK_SIZE)) (contents m' b)) = load_bytes (mem s2) buff n"
    "\<forall>x \<in> P - {b}. contents m' x = contents (mem s2) x" and kw: "kept P (bytes off 4) s2 (tty_update f' (s2\<lparr>mem := m'\<rparr>))"
    unfolding v_def by (rule write_cached_sector [OF env sc [folded pos_def] last [folded pos_def] kept_first(2) [OF k2] one hb])
  define w where "w = tty_update (f' \<circ> f) (s\<lparr>mem := m'\<rparr>)"
  have w: "tty_update f' (s2\<lparr>mem := m'\<rparr>) = w" by (simp add: s2 w_def)
  have cm: "calm P (set_count ib (h_count (head (mem s) ib) + 1) (mem s)) m'" using calm_trans [OF m(1)] b(2) by (simp add: s2)
  have tmp: "bytes tmp 128 \<inter> pool_bytes P = {}" "bytes off 4 \<inter> bytes tmp 128 = {}" "bytes off 4 \<inter> pool_bytes P = {}"
    using env copy by (auto simp: call_memory_def inode_copy_def)
  obtain m4 where z: "put_block ib (w\<lparr>mem := set_dirty ib 1 (set_ei_size_low tmp (t_moved v) (mem w))\<rparr>) = Done () (tty_update (f' \<circ> f) (s\<lparr>mem := m4\<rparr>))"
    "calm P (mem s) m4" "\<forall>x \<in> P. contents m4 x = contents m' x"
    by (rule close_cached_inode [OF h cm tmp(1) w_def])
  have kz: "kept P (bytes tmp 128) w (tty_update (f' \<circ> f) (s\<lparr>mem := m4\<rparr>))"
    by (rule kept_close_inode(1) [OF kept_first(2) [OF kw [unfolded w]] P(1) tmp z(1)])
  have env0: "call_memory P bs buff 0 off s" using env by (auto simp: call_memory_def bytes_def)
  have k: "kept P (bytes tmp 128 \<union> bytes buff 0 \<union> bytes off 4) s1 (tty_update (f' \<circ> f) (s\<lparr>mem := m4\<rparr>))"
    by (rule kept_trans [OF kept_trans [OF kept_mono [OF k2] kept_mono [OF kw [unfolded w]]] kept_mono [OF kz]]) auto
  obtain t where t: "kfree tmp (tty_update (f' \<circ> f) (s\<lparr>mem := m4\<rparr>)) = Done () t" "heap_ok t bs" 
    "only (pool_bytes P \<union> heap_own s bs \<union> bytes buff 0 \<union> bytes off 4) (mem s) (mem t)"
    "only (heap_own s bs) m4 (mem t)" "\<exists>m. t = (tty_update (f' \<circ> f) (s\<lparr>mem := m4\<rparr>))\<lparr>mem := m\<rparr>"
    by (rule free_inode_copy [OF env0 copy k]) simp
  have hp: "heap_own s bs \<inter> pool_bytes P = {}" using env by (auto simp: call_memory_def)
  have te: "t = tty_update (f' \<circ> f) (s\<lparr>mem := mem t\<rparr>)" using t(5) by auto
  have ct: "contents (mem t) x = contents m' x" if "x \<in> P" for x
    using pool_only_calm_contents [OF t(4) hp that] z(3) that by simp
  have "ext2_write filep buff (of_nat n) off s = Done (of_nat n) t" using z(1) by (simp add: run b(1) w t(1) moved)
  moreover have "calm P (mem s) (mem t)" using calm_trans [OF z(2) calm_only [OF t(4) hp]] .
  moreover have "heap_ok (s\<lparr>mem := mem t\<rparr>) bs" using t(2) te by (metis heap_own_tty(2))
  moreover have "take n (drop (unat (pos mod BLOCK_SIZE)) (contents (mem t) b)) = load_bytes (mem s) buff n"
    using b(3) ct [OF P(2)] src by (simp add: s2)
  moreover have "\<forall>x \<in> P - {b}. contents (mem t) x = contents (mem s) x" using b(4) ct m(2) by (simp add: s2)
  moreover have "only (pool_bytes P \<union> heap_own s bs \<union> bytes off 4) (mem s) (mem t)" using t(3) by (simp add: bytes_def)
  ultimately show thesis using that [of "f' \<circ> f" "mem t"] te unfolding pos_def by metis
qed

section \<open>A write followed by a read\<close>

lemma contents_byte: "contents m x = contents m' x \<Longrightarrow> k < 512 \<Longrightarrow> m (bh_buff x + of_nat k) = m' (bh_buff x + of_nat k)"
  by (metis contents_def length_load_bytes load_bytes_nth)

text \<open>The structures of the open file are apart from what a write changes, and the block group descriptor of its inode is in another
  buffer than the file's sector.\<close>

definition file_apart :: "u32 set \<Rightarrow> blocks \<Rightarrow> u32 \<Rightarrow> u32 \<Rightarrow> u32 \<Rightarrow> 'a ext2_scheme \<Rightarrow> bool" where
  "file_apart P bs filep off b s \<longleftrightarrow>
     (let inode = f_inode (mem s) filep; ino = i_no (mem s) inode
      in (bytes filep 4 \<union> bytes inode 32) \<inter> (pool_bytes P \<union> heap_own s bs \<union> bytes off 4) = {} \<and>
         (\<exists>c \<in> P - {b}. \<exists>k. k + 4 \<le> 512 \<and> bgdt_entries s + 32 * BG_OF_INODE ino s + 8 = bh_buff c + of_nat k))"

lemma cached_after_write:
  fixes s t :: "'a ext2_scheme"
  assumes ic: "inode_cached P bs filep ib s" and sc: "sector_cached P filep n pos ib b s" and ne: "ib \<noteq> b" and fa: "file_apart P bs filep off b s"
    and t: "t = tty_update f (s\<lparr>mem := m\<rparr>)" and m: "calm P (mem s) m" "\<forall>x \<in> P - {b}. contents m x = contents (mem s) x"
    "only (pool_bytes P \<union> heap_own s bs \<union> bytes off 4) (mem s) m"
  shows "inode_cached P bs filep ib t" "sector_cached P filep n pos ib b t"
proof -
  define inode where "inode = f_inode (mem s) filep"
  define ino where "ino = i_no (mem s) inode"
  note fa' = fa [unfolded file_apart_def Let_def, folded inode_def, folded ino_def]
    and ic' = ic [unfolded inode_cached_def Let_def, folded inode_def, folded ino_def] and sc' = sc [unfolded sector_cached_def Let_def, folded inode_def]
  have "f_inode m filep = inode" unfolding inode_def f_inode_def using fa' by (intro only_rd32 [OF m(3)]) blast
  moreover have "rd32 m (inode + k) = rd32 (mem s) (inode + k)" if "unat k + 4 \<le> 32" for k
    using fa' field_bytes [of k 32 inode] that by (intro only_rd32 [OF m(3)]) auto
  note this [of 4] this [of 8] this [of 28] this [of 0]
  ultimately have f: "f_inode (mem t) filep = inode" "i_no m inode = ino" "i_size m inode = i_size (mem s) inode"
    "i_flags m inode = i_flags (mem s) inode" "i_dev m inode = i_dev (mem s) inode"
    by (simp_all add: t ino_def i_no_def i_size_def i_flags_def i_dev_def)
  have geo: "geometry s" "geometry t" and ib: "ib \<in> P - {b}" using ic' ne by (auto simp: t geometry_def held_def)
  have dev: "file_dev filep t = file_dev filep s" using f by (simp add: t file_dev_def inode_def)
  have im: "inode_image filep ib t = inode_image filep ib s" using f by (simp add: t inode_image_def inode_def ino_def)
  have off: "unat (INODE_OFFSET ino s) + 128 \<le> 512" using inode_offset_bound [of s ino] geo(1) by (simp add: geometry_def)
  have "m (inode_image filep ib s + of_nat k) = mem s (inode_image filep ib s + of_nat k)" if "k < 128" for k
    using contents_byte [of m ib "mem s" "unat (INODE_OFFSET ino s) + k"] m(2) ib off that
    by (simp add: inode_image_def inode_def [symmetric] ino_def [symmetric] add.assoc)
  then have "\<forall>k < 128. m (inode_image filep ib s + of_nat k) = mem s (inode_image filep ib s + of_nat k)" by blast
  note sh = inode_shift [OF this]
  obtain c k where ck: "c \<in> P - {b}" "k + 4 \<le> 512" "bgdt_entries s + 32 * BG_OF_INODE ino s + 8 = bh_buff c + of_nat k" using fa' by blast
  have "m (bh_buff c + of_nat k + of_nat i) = mem s (bh_buff c + of_nat k + of_nat i)" if "i < 4" for i
    using contents_byte [of m c "mem s" "k + i"] m(2) ck(1,2) that by (simp add: add.assoc)
  then have "bgd_inode_table m (bgdt_entries s) (BG_OF_INODE ino s) = bgd_inode_table (mem s) (bgdt_entries s) (BG_OF_INODE ino s)"
    unfolding bgd_inode_table_def ck(3) by (intro rd32_cong4) simp
  then have sec: "inode_sector ino t = inode_sector ino s"
    by (simp add: t inode_sector_def ADDR_OF_BLOCK_def BLOCK_OF_INODE_def INODE_INDEX_def BG_OF_INODE_def Let_def)
  have hc: "held P block d x t" if "held P block d x s" for block d x using held_calm [OF that m(1)] by (simp add: t)
  have tt: "mem t = m" "bgdt_entries t = bgdt_entries s" "BG_OF_INODE ino t = BG_OF_INODE ino s" "heap_own t bs = heap_own s bs"
    "ADDR_OF_BLOCK d t = ADDR_OF_BLOCK d s" for d
    using heap_own_first [of t s] by (simp_all add: t BG_OF_INODE_def ADDR_OF_BLOCK_def)
  show "inode_cached P bs filep ib t"
    using ic' hc geo(2) unfolding inode_cached_def Let_def f(1) dev im by (simp add: tt f(2,4) sec)
  have "regular filep ib t" using sc' sh(2) im by (simp add: regular_def tt)
  then show "sector_cached P filep n pos ib b t"
    using sc' hc sh(1) [of "pos div BLOCK_SIZE"] sh(1) [OF next_direct, of "pos div BLOCK_SIZE"] unfolding sector_cached_def Let_def f(1) dev im by (cases "pos div BLOCK_SIZE = 11") (auto simp: tt f(3))
qed

text \<open>C13: What \<^verbatim>\<open>ext2_write\<close> has stored, \<^verbatim>\<open>ext2_read\<close> delivers: for a transfer of \<open>n\<close> bytes at position \<open>pos\<close> that stays inside the sector both calls take for it, the first of
  block \<^verbatim>\<open>direct_block[i]\<close> with \<open>i = pos / 512\<close>, where \<open>i < 11\<close>, entry \<open>i\<close> is not zero and entry \<open>i + 1\<close> is zero, of a regular file whose inode and sector the cache
  holds: both calls return the number of bytes, the reader's buffer receives the bytes of the writer's, no disk access happens,
  the heap has the block list it had before (the inode copies both calls allocate are released), and the pointers of the cache are in order. The caller's buffers, the
  two file positions, the structures of the open file, the heap's own bytes and the cache are apart from each other.
\<close>

theorem ext2_write_then_read:
  fixes s :: "'a ext2_scheme"
  assumes writer: "call_memory P bs buff (of_nat n) off s" and reader: "call_memory P bs buff' (of_nat n) off' s"
    and pos: "rd32 (mem s) off' = rd32 (mem s) off" "rd32 (mem s) off div BLOCK_SIZE < 11" "bytes off' 4 \<inter> bytes off 4 = {}"
    and cf: "inode_cached P bs filep ib s" "sector_cached P filep n (rd32 (mem s) off) ib b s" "ib \<noteq> b" "file_apart P bs filep off b s"
  shows "\<exists>t u. ext2_write filep buff (of_nat n) off s = Done (of_nat n) t \<and> ext2_read filep buff' (of_nat n) off' t = Done (of_nat n) u \<and>
    load_bytes (mem u) buff' n = load_bytes (mem s) buff n \<and> io_log u = io_log s \<and> heap_ok u bs \<and> cache_inv P u"
proof -
  obtain f m where m: "ext2_write filep buff (of_nat n) off s = Done (of_nat n) (tty_update f (s\<lparr>mem := m\<rparr>))" "calm P (mem s) m" "heap_ok (s\<lparr>mem := m\<rparr>) bs"
    "take n (drop (unat (rd32 (mem s) off mod BLOCK_SIZE)) (contents m b)) = load_bytes (mem s) buff n" "\<forall>x \<in> P - {b}. contents m x = contents (mem s) x"
    "only (pool_bytes P \<union> heap_own s bs \<union> bytes off 4) (mem s) m"
    by (rule write_cached_file [OF writer cf(1-3) pos(2)])
  define t where "t = tty_update f (s\<lparr>mem := m\<rparr>)"
  note cached = cached_after_write [OF cf t_def m(2,5,6)]
  have "rd32 m off' = rd32 (mem s) off" using pos(1,3) reader only_rd32 [OF m(6), of off'] by (auto simp: call_memory_def)
  then have off': "rd32 (mem t) off' = rd32 (mem s) off" by (simp add: t_def)
  have "cache_inv P t" using calm_inv [OF m(2)] writer by (simp add: t_def call_memory_def)
  moreover have "heap_own t bs = heap_own s bs" by (rule heap_own_first) (simp add: t_def)
  ultimately have "call_memory P bs buff' (of_nat n) off' t" using reader m(3) by (simp add: call_memory_def) (simp add: t_def)
  from read_cached_file [OF this cached(1), of b] cached(2) off'
  show ?thesis using m(1,4) by (auto simp: t_def)
qed

section \<open>Refused calls\<close>

lemma ext2_read_refuses:
  fixes s :: "'a ext2_scheme"
  assumes "rd32 (mem s) off + count < i_size (mem s) (f_inode (mem s) filep)" "\<not> not_a_file (i_flags (mem s) (f_inode (mem s) filep))"
    and "kmalloc EXT2_INODE_SIZE (tty_update (terminal_writestring ''in ext2_read'') s) = Done tmp s1"
    and "read_inode tmp (i_no (mem s1) (f_inode (mem s) filep)) (file_dev filep s) s1 = Done b s2" and "put_block b s2 = Done () s3"
    and "ucast (ei_type_permissions (mem s3) tmp) AND TYPE_REG_FILE = 0"
  obtains g where "ext2_read filep buff count off s = Done (- 1) (tty_update g s3)"
proof -
  obtain g where g: "print_bytes 128 tmp s3 = tty_update g s3" using print_bytes_tty by blast
  have c: "\<not> i_size (mem s) (f_inode (mem s) filep) \<le> rd32 (mem s) off + count" using assms(1) by simp
  have "ext2_read filep buff count off s = Done (- 1) (tty_update g s3)"
    using assms(2-) c unfolding ext2_read_def Let_def by (simp add: strcmp_always_equal g file_dev_def)
  then show thesis by (rule that)
qed

lemma ext2_write_refuses:
  fixes s :: "'a ext2_scheme"
  assumes "rd32 (mem s) off + count < i_size (mem s) (f_inode (mem s) filep)" "\<not> not_a_file (i_flags (mem s) (f_inode (mem s) filep))"
    and "kmalloc EXT2_INODE_SIZE (tty_update (terminal_writestring ''in ext2_write'') s) = Done tmp s1"
    and "read_inode tmp (i_no (mem s1) (f_inode (mem s) filep)) (file_dev filep s) s1 = Done b s2"
    and "ucast (ei_type_permissions (mem s2) tmp) AND TYPE_REG_FILE = 0"
  shows "ext2_write filep buff count off s = Done (- 1) s2"
proof -
  have c: "\<not> i_size (mem s) (f_inode (mem s) filep) \<le> rd32 (mem s) off + count" using assms(1) by simp
  show ?thesis using assms(2-) c unfolding ext2_write_def Let_def by (simp add: strcmp_always_equal file_dev_def)
qed

text \<open>C38: A call on something other than a regular file is refused too late: \<^verbatim>\<open>ext2_read\<close> and \<^verbatim>\<open>ext2_write\<close> return -1 after they have allocated the copy of
  the inode, and neither releases it, so each refused call takes a block of 128 bytes off the heap for good; \<^verbatim>\<open>ext2_write\<close>
  does not give the inode's buffer back either, whose use count stays one too high.
\<close>

theorem refused_call_leaks:
  fixes s :: "'a ext2_scheme"
  assumes env: "call_memory P bs buff count off s" and ic: "inode_cached P bs filep ib s" and reg: "\<not> regular filep ib s"
    and sz: "rd32 (mem s) off + count < i_size (mem s) (f_inode (mem s) filep)"
  shows "\<exists>j bs' t u. alloc_list 128 bs = Some (j, bs') \<and>
    ext2_read filep buff count off s = Done (- 1) t \<and> heap_ok t bs' \<and>
    ext2_write filep buff count off s = Done (- 1) u \<and> heap_ok u bs' \<and> bh_count (mem u) ib = bh_count (mem s) ib + 1"
proof -
  have fl: "\<not> not_a_file (i_flags (mem s) (f_inode (mem s) filep))" and P: "pool_ok P" "ib \<in> P"
    using ic by (simp_all add: inode_cached_def Let_def held_def cache_inv_def)
  have frame: "heap_ok w bs'" if "inode_copy P bs j bs' tmp s s1" "kept P (bytes tmp 128) s1 w" for tmp s1 j bs' and w :: "'a ext2_scheme"
    by (rule inode_copy_frame(1) [OF env that(1) kept_mono [OF that(2)]]) blast
  obtain j bs' tmp s1 s2 f m where r: "kmalloc EXT2_INODE_SIZE (tty_update (terminal_writestring ''in ext2_read'') s) = Done tmp s1" "inode_copy P bs j bs' tmp s s1"
    "read_inode tmp (i_no (mem s1) (f_inode (mem s) filep)) (file_dev filep s) s1 = Done ib s2" "put_block ib s2 = Done () (tty_update f (s\<lparr>mem := m\<rparr>))"
    "\<forall>k < 128. m (tmp + of_nat k) = mem s (inode_image filep ib s + of_nat k)" "kept P (bytes tmp 128) s1 (tty_update f (s\<lparr>mem := m\<rparr>))"
    by (rule open_cached_read [OF env ic])
  have "ucast (ei_type_permissions (mem (tty_update f (s\<lparr>mem := m\<rparr>))) tmp) AND TYPE_REG_FILE = 0"
    using reg inode_shift(2) [OF r(5)] by (simp add: regular_def)
  then obtain g where t: "ext2_read filep buff count off s = Done (- 1) (tty_update g (tty_update f (s\<lparr>mem := m\<rparr>)))"
    using ext2_read_refuses [OF sz fl r(1,3,4)] by blast
  obtain k bs'' tmp' s1' f' m' where w: "kmalloc EXT2_INODE_SIZE (tty_update (terminal_writestring ''in ext2_write'') s) = Done tmp' s1'" "inode_copy P bs k bs'' tmp' s s1'"
    "read_inode tmp' (i_no (mem s1') (f_inode (mem s) filep)) (file_dev filep s) s1' = Done ib (tty_update f' (s\<lparr>mem := m'\<rparr>))"
    "calm P (set_count ib (h_count (head (mem s) ib) + 1) (mem s)) m'" "\<forall>k < 128. m' (tmp' + of_nat k) = mem s (inode_image filep ib s + of_nat k)"
    by (rule open_cached [OF env ic])
  have "ucast (ei_type_permissions (mem (tty_update f' (s\<lparr>mem := m'\<rparr>))) tmp') AND TYPE_REG_FILE = 0"
    using reg inode_shift(2) [OF w(5)] by (simp add: regular_def)
  note u = ext2_write_refuses [OF sz fl w(1,3) this, of buff]
  have "kept P (bytes tmp' 128) s1' (tty_update f' (s\<lparr>mem := m'\<rparr>))"
    using kept_read_inode [OF _ w(3)] w(2) by (auto simp: inode_copy_def)
  note hu = frame [OF w(2) this] and ht = frame [OF r(2,6)]
  have bs: "bs'' = bs'" "alloc_list 128 bs = Some (j, bs')" using r(2) w(2) by (auto simp: inode_copy_def)
  have "bh_count (mem (tty_update f' (s\<lparr>mem := m'\<rparr>))) ib = bh_count (mem s) ib + 1"
    using calm_label [OF w(4) P(2)] head_set(4) [OF P P(2)] by (simp add: bh_head)
  then show ?thesis using t u hu ht bs by fastforce
qed

section \<open>Writes past the end of a buffer\<close>

lemma in_bytes: "k < 1056 \<Longrightarrow> b + of_nat k \<in> bytes b 1056"
  by (simp add: bytes_def word_less_nat_alt unat_of_nat)

text \<open>A copy of \<open>n\<close> bytes to offset \<open>o'\<close> of a buffer that runs past its end.\<close>

lemma overrun_copy:
  assumes n: "o' < 512" "n \<le> 512" and src: "bytes src (of_nat n) \<inter> bytes b 1056 = {}"
  shows "k < o' + n - 512 \<Longrightarrow> memcpy_loop m (of_nat o' + bh_buff b) src (of_nat n) (b + 544 + of_nat k) = m (src + of_nat (512 - o' + k))"
    and "k < 32 \<Longrightarrow> memcpy_loop m (of_nat o' + bh_buff b) src (of_nat n) (b + of_nat k) = m (b + of_nat k)"
proof -
  define d where "d = of_nat o' + bh_buff b"
  have d: "d = b + of_nat (32 + o')" by (simp add: d_def bh_buff_def)
  have "d \<in> bytes b 1056" unfolding d using n by (intro in_bytes) simp
  then have "d \<notin> bytes src (of_nat n)" using src by blast
  then have "of_nat n \<le> d - src" by (simp add: bytes_def not_less)
  note e = memcpy_loop_eq [OF disjI1 [OF this], of m]
  have un: "unat (of_nat n :: u32) = n" using n by (simp add: unat_of_nat)
  show "memcpy_loop m d src (of_nat n) (b + 544 + of_nat k) = m (src + of_nat (512 - o' + k))" if k: "k < o' + n - 512"
  proof -
    have x: "b + 544 + of_nat k - d = of_nat (512 - o' + k)" unfolding d using n(1) by (simp add: of_nat_diff)
    have "(of_nat (512 - o' + k) :: u32) < of_nat n" using k n by (subst of_nat_u32_less) simp_all
    then show ?thesis by (simp add: e x)
  qed
  show "memcpy_loop m d src (of_nat n) (b + of_nat k) = m (b + of_nat k)" if k: "k < 32"
  proof -
    have "unat (b + of_nat k - d) = 2 ^ 32 + k - (32 + o')"
      using k n by (simp add: d unat_sub_if' unat_of_nat unat_word_ariths)
    then have "\<not> b + of_nat k - d < of_nat n" using n(1,2) unfolding word_less_nat_alt un by simp
    then show ?thesis by (simp add: e)
  qed
qed

text \<open>C39: A write that starts at an offset in a sector and is longer than the rest of it, up to 512 bytes, does not go on in the next sector but
  behind the buffer: the loop of \<^verbatim>\<open>ext2_write\<close> completes its round, and the bytes behind the buffer's 544, where the heap keeps the header of
  its next block, are bytes of the caller.
\<close>

theorem ext2_write_overruns_buffer:
  fixes s :: "'a ext2_scheme"
  assumes h: "held P (ADDR_OF_BLOCK (ei_direct_block (mem s) tmp (t_i v)) s) dev b s"
    and n: "t_count v = of_nat n" "n \<le> 512" "unat (t_offset v) < 512" "512 < unat (t_offset v) + n"
    and sep: "bytes (t_buff v) (of_nat n) \<inter> bytes b 1056 = {}" "bytes (t_buff v) (of_nat n) \<inter> bytes off 4 = {}" "bytes off 4 \<inter> bytes b 1056 = {}"
  shows "\<exists>t. ext2_write_sectors 1 0 dev tmp off v s = Done (Inr (advance (of_nat n) v)) t \<and>
    (\<forall>j < unat (t_offset v) + n - 512. mem t (b + 544 + of_nat j) = mem s (t_buff v + of_nat (512 - unat (t_offset v) + j)))"
proof -
  define o' where "o' = unat (t_offset v)"
  define c where "c = h_count (head (mem s) b)"
  have b: "b \<noteq> 0" "b \<in> P" "pool_ok P" and c: "0 < c" "c < 0xFFFFFFFE" using h by (auto simp: held_def cache_inv_def pool_ok_def c_def)
  define m0 m1 where "m0 = set_count b (c + 1) (mem s)" and "m1 = wr32 m0 off (rd32 m0 off + of_nat n)"
  define m2 where "m2 = memcpy_loop m1 (of_nat o' + bh_buff b) (t_buff v) (of_nat n)"
  define m3 where "m3 = set_count b c (set_dirty b 1 m2)"
  have n0: "0 < n" "n < 2 ^ 32" using n by simp_all
  note oc = overrun_copy [OF n(3,2) sep(1), of _ m1, folded o'_def, folded m2_def]
  have "m2 (b + of_nat k) = m0 (b + of_nat k)" if "k < 32" for k
  proof -
    have "b + of_nat k \<notin> bytes off 4" using sep(3) in_bytes [of k b] that by auto
    then show ?thesis using oc(2) [OF that] by (simp add: m1_def wr32_other bytes_def not_less)
  qed
  from this [of 12] this [of 13] this [of 14] this [of 15]
  have "bh_count m2 b = bh_count m0 b" by (simp add: bh_count_def rd32_def add.assoc)
  then have cnt: "bh_count (set_dirty b 1 m2) b = c + 1" by (simp add: m0_def)
  have data: "m3 (b + 544 + of_nat j) = mem s (t_buff v + of_nat (512 - o' + j))" if j: "j < o' + n - 512" for j
  proof -
    define y where "y = t_buff v + of_nat (512 - o' + j)"
    have "(of_nat (512 - o' + j) :: u32) < of_nat n" using j n(2,3) by (subst of_nat_u32_less) (simp_all add: o'_def)
    then have "y \<in> bytes (t_buff v) (of_nat n)" by (simp add: y_def bytes_def)
    then have y: "4 \<le> y - off" "1056 \<le> y - b" using sep by (auto simp: bytes_def not_less)
    have "32 \<le> 544 + (of_nat j :: u32)" using j n(2,3) by (simp add: o'_def word_le_nat_alt unat_of_nat unat_word_ariths)
    then have "m3 (b + 544 + of_nat j) = m2 (b + 544 + of_nat j)" by (simp add: m3_def bh_set_outside add.assoc)
    also have "\<dots> = m1 y" using oc(1) [OF j] by (simp add: y_def)
    also have "\<dots> = mem s y" using y order_trans [of 32 1056 "y - b"] by (simp add: m1_def wr32_other m0_def bh_set_outside)
    finally show ?thesis by (simp add: y_def)
  qed
  define x where "x = terminal_printhex32 (ADDR_OF_BLOCK (ei_direct_block (mem s) tmp (t_i v)) s)"
  obtain f where f: "copy_in n (t_buff v) (t_offset v + bh_buff b) ((tty_update x s)\<lparr>mem := m1\<rparr>) = tty_update f (s\<lparr>mem := m2\<rparr>)"
    using copy_in_memcpy [OF n0(2), of "t_buff v" "t_offset v + bh_buff b" "(tty_update x s)\<lparr>mem := m1\<rparr>"]
    by (auto simp: m2_def o'_def intro: that [of "_ \<circ> x"])
  have "1 < c + 1" using c by (simp add: word_less_nat_alt unat_word_ariths)
  then have "put_block b ((tty_update f (s\<lparr>mem := m2\<rparr>))\<lparr>mem := set_dirty b 1 m2\<rparr>) = Done () (tty_update f (s\<lparr>mem := m3\<rparr>))"
    using cnt by (simp add: put_block_def m3_def)
  then have "ext2_write_sectors 1 0 dev tmp off v s = Done (Inr (advance (of_nat n) v)) (tty_update f (s\<lparr>mem := m3\<rparr>))"
    using write_one_sector [OF n0(1) n(2,1), of 1 dev tmp off s] b(1) held_get [OF h] f
    by (simp add: Let_def m1_def m0_def c_def x_def)
  then show ?thesis using data unfolding o'_def by auto
qed

section \<open>Witnesses\<close>

text \<open>A file in sector 2 whose inode, number 5 with type \<open>ty\<close>, is at the start of sector 3, with the block group descriptors in sector 4, and an empty heap.\<close>

definition sample_call_mem :: "u8 \<Rightarrow> memory" where
  "sample_call_mem ty = sample_sb_mem
     (0xC0202028 := 1, 0xC0201021 := ty, 0xC0201048 := 1, 0xC0700002 := 0x71, 0xC0700003 := 0xC0, 0xC0710001 := 3, 0xC0710004 := 5,
      0xC0710008 := 100, 0xC0500000 := 3, 0xC0500010 := 3, 0xC0600000 := 0x68, 0xC0600001 := 0x69, 0xC011300C := 0xF0, 0xC011300D := 0xEF)"

definition sample_call :: "u8 \<Rightarrow> ext2" where
  "sample_call ty = sample_geometry\<lparr>mem := (sample_call_mem ty), first := 0xC0113000, bgdt_entries := 0xC0202020\<rparr>"

lemma sample_call_simps:
  "mem (sample_call ty) = (sample_call_mem ty)" "first (sample_call ty) = 0xC0113000" "bgdt_entries (sample_call ty) = 0xC0202020" "block_size (sample_call ty) = 0x400"
  "inodes_per_group (sample_call ty) = 16" "inode_size (sample_call ty) = 128" "inodes_per_block (sample_call ty) = 8"
  "buff_head (sample_call ty) = (\<lambda>_. 0)(2 := 0xC0200000, 3 := 0xC0201000, 4 := 0xC0202000)" "lru_buff (sample_call ty) = 0" "mru_buff (sample_call ty) = 0"
  by (simp_all add: sample_call_def sample_geometry_def sample_ext2_simps)

lemma head_upd: "32 \<le> x - b \<Longrightarrow> head (m(x := v)) b = head m b"
  by (rule head_cong) auto

lemma sample_call_head: "b \<in> sample_sb_pool \<Longrightarrow> head (sample_call_mem ty) b = head sample_sb_mem b"
  by (auto simp: sample_sb_pool_def sample_call_mem_def head_upd)

lemma sample_call_inv: "cache_inv sample_sb_pool (sample_call ty)"
  using sample_ext2_inv sample_call_head unfolding cache_inv_def links_ok_def
  by (simp add: sample_ext2_simps sample_call_simps sample_sb_pool_def)

lemma sample_call_heap: "heap_ok (sample_call ty) [(False, 0xEFF0)]" 
proof -
  have "hdr (sample_call_mem ty) 0xC0113000 False 0 0 0xEFF0"
    by (simp add: hdr_def) (simp add: header_defs byte_defs sample_call_mem_def sample_sb_mem_def)
  then show ?thesis by (simp add: heap_ok_def heap_rep_def sample_call_simps)
qed

lemma sample_call_own: "heap_own (sample_call ty) [(False, 0xEFF0)] \<subseteq> bytes 0xC0113000 0xF000"
  by (auto simp: heap_own_def bytes_def sample_call_simps word_less_nat_alt unat_sub_if')

lemma sample_pool_bytes: "pool_bytes sample_sb_pool = bytes 0xC0200000 544 \<union> bytes 0xC0201000 544 \<union> bytes 0xC0202000 544"
  by (auto simp: pool_bytes_def sample_sb_pool_def)

lemma sample_call_outside:
  assumes "0xC0300000 \<le> unat a" and "unat a + unat n \<le> 2 ^ 32"
  shows "bytes a n \<inter> (pool_bytes sample_sb_pool \<union> heap_own (sample_call ty) [(False, 0xEFF0)]) = {}"
proof -
  have "bytes b k \<inter> bytes a n = {}" if "unat b + unat k \<le> 0xC0300000" for b k
    using that assms by (intro bytes_apart) simp_all
  from this [of "0xC0200000" 544] this [of "0xC0201000" 544] this [of "0xC0202000" 544] this [of "0xC0113000" "0xF000"]
  show ?thesis using sample_call_own [of ty] unfolding sample_pool_bytes by auto
qed

lemma sample_pool_heap: "pool_bytes sample_sb_pool \<inter> heap_own (sample_call ty) [(False, 0xEFF0)] = {}"
proof -
  have "bytes 0xC0113000 0xF000 \<inter> bytes b 544 = {}" if "0xC0122000 \<le> unat b" "unat b < 0xC0300000" for b
    using that by (intro bytes_apart) simp_all
  from this [of "0xC0200000"] this [of "0xC0201000"] this [of "0xC0202000"]
  show ?thesis using sample_call_own [of ty] unfolding sample_pool_bytes by auto
qed

lemma sample_call_memory:
  assumes "buff \<in> {0xC0600000, 0xC0600100}" and "off \<in> {0xC0500000, 0xC0500010}"
  shows "call_memory sample_sb_pool [(False, 0xEFF0)] buff 2 off (sample_call ty)"
proof -
  have "bytes off 4 \<inter> bytes buff 2 = {}" using assms by (intro bytes_apart) auto
  moreover have "bytes buff 2 \<inter> (pool_bytes sample_sb_pool \<union> heap_own (sample_call ty) [(False, 0xEFF0)]) = {}"
    "bytes off 4 \<inter> (pool_bytes sample_sb_pool \<union> heap_own (sample_call ty) [(False, 0xEFF0)]) = {}"
    using assms by (auto intro!: sample_call_outside)
  ultimately show ?thesis
    using sample_call_inv sample_call_heap sample_pool_heap unfolding call_memory_def by blast
qed

lemma sample_call_file:
  "f_inode (sample_call_mem ty) 0xC0700000 = 0xC0710000" "i_no (sample_call_mem ty) 0xC0710000 = 5" "i_dev (sample_call_mem ty) 0xC0710000 = 0x300"
  "i_size (sample_call_mem ty) 0xC0710000 = 100" "i_flags (sample_call_mem ty) 0xC0710000 = 0" "rd32 (sample_call_mem ty) 0xC0500000 = 3" "rd32 (sample_call_mem ty) 0xC0500010 = 3"
  "bgd_inode_table (sample_call_mem ty) 0xC0202020 0 = 1"
  "ei_type_permissions (sample_call_mem ty) 0xC0201020 = push_bit 8 (ucast ty)" "ei_direct_block (sample_call_mem ty) 0xC0201020 0 = 1" "ei_direct_block (sample_call_mem ty) 0xC0201020 1 = 0"
  by (simp_all add: f_inode_def i_no_def i_dev_def i_size_def i_flags_def bgd_inode_table_def ei_type_permissions_def ei_direct_block_def
      byte_defs) (simp_all add: sample_call_mem_def sample_sb_mem_def)

lemma sample_call_held: "held sample_sb_pool 2 0x300 0xC0200000 (sample_call ty)" "held sample_sb_pool 3 0x300 0xC0201000 (sample_call ty)"
proof -
  have P: "0xC0200000 \<in> sample_sb_pool" "0xC0201000 \<in> sample_sb_pool" by (simp_all add: sample_sb_pool_def)
  show "held sample_sb_pool 2 0x300 0xC0200000 (sample_call ty)" "held sample_sb_pool 3 0x300 0xC0201000 (sample_call ty)"
    using P sample_call_inv sample_call_head [OF P(1)] sample_call_head [OF P(2)]
    by (simp_all add: held_def sample_call_simps find_buffer_cached bh_head sample_sb_heads)
qed

lemma sample_call_geometry:
  "geometry (sample_call ty)" "BG_OF_INODE 5 (sample_call ty) = 0" "inode_sector 5 (sample_call ty) = 3" "inode_image 0xC0700000 0xC0201000 (sample_call ty) = 0xC0201020"
  "file_dev 0xC0700000 (sample_call ty) = 0x300" "ADDR_OF_BLOCK 1 (sample_call ty) = 2"
  by (simp_all add: geometry_def inode_sector_def inode_image_def file_dev_def INODE_OFFSET_def INODE_INDEX_def BG_OF_INODE_def BLOCK_OF_INODE_def
      ADDR_OF_BLOCK_def BLOCK_SIZE_def bh_buff_def sample_call_simps sample_call_file Let_def dvd_def exI [of _ 4])

lemma sample_call_cached:
  "inode_cached sample_sb_pool [(False, 0xEFF0)] 0xC0700000 0xC0201000 (sample_call ty)"
  "sector_cached sample_sb_pool 0xC0700000 2 3 0xC0201000 0xC0200000 (sample_call 0x80)"
  "file_apart sample_sb_pool [(False, 0xEFF0)] 0xC0700000 0xC0500000 0xC0200000 (sample_call ty)"
proof -
  have bg: "bytes (0xC0202028 :: u32) 4 \<subseteq> bytes 0xC0202000 544" using field_bytes [of 40 544 "0xC0202000"] by simp
  then have "bytes 0xC0202028 4 \<inter> heap_own (sample_call ty) [(False, 0xEFF0)] = {}" using sample_pool_heap unfolding sample_pool_bytes by blast
  moreover have "bytes 0xC0710000 32 \<inter> (pool_bytes sample_sb_pool \<union> heap_own (sample_call ty) [(False, 0xEFF0)]) = {}"
    "bytes 0xC0700000 4 \<inter> (pool_bytes sample_sb_pool \<union> heap_own (sample_call ty) [(False, 0xEFF0)]) = {}"
    "bytes 0xC0500000 4 \<inter> bytes (0xC0710000 :: u32) 32 = {}" "bytes 0xC0500000 4 \<inter> bytes (0xC0700000 :: u32) 4 = {}"
    by (auto intro!: sample_call_outside bytes_apart)
  note sep = this calculation
  have eq: "bgdt_entries (sample_call ty) + 32 * BG_OF_INODE 5 (sample_call ty) + 8 = 0xC0202028" by (simp add: sample_call_geometry sample_call_simps)
  have al: "\<exists>j bs'. alloc_list 128 [(False, 0xEFF0)] = Some (j, bs')" by simp
  show "inode_cached sample_sb_pool [(False, 0xEFF0)] 0xC0700000 0xC0201000 (sample_call ty)"
    unfolding inode_cached_def Let_def sample_call_simps(1) sample_call_file(1,2) eq
    using sep al sample_call_held by (auto simp: sample_call_geometry sample_call_file not_a_file_def)
  have "0xC0202000 \<in> sample_sb_pool - {0xC0200000}" "(8 :: nat) + 4 \<le> 512" "(0xC0202028 :: u32) = bh_buff 0xC0202000 + of_nat 8"
    by (simp_all add: sample_sb_pool_def bh_buff_def)
  then show "file_apart sample_sb_pool [(False, 0xEFF0)] 0xC0700000 0xC0500000 0xC0200000 (sample_call ty)"
    unfolding file_apart_def Let_def sample_call_simps(1) sample_call_file(1,2) eq using sep by blast
  show "sector_cached sample_sb_pool 0xC0700000 2 3 0xC0201000 0xC0200000 (sample_call 0x80)"
    unfolding sector_cached_def Let_def sample_call_geometry using sample_call_held
    by (simp add: sample_call_simps(1) sample_call_file BLOCK_SIZE_def sample_call_geometry regular_def TYPE_REG_FILE_def)
qed

lemma sample_call_data: "load_bytes (sample_call_mem ty) 0xC0600000 2 = [0x68, 0x69]"
  by (simp add: numeral_2_eq_2) (simp add: sample_call_mem_def)

theorem ext2_write_then_read_witness:
  "\<exists>t u. ext2_write 0xC0700000 0xC0600000 2 0xC0500000 (sample_call 0x80) = Done 2 t \<and> ext2_read 0xC0700000 0xC0600100 2 0xC0500010 t = Done 2 u \<and>
     load_bytes (mem u) 0xC0600100 2 = [0x68, 0x69] \<and> heap_ok u [(False, 0xEFF0)]"
proof -
  have "bytes (0xC0500000 :: u32) 4 \<inter> bytes 0xC0500010 4 = {}" by (rule bytes_apart) simp_all
  then show ?thesis
    using ext2_write_then_read [of sample_sb_pool "[(False, 0xEFF0)]" "0xC0600000" 2 "0xC0500000" "sample_call 0x80" "0xC0600100" "0xC0500010"
        "0xC0700000" "0xC0201000" "0xC0200000"] sample_call_memory [of "0xC0600000" "0xC0500000"] sample_call_memory [of "0xC0600100" "0xC0500010"]
      sample_call_cached
    by (auto simp: sample_call_simps(1) sample_call_file BLOCK_SIZE_def sample_call_data Int_commute)
qed

theorem refused_call_leaks_witness:
  "\<exists>t. ext2_read 0xC0700000 0xC0600000 2 0xC0500000 (sample_call 0x40) = Done (- 1) t \<and> heap_ok t [(True, 128), (False, 0xEF60)]"
proof -
  have "\<not> regular 0xC0700000 0xC0201000 (sample_call 0x40)"
    by (simp add: regular_def sample_call_geometry sample_call_simps(1) sample_call_file TYPE_REG_FILE_def)
  moreover have "rd32 (mem (sample_call 0x40)) 0xC0500000 + 2 < i_size (mem (sample_call 0x40)) (f_inode (mem (sample_call 0x40)) 0xC0700000)"
    by (simp add: sample_call_simps(1) sample_call_file)
  ultimately show ?thesis
    using refused_call_leaks [OF sample_call_memory sample_call_cached(1), of "0xC0600000" "0xC0500000" "0x40"] by auto
qed

theorem ext2_read_keeps_memory_witness:
  "\<exists>t. ext2_read 0xC0700000 0xC0600000 2 0xC0500000 (sample_call 0x80) = Done 2 t \<and> heap_ok t [(False, 0xEFF0)] \<and> rd32 (mem t) 0xC0500000 = 5"
proof -
  have env: "call_memory sample_sb_pool [(False, 0xEFF0)] 0xC0600000 2 0xC0500000 (sample_call 0x80)" by (rule sample_call_memory) simp_all
  then obtain t where t: "ext2_read 0xC0700000 0xC0600000 2 0xC0500000 (sample_call 0x80) = Done 2 t"
    using read_cached_file [of _ _ _ 2, OF _ sample_call_cached(1)] sample_call_cached(2) by (fastforce simp: sample_call_simps(1) sample_call_file)
  with ext2_read_keeps_memory [OF env t] show ?thesis by (simp add: sample_call_simps(1) sample_call_file)
qed

theorem ext2_write_keeps_memory_witness:
  "\<exists>t. ext2_write 0xC0700000 0xC0600000 2 0xC0500000 (sample_call 0x80) = Done 2 t \<and> heap_ok t [(False, 0xEFF0)] \<and> rd32 (mem t) 0xC0500000 = 5"
proof -
  have env: "call_memory sample_sb_pool [(False, 0xEFF0)] 0xC0600000 2 0xC0500000 (sample_call 0x80)" by (rule sample_call_memory) simp_all
  have pos: "rd32 (mem (sample_call 0x80)) 0xC0500000 = 3" by (simp add: sample_call_simps(1) sample_call_file)
  have env': "call_memory sample_sb_pool [(False, 0xEFF0)] 0xC0600000 (of_nat 2) 0xC0500000 (sample_call 0x80)" using env by simp
  obtain t where "ext2_write 0xC0700000 0xC0600000 (of_nat 2) 0xC0500000 (sample_call 0x80) = Done (of_nat 2) t"
    by (rule write_cached_file [OF env' sample_call_cached(1), where b = "0xC0200000"])
      (use sample_call_cached(2) in \<open>simp_all add: pos BLOCK_SIZE_def\<close>)
  then have t: "ext2_write 0xC0700000 0xC0600000 2 0xC0500000 (sample_call 0x80) = Done 2 t" by simp
  with ext2_write_keeps_memory [OF env t] show ?thesis by (simp add: pos BLOCK_SIZE_def)
qed

theorem ext2_write_overruns_buffer_witness:
  "\<exists>t. ext2_write_sectors 1 0 0x300 0xC0201020 0xC0500000 \<lparr>t_i = 0, t_offset = 511, t_moved = 0, t_count = 3, t_buff = 0xC0600000\<rparr> (sample_call 0x80) =
       Done (Inr (advance 3 \<lparr>t_i = 0, t_offset = 511, t_moved = 0, t_count = 3, t_buff = 0xC0600000\<rparr>)) t \<and> mem t 0xC0200220 = 0x69"
proof -
  let ?v = "\<lparr>t_i = 0, t_offset = 511, t_moved = 0, t_count = 3, t_buff = 0xC0600000\<rparr>"
  have h: "held sample_sb_pool (ADDR_OF_BLOCK (ei_direct_block (mem (sample_call 0x80)) 0xC0201020 (t_i ?v)) (sample_call 0x80)) 0x300 0xC0200000 (sample_call 0x80)"
    using sample_call_held(1) by (simp add: sample_call_simps(1) sample_call_file sample_call_geometry)
  have "bytes 0xC0200000 1056 \<inter> bytes (0xC0600000 :: u32) 3 = {}" "bytes 0xC0200000 1056 \<inter> bytes (0xC0500000 :: u32) 4 = {}"
    "bytes 0xC0500000 4 \<inter> bytes (0xC0600000 :: u32) 3 = {}" by (intro bytes_apart; simp)+
  then obtain t where t: "ext2_write_sectors 1 0 0x300 0xC0201020 0xC0500000 ?v (sample_call 0x80) = Done (Inr (advance (of_nat 3) ?v)) t"
    "\<forall>j < 511 + 3 - 512. mem t (0xC0200000 + 544 + of_nat j) = mem (sample_call 0x80) (0xC0600000 + of_nat (512 - 511 + j))"
    using ext2_write_overruns_buffer [OF h, of 3 "0xC0500000"] by (auto simp: Int_commute)
  from t(2) [rule_format, of 0] have "mem t 0xC0200220 = 0x69" by (simp add: sample_call_simps(1) sample_call_mem_def)
  with t(1) show ?thesis by auto
qed

end
