(* ===== verification/Syscall.thy ===== *)
theory Syscall
  imports Devices
begin

unbundle bit_operations_syntax

text \<open>
  System calls, \<^verbatim>\<open>src/userspace/syscall.c\<close> with \<^verbatim>\<open>sys_read.c\<close>, \<^verbatim>\<open>sys_write.c\<close> and
  \<^verbatim>\<open>sys_time.c\<close>: the dispatch table, the routine installed for interrupt 0x80, and the user-side
  stubs that raise it. The inline assembly of the handler pushes \<^verbatim>\<open>edi, esi, edx, ecx, ebx\<close>, so
  the called function finds \<^verbatim>\<open>ebx\<close> as its first argument.
\<close>

section \<open>The calls\<close>

datatype sys_function = sys_read_fn | sys_write_fn | sys_time_fn

definition sys_read :: "'a console_scheme \<Rightarrow> ('a console_scheme, u32) outcome" where
  "sys_read s = kpanic ''sys_read is currently unsupported'' s"

definition sys_write :: "u32 \<Rightarrow> 'a console_scheme \<Rightarrow> ('a console_scheme, u32) outcome" where
  "sys_write str s = obind (terminal_writestring_at str s) (\<lambda>_ s. Done 0 s)"

text \<open>The result is stored through the pointer the caller passes, unchecked. The model stores it in byte memory; a pointer to a variable
  of the kernel that the model keeps as a field of the state is outside the model.\<close>

definition sys_time :: "u32 \<Rightarrow> 'a devices_scheme \<Rightarrow> ('a devices_scheme, u32) outcome" where
  "sys_time tloc s =
     (let yr = get_year s - 1970;
          ret = yr * 31536000 + ucast (get_month s) * 2592000 + ucast (get_day s) * 86400 +
                ucast (get_hour s) * 3600 + ucast (get_minute s) * 60 + ucast (get_second s)
      in Done ret (if tloc \<noteq> 0 then s\<lparr>mem := wr32 (mem s) tloc ret\<rparr> else s))"

section \<open>Dispatch\<close>

definition syscalls :: "sys_function option list" where
  "syscalls = [Some sys_read_fn, Some sys_write_fn, None, None, None, None, None, None, None, None,
     None, None, None, Some sys_time_fn, None, None, None, None, None, None, None]"

definition syscall_count :: u32 where "syscall_count = 21"

definition call_sys :: "sys_function \<Rightarrow> u32 \<Rightarrow> 'a devices_scheme \<Rightarrow> ('a devices_scheme, u32) outcome" where
  "call_sys h ebx s = (case h of sys_read_fn \<Rightarrow> sys_read s | sys_write_fn \<Rightarrow> sys_write ebx s | sys_time_fn \<Rightarrow> sys_time ebx s)"

definition syscall_handler :: "regs \<Rightarrow> 'a devices_scheme \<Rightarrow> ('a devices_scheme, regs) outcome" where
  "syscall_handler r s =
     (if r_eax r \<ge> syscall_count then Done r s
      else case syscalls ! unat (r_eax r) of
             None \<Rightarrow> Done r s
           | Some h \<Rightarrow> obind (call_sys h (r_ebx r) s) (\<lambda>ret s. Done (r\<lparr>r_eax := ret\<rparr>) s))"

definition syscall_install :: "'a interrupts_scheme \<Rightarrow> ('a interrupts_scheme, unit) outcome" where
  "syscall_install = irq_install_handler 0x60 syscall_routine"

text \<open>What a call through \<^verbatim>\<open>irq_routines\<close> runs.\<close>

definition run_routine :: "routine \<Rightarrow> regs \<Rightarrow> 'a devices_scheme \<Rightarrow> ('a devices_scheme, regs) outcome" where
  "run_routine h = (case h of timer_routine \<Rightarrow> timer_handler | keyboard_routine \<Rightarrow> keyboard_handler
     | rtc_routine \<Rightarrow> rtc_handler | syscall_routine \<Rightarrow> syscall_handler)"

text \<open>\<^verbatim>\<open>int $0x80\<close> with the register contents \<open>r\<close> and the given \<^verbatim>\<open>eax\<close> (and \<^verbatim>\<open>ebx\<close>).\<close>

definition DEFN_SYSCALL0 :: "u32 \<Rightarrow> regs \<Rightarrow> 'a devices_scheme \<Rightarrow> ('a devices_scheme, u32) outcome" where
  "DEFN_SYSCALL0 num r s =
     obind (irq_handler run_routine (r\<lparr>r_eax := num, int_no := 0x80\<rparr>) s) (\<lambda>r s. Done (r_eax r) s)"

definition DEFN_SYSCALL1 :: "u32 \<Rightarrow> u32 \<Rightarrow> regs \<Rightarrow> 'a devices_scheme \<Rightarrow> ('a devices_scheme, u32) outcome" where
  "DEFN_SYSCALL1 num arg1 r s =
     obind (irq_handler run_routine (r\<lparr>r_eax := num, r_ebx := arg1, int_no := 0x80\<rparr>) s) (\<lambda>r s. Done (r_eax r) s)"

definition syscall_sys_read :: "regs \<Rightarrow> 'a devices_scheme \<Rightarrow> ('a devices_scheme, u32) outcome" where
  "syscall_sys_read = DEFN_SYSCALL0 0"

definition syscall_sys_write :: "u32 \<Rightarrow> regs \<Rightarrow> 'a devices_scheme \<Rightarrow> ('a devices_scheme, u32) outcome" where
  "syscall_sys_write arg1 = DEFN_SYSCALL1 1 arg1"

definition syscall_sys_time :: "u32 \<Rightarrow> regs \<Rightarrow> 'a devices_scheme \<Rightarrow> ('a devices_scheme, u32) outcome" where
  "syscall_sys_time arg1 = DEFN_SYSCALL1 1 arg1"

section \<open>Properties\<close>

lemma syscall_numbers:
  "n < 21 \<Longrightarrow> syscalls ! n = (if n = 0 then Some sys_read_fn else if n = 1 then Some sys_write_fn
     else if n = 13 then Some sys_time_fn else None)"
  by (simp add: syscalls_def nth_Cons' del: One_nat_def)

lemma syscall_handler_eq:
  "syscall_handler r s =
     (if r_eax r = 0 then kpanic ''sys_read is currently unsupported'' s
      else if r_eax r = 1 then obind (sys_write (r_ebx r) s) (\<lambda>ret s. Done (r\<lparr>r_eax := ret\<rparr>) s)
      else if r_eax r = 13 then obind (sys_time (r_ebx r) s) (\<lambda>ret s. Done (r\<lparr>r_eax := ret\<rparr>) s)
      else Done r s)"
proof (cases "r_eax r < 21")
  case True
  then have lt: "unat (r_eax r) < 21" by (simp add: word_less_nat_alt)
  have eqs: "unat (r_eax r) = 0 \<longleftrightarrow> r_eax r = 0" "unat (r_eax r) = 1 \<longleftrightarrow> r_eax r = 1" "unat (r_eax r) = 13 \<longleftrightarrow> r_eax r = 13"
    by (simp_all add: word_unat_eq_iff)
  have "\<not> syscall_count \<le> r_eax r" using True by (simp add: syscall_count_def not_le)
  then show ?thesis
    by (simp add: syscall_handler_def syscall_numbers [OF lt] eqs call_sys_def sys_read_def kpanic_def Let_def
        del: One_nat_def)
next
  case False
  then have "syscall_count \<le> r_eax r" "r_eax r \<noteq> 0" "r_eax r \<noteq> 1" "r_eax r \<noteq> 13"
    by (auto simp: syscall_count_def word_less_nat_alt word_le_nat_alt)
  then show ?thesis by (simp add: syscall_handler_def)
qed

text \<open>C30: the system-call handler implements numbers 0 (read), 1 (write) and 13 (time), passes \<^verbatim>\<open>ebx\<close>
  as the argument and returns the result in \<^verbatim>\<open>eax\<close>; every other number leaves the frame and the
  kernel state alone, and the table is never read out of its bounds.\<close>

theorem syscall_dispatch:
  "syscall_handler r s =
     (if r_eax r = 0 then kpanic ''sys_read is currently unsupported'' s
      else if r_eax r = 1 then obind (sys_write (r_ebx r) s) (\<lambda>ret s. Done (r\<lparr>r_eax := ret\<rparr>) s)
      else if r_eax r = 13 then obind (sys_time (r_ebx r) s) (\<lambda>ret s. Done (r\<lparr>r_eax := ret\<rparr>) s)
      else Done r s)"
  by (rule syscall_handler_eq)

text \<open>Once the handler is installed, each user-side stub reaches the kernel through interrupt
  0x80 without any acknowledgement to the interrupt controllers: the read stub panics and the write
  stub prints the string. The stub of \<^verbatim>\<open>sys_time\<close> uses the number of \<^verbatim>\<open>sys_write\<close>: it prints
  memory at the given address instead of storing the time there.\<close>

theorem syscall_stubs:
  assumes "irq_routines s 0x60 = Some syscall_routine"
  shows "syscall_sys_read r s = kpanic ''sys_read is currently unsupported'' s \<and>
    syscall_sys_write p r s = sys_write p s \<and> syscall_sys_time p r s = sys_write p s"
proof -
  have irq: "irq_handler run_routine r s =
      obind (syscall_handler r s) (\<lambda>r s. let s = (if (ucast (int_no r) :: u8) \<ge> 40 \<and> int_no r \<noteq> 0x80 then outb 0xA0 0x20 s else s);
                 s = (if int_no r \<noteq> 0x80 then outb 0x20 0x20 s else s) in Done r s)" if "int_no r = 0x80" for r
    using assms that by (simp add: irq_handler_def run_routine_def)
  have "obind (obind (sys_write p s) f) g = sys_write p s"
    if "\<And>ret t. obind (f ret t) g = Done ret t" for f :: "u32 \<Rightarrow> 'a devices_scheme \<Rightarrow> ('a devices_scheme, regs) outcome" and g
    using that by (cases "sys_write p s") auto
  then show ?thesis
    by (simp add: syscall_sys_read_def syscall_sys_write_def syscall_sys_time_def DEFN_SYSCALL0_def DEFN_SYSCALL1_def
        irq syscall_handler_eq kpanic_def Let_def obind_assoc)
qed

definition sample_syscalls :: devices where
  "sample_syscalls = sample_devices\<lparr>irq_routines := \<lambda>n. if n = 0x60 then Some syscall_routine else None, mem := \<lambda>_. 0\<rparr>"

theorem syscall_stubs_witness:
  "\<exists>r. syscall_sys_time 0xC0200000 r sample_syscalls = sys_write 0xC0200000 sample_syscalls"
  using syscall_stubs [of sample_syscalls] by (simp add: sample_syscalls_def)

text \<open>\<^verbatim>\<open>sys_time\<close> counts 365 days a year and 30 days a month with months and days from 1, so it
  is 31 days ahead at the start of the epoch and repeats itself: 31 January and 1 February of any
  year yield the same time at the same time of day. The result is also stored at a non-null
  address.\<close>

theorem sys_time_repeats:
  fixes s :: "'a devices_scheme"
  shows "(\<exists>t. sys_time 0 (s\<lparr>year := 1970, month := 1, day := 1, hour := 0, minute := 0, second := 0\<rparr>) = Done 2678400 t) \<and>
    (\<exists>v t u. sys_time 0 (s\<lparr>month := 1, day := 31\<rparr>) = Done v t \<and> sys_time 0 (s\<lparr>month := 2, day := 1\<rparr>) = Done v u) \<and>
    (\<forall>p. p \<noteq> 0 \<longrightarrow> (\<exists>v t. sys_time p s = Done v t \<and> rd32 (mem t) p = v))"
  by (simp add: sys_time_def Let_def get_year_def get_month_def get_day_def get_hour_def get_minute_def get_second_def)

theorem sys_time_repeats_witness:
  "\<exists>v t. sys_time 0xC0200000 sample_devices = Done v t \<and> rd32 (mem t) 0xC0200000 = v"
  using sys_time_repeats [of sample_devices] by simp

end
