(* ===== verification/Events.thy ===== *)
theory Events
  imports Syscall
begin

unbundle bit_operations_syntax

text \<open>
  Interrupts as events. The processor delivers interrupt requests and system calls one at a time: the gates
  are interrupt gates, so the flag is off while a handler runs. A run is a sequence of stack frames for which
  \<^verbatim>\<open>irq_handler\<close>, calling the routines the drivers installed, returned each time. By induction over runs: nothing
  but the devices' own state changes, the timer counts, every hardware interrupt is acknowledged once.
\<close>

section \<open>Runs of interrupts\<close>

text \<open>The vectors whose entry points call \<^verbatim>\<open>irq_handler\<close>.\<close>

definition irq_vector :: "regs \<Rightarrow> bool" where
  "irq_vector r \<longleftrightarrow> 32 \<le> int_no r \<and> int_no r < 48 \<or> int_no r = 0x80"

inductive interrupted :: "'a devices_scheme \<Rightarrow> regs list \<Rightarrow> 'a devices_scheme \<Rightarrow> bool" where
  quiet: "interrupted s [] s"
| request: "irq_vector r \<Longrightarrow> irq_handler run_routine r s = Done r' t \<Longrightarrow> interrupted t rs u \<Longrightarrow> interrupted s (r # rs) u"

inductive_cases interrupted_NilE: "interrupted s [] u"
inductive_cases interrupted_ConsE: "interrupted s (r # rs) u"

lemma interrupted_deterministic:
  assumes "interrupted s rs t" and "interrupted s rs u"
  shows "t = u"
  using assms
proof (induction arbitrary: u rule: interrupted.induct)
  case (request r s r' t rs v)
  from request.prems obtain q w where "irq_handler run_routine r s = Done q w" "interrupted w rs u"
    by (rule interrupted_ConsE)
  with request show ?case by simp
qed (auto elim: interrupted_NilE)

section \<open>What the interrupt routines leave alone\<close>

definition handlers_installed :: "'a interrupts_scheme \<Rightarrow> bool" where
  "handlers_installed s \<longleftrightarrow> irq_routines s 0 = Some timer_routine \<and> irq_routines s 1 = Some keyboard_routine \<and>
     irq_routines s 8 = Some rtc_routine \<and> irq_routines s 0x60 = Some syscall_routine \<and>
     (\<forall>n < 16. n \<notin> {0, 1, 8} \<longrightarrow> irq_routines s n = None)"

text \<open>Nothing but memory, the port history, the console, the tick counter and the time has changed.\<close>

definition same_kernel :: "'a devices_scheme \<Rightarrow> 'a devices_scheme \<Rightarrow> bool" where
  "same_kernel s t \<longleftrightarrow> t = s\<lparr>mem := mem t, io_log := io_log t, tty := tty t, jiffies := jiffies t, second := second t,
     minute := minute t, hour := hour t, day := day t, month := month t, year := year t, century := century t\<rparr>"

lemma same_kernel_refl [simp]: "same_kernel s s"
  by (simp add: same_kernel_def)

lemma same_kernel_trans: "same_kernel s t \<Longrightarrow> same_kernel t u \<Longrightarrow> same_kernel s u"
  unfolding same_kernel_def by (cases s; cases t; cases u) simp

lemma same_kernel_fields:
  assumes "same_kernel s t"
  shows "irq_routines t = irq_routines s" "idt t = idt s" "hw t = hw s" "iflag t = iflag s" "first t = first s"
    "frame_map t = frame_map s" "devices.more t = devices.more s"
  using assms unfolding same_kernel_def by (cases s; cases t; simp)+

text \<open>Acknowledgements sent to the master interrupt controller.\<close>

definition acks :: "io_event list \<Rightarrow> nat" where
  "acks l = length (filter (\<lambda>e. e = Out8 0x20 0x20) l)"

lemma acks_simps [simp]: "acks [] = 0" "acks (e # l) = (if e = Out8 0x20 0x20 then Suc (acks l) else acks l)"
  by (simp_all add: acks_def)

text \<open>What every routine but the timer and the time call does at most.\<close>

definition only_devices :: "'a devices_scheme \<Rightarrow> 'a devices_scheme \<Rightarrow> bool" where
  "only_devices s t \<longleftrightarrow> same_kernel s t \<and> mem t = mem s \<and> jiffies t = jiffies s \<and> acks (io_log t) = acks (io_log s) \<and>
     (term_inv (tty s) \<longrightarrow> term_inv (tty t))"

lemma only_devices_refl [simp]: "only_devices s s"
  by (simp add: only_devices_def)

lemma only_devices_trans: "only_devices s t \<Longrightarrow> only_devices t u \<Longrightarrow> only_devices s u"
  using same_kernel_trans unfolding only_devices_def by auto

text \<open>The rules that carry this through the statements of a routine.\<close>

named_theorems driver_steps "statements that touch devices only"

lemma only_devices_let [driver_steps]:
  "only_devices s v \<Longrightarrow> (\<And>x. only_devices s x \<Longrightarrow> only_devices s (f x)) \<Longrightarrow> only_devices s (Let v f)"
  by (simp add: Let_def)

lemma only_devices_let_pair [driver_steps]:
  "only_devices s (snd p) \<Longrightarrow> (\<And>v x. only_devices s x \<Longrightarrow> only_devices s (g v x)) \<Longrightarrow> only_devices s (Let p (\<lambda>(v, x). g v x))"
  by (simp add: split_beta Let_def)

lemma only_devices_if [driver_steps]:
  "only_devices s t \<Longrightarrow> only_devices s u \<Longrightarrow> only_devices s (if c then t else u)"
  by simp

lemma only_devices_out [driver_steps]: "p \<noteq> 0x20 \<Longrightarrow> only_devices s t \<Longrightarrow> only_devices s (outb p v t)"
  by (erule only_devices_trans) (simp add: only_devices_def same_kernel_def outb_def)

lemma only_devices_in [driver_steps]: "only_devices s t \<Longrightarrow> only_devices s (snd (inb p t))"
  by (erule only_devices_trans) (simp add: only_devices_def same_kernel_def inb_def Let_def)

lemma only_devices_tty:
  assumes "\<And>t. term_inv t \<Longrightarrow> term_inv (f t)" and "only_devices s t"
  shows "only_devices s (tty_update f t)"
  using assms(2) by (rule only_devices_trans) (use assms(1) in \<open>simp add: only_devices_def same_kernel_def\<close>)

lemma only_devices_time [driver_steps]:
  assumes "only_devices s t"
  shows "only_devices s (t\<lparr>second := b\<rparr>)" "only_devices s (t\<lparr>minute := b\<rparr>)" "only_devices s (t\<lparr>hour := b\<rparr>)" "only_devices s (t\<lparr>day := b\<rparr>)"
    "only_devices s (t\<lparr>month := b\<rparr>)" "only_devices s (t\<lparr>year := y\<rparr>)" "only_devices s (t\<lparr>century := b\<rparr>)"
  by (rule only_devices_trans [OF assms], simp add: only_devices_def same_kernel_def)+

lemma only_devices_rtc_register [driver_steps]: "only_devices s t \<Longrightarrow> only_devices s (snd (get_rtc_register r t))"
  unfolding get_rtc_register_def by (intro driver_steps) (simp_all add: CMOS_ADDRESS_def)

lemma only_devices_update_flag: "only_devices s t \<Longrightarrow> only_devices s (snd (update_in_progress_flag t))"
  using only_devices_in [OF only_devices_out, of CMOS_ADDRESS s t CMOS_DATA "0x0A"]
  by (simp add: update_in_progress_flag_def split_beta Let_def CMOS_ADDRESS_def)

lemma only_devices_load_time: "only_devices s (load_time s)"
  unfolding load_time_def by (intro driver_steps only_devices_refl) assumption+

lemma only_devices_convert_time: "only_devices s t \<Longrightarrow> only_devices s (convert_time b t)"
  unfolding convert_time_def by (intro driver_steps) assumption+

lemma keyboard_wait_reads:
  assumes "keyboard_wait c s = Some (v, t)"
  shows "\<exists>l. t = s\<lparr>io_log := l\<rparr> \<and> acks l = acks (io_log s)"
proof -
  have "(\<lambda>c s (v, t). \<exists>l. t = s\<lparr>io_log := l\<rparr> \<and> acks l = acks (io_log s)) c s (v, t)"
  proof (rule keyboard_wait.raw_induct [OF _ assms])
    fix wait :: "u8 \<Rightarrow> 'a machine_scheme \<Rightarrow> (u8 \<times> 'a machine_scheme) option" and c s x
    assume IH: "\<And>c s x. wait c s = Some x \<Longrightarrow> (case x of (v, t) \<Rightarrow> \<exists>l. t = s\<lparr>io_log := l\<rparr> \<and> acks l = acks (io_log s))"
      and e: "(let (v, s) = inb 0x60 s in if v \<noteq> c then let (c, s) = inb 0x60 s in if 0 < c then Some (c, s) else wait c s else wait c s) = Some x"
    show "case x of (v, t) \<Rightarrow> \<exists>l. t = s\<lparr>io_log := l\<rparr> \<and> acks l = acks (io_log s)"
      using e by (auto simp: inb_def Let_def split: if_splits dest!: IH)
  qed
  then show ?thesis by simp
qed

lemma only_devices_keyboard:
  assumes "keyboard_handler r s = Done r' t"
  shows "only_devices s t \<and> r' = r"
proof -
  obtain c u where w: "keyboard_wait 0 s = Some (c, u)"
    and t: "t = (if c AND 0x80 = 0 then tty_update (terminal_putchar (keyboard_table_uk ! unat c)) u else u)" "r' = r"
    using assms by (auto simp: keyboard_handler_def split: option.splits)
  have "only_devices s u" using keyboard_wait_reads [OF w] by (auto simp: only_devices_def same_kernel_def)
  then show ?thesis
    using t only_devices_tty [OF term_inv_putchar] by auto
qed

lemma only_devices_rtc:
  assumes "rtc_handler r s = Done r' t"
  shows "only_devices s t \<and> r' = r"
proof -
  define s1 where "s1 = snd (inb CMOS_DATA (outb CMOS_ADDRESS 0x0C s))"
  obtain v u where p: "poll update_in_progress_flag (\<lambda>v. v \<noteq> 0) (\<lambda>_ s. s) s1 = Some (v, u)"
    and t: "t = (let (b, w) = get_rtc_register 0x0B (load_time u) in convert_time (ucast b) w)" "r' = r"
    using assms by (auto simp: rtc_handler_def read_rtc_def s1_def split_beta Let_def obind_Done_iff split: option.splits)
  have "only_devices s s1"
    unfolding s1_def by (intro driver_steps only_devices_refl) (simp add: CMOS_ADDRESS_def)
  moreover have "only_devices s1 u"
    by (rule poll_invariant [OF p]) (auto intro: only_devices_update_flag)
  moreover have "only_devices u t"
    unfolding t by (intro driver_steps only_devices_load_time only_devices_convert_time)
  ultimately show ?thesis using t(2) by (blast intro: only_devices_trans)
qed

section \<open>One interrupt\<close>

text \<open>The word the time call of the frame \<open>r\<close> stores to.\<close>

definition time_store :: "regs \<Rightarrow> u32 set" where
  "time_store r = (if int_no r = 0x80 \<and> r_eax r = 13 \<and> r_ebx r \<noteq> 0 then {x. x - r_ebx r < 4} else {})"

definition interrupt_effect :: "regs list \<Rightarrow> 'a devices_scheme \<Rightarrow> 'a devices_scheme \<Rightarrow> bool" where
  "interrupt_effect rs s t \<longleftrightarrow> same_kernel s t \<and>
     jiffies t = jiffies s + of_nat (length (filter (\<lambda>r. int_no r = 32) rs)) \<and>
     acks (io_log t) = acks (io_log s) + length (filter (\<lambda>r. int_no r \<noteq> 0x80) rs) \<and>
     (\<forall>x. (\<forall>r \<in> set rs. x \<notin> time_store r) \<longrightarrow> mem t x = mem s x) \<and> (term_inv (tty s) \<longrightarrow> term_inv (tty t))"

lemma sys_time_stores: "\<exists>v. sys_time p s = Done v (if p \<noteq> 0 then s\<lparr>mem := wr32 (mem s) p v\<rparr> else s)"
  unfolding sys_time_def Let_def by (rule exI, rule refl)

lemma syscall_effect:
  assumes "syscall_handler r s = Done r' t" and "int_no r = 0x80"
  shows "int_no r' = int_no r \<and> same_kernel s t \<and> jiffies t = jiffies s \<and> acks (io_log t) = acks (io_log s) \<and>
    (\<forall>x. x \<notin> time_store r \<longrightarrow> mem t x = mem s x) \<and> (term_inv (tty s) \<longrightarrow> term_inv (tty t))"
proof -
  have read: "r_eax r \<noteq> 0" using assms(1) by (auto simp: syscall_handler_eq kpanic_def Let_def)
  show ?thesis
  proof (cases "r_eax r = 1")
    case True
    then obtain n where "strlen (mem s) (r_ebx r) = Some n" "r' = r\<lparr>r_eax := 0\<rparr>"
      "t = tty_update (terminal_write (load_bytes (mem s) (r_ebx r) (unat n))) s"
      using assms(1) by (auto simp: syscall_handler_eq sys_write_def terminal_writestring_at_def split: option.splits)
    then show ?thesis by (simp add: same_kernel_def term_inv_write)
  next
    case False
    show ?thesis
    proof (cases "r_eax r = 13")
      case True
      then obtain v where "r' = r\<lparr>r_eax := v\<rparr>" "t = (if r_ebx r \<noteq> 0 then s\<lparr>mem := wr32 (mem s) (r_ebx r) v\<rparr> else s)"
        using assms(1) sys_time_stores [of "r_ebx r" s] by (auto simp: syscall_handler_eq)
      then show ?thesis using True assms(2) by (simp add: same_kernel_def time_store_def wr32_other not_less)
    next
      case n13: False
      then show ?thesis using assms(1) read False by (simp add: syscall_handler_eq)
    qed
  qed
qed

lemma routine_effect:
  assumes "run_routine h r s = Done r' t" and "h = timer_routine \<longleftrightarrow> int_no r = 32" and "h = syscall_routine \<longleftrightarrow> int_no r = 0x80"
  shows "int_no r' = int_no r \<and> same_kernel s t \<and> jiffies t = jiffies s + (if int_no r = 32 then 1 else 0) \<and>
    acks (io_log t) = acks (io_log s) \<and> (\<forall>x. x \<notin> time_store r \<longrightarrow> mem t x = mem s x) \<and> (term_inv (tty s) \<longrightarrow> term_inv (tty t))"
proof (cases h)
  case timer_routine
  then show ?thesis using assms by (auto simp: run_routine_def timer_handler_def same_kernel_def)
next
  case keyboard_routine
  then show ?thesis using assms only_devices_keyboard [of r s r' t] by (auto simp: run_routine_def only_devices_def)
next
  case rtc_routine
  then show ?thesis using assms only_devices_rtc [of r s r' t] by (auto simp: run_routine_def only_devices_def)
next
  case syscall_routine
  then show ?thesis using assms syscall_effect [of r s r' t] by (auto simp: run_routine_def)
qed

lemma interrupt_step:
  assumes installed: "handlers_installed s" and vector: "irq_vector r" and run: "irq_handler run_routine r s = Done r' t"
  shows "handlers_installed t \<and> interrupt_effect [r] s t"
proof -
  have ok: "int_no r - 32 < 256" and n: "int_no r - 32 < 16 \<or> int_no r - 32 = 0x60"
    using vector by (auto simp: irq_vector_def word_less_nat_alt word_le_nat_alt unat_sub_if')
  obtain q u where q: "(case irq_routines s (int_no r - 32) of Some h \<Rightarrow> run_routine h r s | None \<Rightarrow> Done r s) = Done q u"
    and t: "t = (let u = (if (ucast (int_no q) :: u8) \<ge> 40 \<and> int_no q \<noteq> 0x80 then outb 0xA0 0x20 u else u)
           in if int_no q \<noteq> 0x80 then outb 0x20 0x20 u else u)"
    using run ok by (auto simp: irq_handler_def obind_Done_iff Let_def)
  have num: "int_no r - 32 = 0 \<longleftrightarrow> int_no r = 32" "int_no r - 32 = 0x60 \<longleftrightarrow> int_no r = 0x80"
    by (simp_all add: algebra_simps)
  have "int_no q = int_no r \<and> same_kernel s u \<and> jiffies u = jiffies s + (if int_no r = 32 then 1 else 0) \<and>
    acks (io_log u) = acks (io_log s) \<and> (\<forall>x. x \<notin> time_store r \<longrightarrow> mem u x = mem s x) \<and> (term_inv (tty s) \<longrightarrow> term_inv (tty u))"
  proof (cases "irq_routines s (int_no r - 32)")
    case None
    then have "int_no r \<noteq> 32" using installed num by (auto simp: handlers_installed_def)
    then show ?thesis using None q by simp
  next
    case (Some h)
    have "h = timer_routine \<longleftrightarrow> int_no r = 32" "h = syscall_routine \<longleftrightarrow> int_no r = 0x80"
      using Some n installed num unfolding handlers_installed_def by (cases "int_no r - 32 \<in> {0, 1, 8, 0x60}"; auto)+
    then show ?thesis using routine_effect [of h r s q u] Some q by simp
  qed
  moreover have "same_kernel u t \<and> jiffies t = jiffies u \<and> mem t = mem u \<and> tty t = tty u \<and>
      acks (io_log t) = acks (io_log u) + (if int_no q \<noteq> 0x80 then 1 else 0)"
    unfolding t by (simp add: same_kernel_def outb_def Let_def)
  ultimately show ?thesis
    using installed same_kernel_fields(1) [of s t] same_kernel_trans [of s u t]
    by (simp add: interrupt_effect_def handlers_installed_def)
qed

section \<open>Any sequence of interrupts\<close>

lemma interrupt_effect_Nil: "interrupt_effect [] s s"
  by (simp add: interrupt_effect_def)

lemma interrupt_effect_Cons: "interrupt_effect [r] s t \<Longrightarrow> interrupt_effect rs t u \<Longrightarrow> interrupt_effect (r # rs) s u"
  using same_kernel_trans [of s t u] unfolding interrupt_effect_def by auto

lemma interrupted_effect:
  "interrupted s rs t \<Longrightarrow> handlers_installed s \<Longrightarrow> interrupt_effect rs s t"
proof (induction rule: interrupted.induct)
  case (request r s r' t rs u)
  then show ?case using interrupt_step interrupt_effect_Cons by blast
qed (rule interrupt_effect_Nil)

text \<open>Ticks of the timer always complete.\<close>

lemma ticks_complete:
  assumes "handlers_installed s" and "int_no r = 32"
  shows "\<exists>u. interrupted s (replicate n r) u"
  using assms(1)
proof (induction n arbitrary: s)
  case 0
  show ?case using quiet by auto
next
  case (Suc n)
  have v: "irq_vector r" using assms(2) by (simp add: irq_vector_def)
  have "irq_routines s 0 = Some timer_routine" using Suc.prems by (simp add: handlers_installed_def)
  then have "\<exists>t. irq_handler run_routine r s = Done r t"
    using assms(2) by (simp add: irq_handler_def run_routine_def timer_handler_def)
  then obtain t where t: "irq_handler run_routine r s = Done r t" by blast
  then have "handlers_installed t" using interrupt_step [OF Suc.prems v] by blast
  then obtain u where "interrupted t (replicate n r) u" using Suc.IH by blast
  then show ?case using request [OF v t] by auto
qed

end
