(* ===== verification/Boot.thy ===== *)
theory Boot
  imports Ext2_Cached Events
begin

unbundle bit_operations_syntax

text \<open>
  The boot sequence, \<^verbatim>\<open>kernel_main\<close> of \<^verbatim>\<open>src/kernel.c\<close>, composed of the routines of all components in
  the order of the code, with the thread \<^verbatim>\<open>test\<close> and \<^verbatim>\<open>usermode_switch\<close>. It is cut into its stages: the
  console, descriptor tables and interrupt routines; frames, pages and heap; the first kernel thread; the disk;
  the root file system and the read of a file. Addresses given by the linker (symbols, string
  literals) and by the compiler (automatic variables), the entry points of the interrupt stubs
  and the contents of the processor's registers at the two calls that switch threads are fields of the
  state that no operation changes. The endless loop at the end is the result \<open>Done\<close>; nothing after it is reached.
\<close>

section \<open>State\<close>

text \<open>The automatic variables of \<^verbatim>\<open>kernel_main\<close> whose address is taken.\<close>

datatype kmain_var = Dev | Root_fs | Inode_tmp | Dest | Tmp_file | Tmp_buff

record boot = ext2 +
  memupper_size :: u32
  endkernel :: u32
  isr_entry :: "u8 \<Rightarrow> u32"
  irq_entry :: "u8 \<Rightarrow> u32"
  kmain_addr :: "kmain_var \<Rightarrow> u32"
  test_addr :: u32
  ext2_read_super_addr :: u32
  regs_in_create :: cpu_regs
  regs_in_test :: cpu_regs

definition HZ :: u32 where "HZ = 100"
definition PRIMARY_BUS :: u16 where "PRIMARY_BUS = 0x1F0"
definition mbd_flags :: "memory \<Rightarrow> u32 \<Rightarrow> u32" where "mbd_flags m a = rd32 m a"
definition mbd_mem_upper :: "memory \<Rightarrow> u32 \<Rightarrow> u32" where "mbd_mem_upper m a = rd32 m (a + 8)"
definition set_fs_read_super :: "u32 \<Rightarrow> u32 \<Rightarrow> memory \<Rightarrow> memory" where "set_fs_read_super f v m = wr32 m f v"
definition set_fs_name :: "u32 \<Rightarrow> u32 \<Rightarrow> memory \<Rightarrow> memory" where "set_fs_name f v m = wr32 m (f + 4) v"
definition set_f_name :: "u32 \<Rightarrow> u32 \<Rightarrow> memory \<Rightarrow> memory" where "set_f_name f v m = wr32 m (f + 4) v"

section \<open>Stages\<close>

text \<open>The console, the descriptor tables and the interrupt routines; \<open>esp\<close> is the stack pointer \<^verbatim>\<open>write_tss\<close> reads.\<close>

definition boot_interrupts :: "u32 \<Rightarrow> u32 \<Rightarrow> 'a boot_scheme \<Rightarrow> ('a boot_scheme, unit) outcome" where
  "boot_interrupts mbd esp s =
     (let s = tty_update terminal_initialize s;
          s = s\<lparr>jiffies := 0\<rparr>;
          s = (if mbd_flags (mem s) mbd \<noteq> 0 then s\<lparr>memupper_size := mbd_mem_upper (mem s) mbd\<rparr> else s);
          s = gdt_install esp s;
          s = idt_install (isr_entry s) s
      in obind (keyboard_install s) (\<lambda>_ s.
         obind (timer_install s) (\<lambda>_ s.
         obind (timer_set_interval HZ s) (\<lambda>_ s.
         obind (rtc_install s) (\<lambda>_ s.
         obind (syscall_install s) (\<lambda>_ s.
         Done () (irq_install (irq_entry s) s)))))))"

definition boot_memory :: "'a boot_scheme \<Rightarrow> ('a boot_scheme, unit) outcome" where
  "boot_memory s =
     obind (init_frames (endkernel s) (memupper_size s) s) (\<lambda>_ s.
     obind (init_paging (endkernel s) s) (\<lambda>_ s.
     let s = tty_update (terminal_writestring ''paging initialized'') s
     in obind (kalloc_page s) (\<lambda>heap_start s.
        obind (repeat_alloc kalloc_page 14 s) (\<lambda>_ s.
        kheap_init heap_start (heap_start + 0xF000) s))))"

text \<open>One round of the loop of \<^verbatim>\<open>test\<close>, up to the switch to the next thread.\<close>

definition test_round :: "'a boot_scheme \<Rightarrow> 'a boot_scheme" where
  "test_round s =
     (let s = tty_update (terminal_writestring ''In thread 2'') s
      in preempt (s\<lparr>cpu := regs_in_test s\<rparr>))"

text \<open>
  \<^verbatim>\<open>kthread_create\<close> ends in the new thread, which runs its first round and switches back to
  the main thread, where \<^verbatim>\<open>kernel_main\<close> goes on.
\<close>

definition boot_threads :: "'a boot_scheme \<Rightarrow> ('a boot_scheme, unit) outcome" where
  "boot_threads s =
     (let s = init_tasking s
      in obind (kmalloc 52 s) (\<lambda>kthread1 s.
         obind (kthread_create kthread1 (test_addr s) (s\<lparr>cpu := regs_in_create s\<rparr>)) (\<lambda>_ s.
         let s = test_round s
         in obind (kthread_join kthread1 s) (\<lambda>_ s.
            kfree kthread1 s))))"

text \<open>The fields \<^verbatim>\<open>minor\<close>, \<^verbatim>\<open>next\<close> and others of the device keep what the stack held.\<close>

definition boot_disk :: "'a boot_scheme \<Rightarrow> ('a boot_scheme, u16) outcome" where
  "boot_disk s =
     (let a = kmain_addr s Dev;
          dev = (bdevs s a)\<lparr>dev_ctl := 0x3F6, base := PRIMARY_BUS, start_lba := 0, slave_bit := 0\<rparr>;
          s = outb 0x1F3 0x88 s;
          (v, s) = inb 0x1F3 s;
          s = (if v = 0x88 then tty_update (terminal_writestring (''Primary controller exists'' @ [CHR 10])) s else s);
          s = outb 0x1F6 0xA0 s;
          (v, s) = inb 0x1F7 s;
          (v, s) = inb 0x1F7 s;
          (v, s) = inb 0x1F7 s;
          (v, s) = inb 0x1F7 s;
          s = (if v AND 0x40 \<noteq> 0 then tty_update (terminal_writestring (''Primary slave drive exists'' @ [CHR 10])) s else s)
      in obind (parse_mbr dev s) (\<lambda>dev s.
         let s = s\<lparr>bdevs := (bdevs s)(a := dev)\<rparr>;
             (dev_num, s) = add_bdev a s
         in obind (init_buffer s) (\<lambda>_ s. Done dev_num s)))"

text \<open>A call through the \<^verbatim>\<open>read_super\<close> pointer of a file system type; only \<^verbatim>\<open>ext2_read_super\<close> is ever stored there.\<close>

definition call_read_super :: "u32 \<Rightarrow> u32 \<Rightarrow> u16 \<Rightarrow> 'a boot_scheme \<Rightarrow> ('a boot_scheme, u32) outcome" where
  "call_read_super fn sb dev s = (if fn = ext2_read_super_addr s then ext2_read_super sb dev s else Faulted s)"

text \<open>
  The operations of \<^verbatim>\<open>ext2_inode_ops\<close> are constant: \<^verbatim>\<open>lookup\<close> is \<^verbatim>\<open>ext2_lookup\<close> and the \<^verbatim>\<open>read\<close>
  of \<^verbatim>\<open>default_file_ops\<close> is \<^verbatim>\<open>ext2_read\<close>.
\<close>

definition boot_files :: "u16 \<Rightarrow> 'a boot_scheme \<Rightarrow> ('a boot_scheme, unit) outcome" where
  "boot_files dev_num s =
     (let root_fs = kmain_addr s Root_fs; inode_tmp = kmain_addr s Inode_tmp;
          dest = kmain_addr s Dest; tmp_file = kmain_addr s Tmp_file; tmp_buff = kmain_addr s Tmp_buff;
          m = set_fs_read_super root_fs (ext2_read_super_addr s) (mem s);
          m = set_fs_name root_fs (literal s ''ext2'') m;
          m = set_fs_next root_fs 0 m
      in obind (init_fs call_read_super root_fs dev_num (s\<lparr>mem := m\<rparr>)) (\<lambda>_ s.
         obind (find_super_block (literal s ''ext2'') s) (\<lambda>sb s.
         let m = set_i_sb inode_tmp sb (mem s);
             m = set_i_dev inode_tmp (ucast dev_num) m;
             m = set_i_no inode_tmp 2 m;
             m = set_i_ops inode_tmp (ext2_inode_ops s) m
         in obind (kmalloc 52 (s\<lparr>mem := m\<rparr>)) (\<lambda>p s.
            obind (ext2_lookup inode_tmp (literal s ''file1.txt'') 9 dest (s\<lparr>mem := wr32 (mem s) dest p\<rparr>)) (\<lambda>_ s.
            let m = set_f_inode tmp_file (rd32 (mem s) dest) (mem s);
                m = set_f_name tmp_file (literal s ''file1.txt'') m;
                m = set_f_pos tmp_file 0 m;
                m = set_i_dev (rd32 m dest) (i_dev m inode_tmp) m
            in obind (find_super_block (literal s ''ext2'') (s\<lparr>mem := m\<rparr>)) (\<lambda>sb s.
               let s = s\<lparr>mem := set_i_sb (rd32 (mem s) dest) sb (mem s)\<rparr>
               in obind (ext2_read tmp_file tmp_buff 100 (tmp_file + 8) s) (\<lambda>_ s.
                  obind (terminal_writestring_at tmp_buff s) (\<lambda>_ s.
                  let s = tty_update (terminal_putchar 10) s
                  in Done () (tty_update (terminal_printhex32 (i_no (mem s) (rd32 (mem s) dest))) s)))))))))"

definition kernel_main :: "u32 \<Rightarrow> u32 \<Rightarrow> 'a boot_scheme \<Rightarrow> ('a boot_scheme, unit) outcome" where
  "kernel_main mbd esp s =
     obind (boot_interrupts mbd esp s) (\<lambda>_ s.
     obind (boot_memory s) (\<lambda>_ s.
     obind (boot_threads s) (\<lambda>_ s.
     obind (boot_disk s) (\<lambda>dev_num s.
     boot_files dev_num s))))"

text \<open>\<open>stack\<close> is the stack pointer the inline assembly reads; the jump to user mode is not modelled.\<close>

definition usermode_switch :: "u32 \<Rightarrow> 'a interrupts_scheme \<Rightarrow> 'a interrupts_scheme" where
  "usermode_switch stack s =
     (let s = tty_update (terminal_writestring ''stack'') s;
          s = tty_update (terminal_printhex32 stack) s
      in set_kernel_stack stack s)"

section \<open>Interrupts after boot\<close>

text \<open>The four routines are entered into \<^verbatim>\<open>irq_routines\<close> before the interrupt gates exist.\<close>

lemma install_routines:
  fixes s :: "'a boot_scheme"
  assumes "term_inv (tty s)"
  shows "\<exists>u. obind (keyboard_install s) (\<lambda>_ s. obind (timer_install s) (\<lambda>_ s. obind (timer_set_interval HZ s) (\<lambda>_ s.
      obind (rtc_install s) (\<lambda>_ s. obind (syscall_install s) (\<lambda>_ s. Done () (irq_install (irq_entry s) s)))))) =
      Done () (irq_install (irq_entry s) u) \<and> jiffies u = jiffies s \<and> idt u = idt s \<and>
    irq_routines u = (irq_routines s)(1 := Some keyboard_routine, 0 := Some timer_routine, 8 := Some rtc_routine,
       0x60 := Some syscall_routine) \<and> term_inv (tty u)"
  by (simp add: keyboard_install_def timer_install_def timer_set_interval_def rtc_install_def syscall_install_def
      irq_install_handler_def HZ_def outb_def inb_def split_beta Let_def del: fun_upd_apply)
    (rule exI, rule conjI, rule refl, simp add: assms term_inv_writestring)

lemma boot_interrupts_result:
  fixes s :: "'a boot_scheme"
  shows "\<exists>t. boot_interrupts mbd esp s = Done () t \<and> jiffies t = 0 \<and> term_inv (tty t) \<and>
    irq_routines t = (irq_routines s)(0 := Some timer_routine, 1 := Some keyboard_routine, 8 := Some rtc_routine,
      0x60 := Some syscall_routine) \<and>
    (\<forall>n. case vector_entry (isr_entry s) (irq_entry s) n of
       Some a \<Rightarrow> let g = idt t n in gate_offset g = a \<and> sel g = 0x08 \<and> gate_present g \<and> gate_dpl g = 3
     | None \<Rightarrow> \<not> gate_present (idt t n))"
proof -
  define s1 where "s1 = (tty_update terminal_initialize s)\<lparr>jiffies := 0\<rparr>"
  define s2 where "s2 = (if mbd_flags (mem s1) mbd \<noteq> 0 then s1\<lparr>memupper_size := mbd_mem_upper (mem s1) mbd\<rparr> else s1)"
  define s3 where "s3 = idt_install (isr_entry (gdt_install esp s2)) (gdt_install esp s2)"
  have more: "jiffies u = jiffies v" "isr_entry u = isr_entry v" "irq_entry u = irq_entry v"
    if "interrupts.more u = interrupts.more v" for u v :: "'a boot_scheme"
    using that by (cases u; cases v; simp)+
  have s2: "jiffies s2 = 0" "isr_entry s2 = isr_entry s" "irq_entry s2 = irq_entry s" "irq_routines s2 = irq_routines s"
    "term_inv (tty s2)"
    by (simp_all add: s2_def s1_def term_inv_initialize)
  have s3: "jiffies s3 = 0" "irq_entry s3 = irq_entry s" "irq_routines s3 = irq_routines s"
    "idt s3 = idt (idt_install (isr_entry s) (gdt_install esp s2))" "term_inv (tty s3)"
    using more [OF install_frames(4)] more [OF install_frames(6)] s2 unfolding s3_def by (simp_all add: install_frames install_tty)
  obtain u where u: "boot_interrupts mbd esp s = Done () (irq_install (irq_entry s) u)" "jiffies u = 0" "idt u = idt s3"
    "irq_routines u = (irq_routines s)(1 := Some keyboard_routine, 0 := Some timer_routine, 8 := Some rtc_routine,
       0x60 := Some syscall_routine)" "term_inv (tty u)"
    using install_routines [OF s3(5)]
    unfolding boot_interrupts_def Let_def s1_def [symmetric] s2_def [symmetric] s3_def [symmetric] s3(1-3) by blast
  have "idt u = idt (idt_install (isr_entry s) (gdt_install esp s2))" using u(3) s3(4) by simp
  note gates = installed_vectors [OF this, of "irq_entry s"]
  have "irq_routines u = (irq_routines s)(0 := Some timer_routine, 1 := Some keyboard_routine, 8 := Some rtc_routine,
      0x60 := Some syscall_routine)"
    using u(4) by (simp add: fun_upd_twist)
  then show ?thesis
    using u(1,2,5) more(1) [OF install_frames(5)] gates
    by (intro exI [of _ "irq_install (irq_entry s) u"]) (simp only: install_frames install_tty simp_thms)
qed

text \<open>C18: The first stage of \<^verbatim>\<open>kernel_main\<close> always completes. Then the timer, keyboard, clock and system-call routines are
  installed and no other entry of \<^verbatim>\<open>irq_routines\<close> has changed, the tick counter is zero, and every exception, interrupt request and the
  system-call interrupt has a present gate to its own entry point while every other gate is empty.\<close>

theorem boot_installs_handlers:
  fixes s :: "'a boot_scheme"
  shows "\<exists>t. boot_interrupts mbd esp s = Done () t \<and> jiffies t = 0 \<and>
    irq_routines t = (irq_routines s)(0 := Some timer_routine, 1 := Some keyboard_routine, 8 := Some rtc_routine,
      0x60 := Some syscall_routine) \<and>
    (\<forall>n. case vector_entry (isr_entry s) (irq_entry s) n of
       Some a \<Rightarrow> let g = idt t n in gate_offset g = a \<and> sel g = 0x08 \<and> gate_present g \<and> gate_dpl g = 3
     | None \<Rightarrow> \<not> gate_present (idt t n))"
  using boot_interrupts_result [of mbd esp s] by blast

lemma boot_handlers_installed:
  assumes "boot_interrupts mbd esp s = Done () t" and "\<forall>n < 16. irq_routines s n = None"
  shows "handlers_installed t" "jiffies t = 0" "term_inv (tty t)"
  using boot_interrupts_result [of mbd esp s] assms by (auto simp: handlers_installed_def)

text \<open>C6: After the first stage of \<^verbatim>\<open>kernel_main\<close>, started with an empty table of routines, whatever sequence of hardware interrupts and
  system calls is handled in which no time call passes a pointer: the tick counter is the number of timer interrupts, every hardware interrupt has been
  acknowledged exactly once at the master controller and no system call has, memory other than the stack and the screen is unchanged,
  the cursor is on the screen, and the kernel's state but that of the device drivers (frames, pages, heap, tables) is as it was. A time call with a pointer is
  excluded because \<^verbatim>\<open>sys_time\<close> stores through it unchecked and may hit any variable of the kernel.
\<close>

theorem interrupts_after_boot:
  fixes s t u :: "'a boot_scheme"
  assumes "boot_interrupts mbd esp s = Done () t" and "\<forall>n < 16. irq_routines s n = None" and "interrupted t rs u"
    and no_pointer: "\<forall>r \<in> set rs. int_no r = 0x80 \<and> r_eax r = 13 \<longrightarrow> r_ebx r = 0"
  shows "same_kernel t u \<and> jiffies u = of_nat (length (filter (\<lambda>r. int_no r = 32) rs)) \<and>
    acks (io_log u) = acks (io_log t) + length (filter (\<lambda>r. int_no r \<noteq> 0x80) rs) \<and> mem u = mem t \<and>
    terminal_row (tty u) < 25 \<and> terminal_column (tty u) < 80"
proof -
  have "\<forall>r \<in> set rs. time_store r = {}" using no_pointer by (auto simp: time_store_def)
  moreover note interrupted_effect [OF assms(3) boot_handlers_installed(1) [OF assms(1,2)]]
  ultimately show ?thesis using boot_handlers_installed(2,3) [OF assms(1,2)]
    by (auto simp: interrupt_effect_def term_inv_def VGA_WIDTH_def VGA_HEIGHT_def)
qed

section \<open>The heap after boot\<close>

lemma paging_ok_prefix:
  assumes "frames_ok s" "tables_ok s" "kernel_mapped s" "pages_prefix k s" "k < 1024"
  shows "paging_ok s"
  using assms unfolding paging_ok_def pages_prefix_def by (metis less_irrefl)

lemma kalloc_page_frame:
  assumes "frames_ok s" and "kalloc_page s = Done p t"
  shows "nframes t = nframes s" "paging.more t = paging.more s" "kernel_page_dir t = kernel_page_dir s"
    "first_page_table t = first_page_table s"
  using kalloc_page_shape [OF assms] by (auto simp: set_frame_def)

lemma repeat_kalloc_page_ok:
  assumes "paging_ok s" and "repeat_alloc kalloc_page n s = Done ps t"
  shows "paging_ok t \<and> kernel_page_dir t = kernel_page_dir s \<and> first_page_table t = first_page_table s \<and>
    nframes t = nframes s \<and> paging.more t = paging.more s"
  using assms
proof (induction n arbitrary: s ps)
  case (Suc n)
  then obtain p u qs where p: "kalloc_page s = Done p u" and q: "repeat_alloc kalloc_page n u = Done qs t"
    by (auto simp: obind_Done_iff)
  have "frames_ok s" using Suc.prems(1) by (simp add: paging_ok_def)
  from Suc.IH [OF kalloc_page_ok [OF Suc.prems(1) p] q] kalloc_page_frame [OF this p] show ?case by simp
qed simp

text \<open>Clearing and formatting the heap writes only inside it.\<close>

lemma kheap_init_outside:
  assumes "kheap_init start end s = Done () t" and "end - start \<le> x - start" and "16 \<le> end - start"
  shows "mem t x = mem s x"
proof -
  have "16 \<le> x - start" using assms(2,3) by simp
  then have "4 \<le> x - start" "4 \<le> x - (start + 4)" "4 \<le> x - (start + 8)" "4 \<le> x - (start + 12)" "x \<noteq> start"
    by (uint_arith | auto)+
  then show ?thesis using assms(1,2)
    by (auto simp: kheap_init_def Let_def header_defs wr32_other memset_eq)
qed


lemma entry_below_heap:
  assumes t: "page_aligned a" "KERNEL_VIRTUAL_BASE \<le> a" "a < start" and start: "unat start mod 4096 = 0" "start < 0xC0400000"
    and run: "kheap_init start (start + 0xF000) s = Done () t" and j: "j < 1024"
  shows "entry (mem t) a j = entry (mem s) a j"
proof -
  have a: "unat a mod 4096 = 0" "0xC0000000 \<le> unat a" "unat a < unat start" "unat start < 0xC0400000"
    using t start by (simp_all add: page_aligned_unat KERNEL_VIRTUAL_BASE_def word_le_nat_alt word_less_nat_alt)
  have "4096 dvd unat start - unat a" using a(1) start(1) by (intro dvd_diff_nat) (simp_all add: mod_0_imp_dvd)
  then have below: "unat a + 4096 \<le> unat start" using a(3) dvd_imp_le [of 4096 "unat start - unat a"] by simp
  have "mem t (a + 4 * j + i) = mem s (a + 4 * j + i)" if "i < 4" for i
  proof (rule kheap_init_outside [OF run])
    define x where "x = a + 4 * j + i"
    have jn: "unat j < 1024" "unat i < 4" using j that by (simp_all add: word_less_nat_alt)
    have "unat x = unat a + 4 * unat j + unat i"
      using a jn by (simp add: x_def unat_word_ariths)
    then have "unat x < unat start" "0xC0000000 \<le> unat x" using a below jn by linarith+
    then have "0xF000 \<le> unat (x - start)" using a(4) by (simp add: unat_sub_if')
    then show "start + 0xF000 - start \<le> a + 4 * j + i - start"
      unfolding x_def [symmetric] by (simp add: word_le_nat_alt)
  qed simp
  from this [of 0] this [of 1] this [of 2] this [of 3] show ?thesis by (simp add: entry_def rd32_def)
qed


text \<open>The fifteen pages of the heap, and the heap on them.\<close>

definition heap_page :: "u32 \<Rightarrow> u32" where "heap_page k = KERNEL_VIRTUAL_BASE + k * 0x1000"

lemma unat_heap_page: "unat k < 1024 \<Longrightarrow> unat (heap_page k) = 0xC0000000 + unat k * 4096"
  by (simp add: heap_page_def KERNEL_VIRTUAL_BASE_def unat_word_ariths)

lemma heap_pages:
  assumes "pages_prefix k v" "prefix_used f v" "frames_ok v" "tables_ok v" "kernel_mapped v"
    and room: "unat k + 15 < 1024" "unat f + 15 \<le> unat (nframes v)"
  obtains x ps w where "kalloc_page v = Done (heap_page k) x" "repeat_alloc kalloc_page 14 x = Done ps w"
    "pages_prefix (k + 15) w" "paging_ok w" "kernel_page_dir w = kernel_page_dir v" "first_page_table w = first_page_table v"
    "prefix_used (f + 15) w" "nframes w = nframes v" "paging.more w = paging.more v"
proof -
  obtain w where w: "repeat_alloc kalloc_page (Suc 14) v = Done (map (\<lambda>i. heap_page (k + of_nat i)) [0..<Suc 14]) w"
    "pages_prefix (k + of_nat (Suc 14)) w" "prefix_used (f + of_nat (Suc 14)) w"
    using kalloc_pages_contiguous [OF assms(3,1,2), of "Suc 14"] room unfolding heap_page_def by auto
  have "paging_ok v" using paging_ok_prefix [OF assms(3-5,1)] room(1) by (simp add: word_less_nat_alt)
  note ok = repeat_kalloc_page_ok [OF this w(1)]
  have "[0..<Suc 14] = 0 # [Suc 0..<Suc 14]" by (rule upt_conv_Cons) simp
  then have "repeat_alloc kalloc_page (Suc 14) v =
      Done (heap_page k # map (\<lambda>i. heap_page (k + of_nat i)) [Suc 0..<Suc 14]) w"
    using w(1) by (simp only: list.map) simp
  from this [unfolded repeat_alloc.simps obind_Done_iff]
  obtain x ps where "kalloc_page v = Done (heap_page k) x" "repeat_alloc kalloc_page 14 x = Done ps w" by auto
  then show thesis using that w(2,3) ok by simp
qed

lemma heap_on_pages:
  assumes pages: "pages_prefix (k + 15) w" "paging_ok w" and room: "unat k + 15 < 1024"
    and tabs: "{kernel_page_dir w, first_page_table w} \<subseteq> {KERNEL_VIRTUAL_BASE..<heap_page k}"
  shows "\<exists>t. kheap_init (heap_page k) (heap_page k + 0xF000) w = Done () t \<and> first t = heap_page k \<and>
    heap_ok t [(False, 0xEFF0)] \<and> tables_ok t \<and> kernel_mapped t \<and> pages_prefix (k + 15) t"
proof -
  define start where "start = heap_page k"
  have us: "unat start = 0xC0000000 + unat k * 4096" using room by (simp add: start_def unat_heap_page)
  then have st: "4 dvd unat start" "4 dvd unat (start + 0xF000)" "start \<le> start + 0xF000" "0 < start"
    "unat (start + 0xF000) - unat start = 0xF000" "start < 0xC0400000" "unat start mod 4096 = 0"
    using room by (simp_all add: unat_word_ariths word_le_nat_alt word_less_nat_alt dvd_add)
  obtain t where t: "kheap_init start (start + 0xF000) w = Done () t" "first t = start" "heap_ok t [(False, 0xEFF0)]"
    using kheap_init_ok [OF st(4,3) _ st(1,2), of w] st(5) by auto
  have same: "kernel_page_dir t = kernel_page_dir w" "first_page_table t = first_page_table w" "next_free_page t = next_free_page w"
    using t(1) by (auto simp: kheap_init_def Let_def)
  have ok: "tables_ok w" "kernel_mapped w" using pages(2) by (simp_all add: paging_ok_def)
  have e: "entry (mem t) a j = entry (mem w) a j" if "a \<in> {kernel_page_dir w, first_page_table w}" "j < 1024" for a j
  proof (rule entry_below_heap [OF _ _ _ st(7,6) t(1) that(2)])
    show "page_aligned a" using ok(1) that(1) by (auto simp: tables_ok_def)
    show "KERNEL_VIRTUAL_BASE \<le> a" "a < start" using tabs that(1) by (auto simp: start_def)
  qed
  have "tables_ok t" "kernel_mapped t" "pages_prefix (k + 15) t"
    using ok pages(1) same e [of "kernel_page_dir w" KERNEL_PAGE_NUMBER] e [of "first_page_table w"]
    by (simp_all add: tables_ok_def kernel_mapped_def KERNEL_PAGE_NUMBER_def KERNEL_VIRTUAL_BASE_def pages_prefix_def)
  then show ?thesis using t unfolding start_def by blast
qed

lemma heap_pages_mapped:
  assumes ok: "tables_ok t" "kernel_mapped t" "pages_prefix (k + 15) t" and room: "unat k + 15 < 1024" and d: "d < 0xF000"
  shows "phys t (heap_page k + d) \<noteq> None"
proof -
  define x where "x = k * 0x1000 + d"
  have ux: "unat x = unat k * 4096 + unat d" "unat d < 61440"
    using d room by (simp_all add: x_def unat_word_ariths word_less_nat_alt)
  then have "unat (x div 0x1000) < unat k + 15" by (simp add: unat_div)
  then have x: "x < 0x400000" "x div 0x1000 < 1024" "x div 0x1000 < k + 15"
    using ux room by (simp_all add: word_less_nat_alt unat_word_ariths)
  then have "PAGE_PRESENT (entry (mem t) (first_page_table t) (x div 0x1000))" using ok(3) by (simp add: pages_prefix_def)
  then show ?thesis
    using phys_kernel [OF ok(1,2) x(1)] by (simp add: heap_page_def x_def Let_def add.assoc)
qed

text \<open>The conditions under which the memory stage starts: the kernel ends below the \<open>k\<close>th page, there is room for the heap
  behind it in the page table and in memory, the page tables are inside the kernel and clear above it.\<close>

definition memory_room :: "u32 \<Rightarrow> 'a boot_scheme \<Rightarrow> bool" where
  "memory_room k s \<longleftrightarrow> k = ((endkernel s AND 0x00FFF000) + 0x1000) div 0x1000 \<and> (endkernel s AND 0x00FFF000) + 0x1000 \<le> 0x400000 \<and>
     unat k + 15 < 1024 \<and> unat k + 15 \<le> unat (memupper_size s div 4) \<and> memupper_size s div 4 \<le> 0x40000 \<and>
     (\<forall>i < 0x40000. 8 * (unat (memupper_size s div 4) div 8) \<le> unat i \<longrightarrow> \<not> frame_used s i) \<and>
     tables_ok s \<and> {kernel_page_dir s, first_page_table s} \<subseteq> {KERNEL_VIRTUAL_BASE..<heap_page k} \<and>
     (\<forall>j < 1024. k \<le> j \<longrightarrow> \<not> PAGE_PRESENT (entry (mem s) (first_page_table s) j))"

lemma boot_memory_result:
  fixes s :: "'a boot_scheme"
  assumes "memory_room k s"
  shows "\<exists>t. boot_memory s = Done () t \<and> first t = heap_page k \<and> heap_ok t [(False, 0xEFF0)] \<and>
    tables_ok t \<and> kernel_mapped t \<and> pages_prefix (k + 15) t \<and> prefix_used (k + 15) t \<and> frames_ok t \<and>
    nframes t = memupper_size s div 4 \<and> kernel_page_dir t = kernel_page_dir s \<and> first_page_table t = first_page_table s \<and>
    heap.more t = heap.more s"
proof -
  have k: "k = ((endkernel s AND 0x00FFF000) + 0x1000) div 0x1000" "(endkernel s AND 0x00FFF000) + 0x1000 \<le> 0x400000"
    and room: "unat k + 15 < 1024" "unat k + 15 \<le> unat (memupper_size s div 4)" "memupper_size s div 4 \<le> 0x40000"
    and map: "\<forall>i < 0x40000. 8 * (unat (memupper_size s div 4) div 8) \<le> unat i \<longrightarrow> \<not> frame_used s i"
    and tabs: "tables_ok s" "{kernel_page_dir s, first_page_table s} \<subseteq> {KERNEL_VIRTUAL_BASE..<heap_page k}"
    and clear: "\<forall>j < 1024. k \<le> j \<longrightarrow> \<not> PAGE_PRESENT (entry (mem s) (first_page_table s) j)"
    using assms unfolding memory_room_def by blast+
  obtain fm where f: "init_frames (endkernel s) (memupper_size s) s = Done () (s\<lparr>nframes := memupper_size s div 4, frame_map := fm\<rparr>)"
    "prefix_used k (s\<lparr>nframes := memupper_size s div 4, frame_map := fm\<rparr>)" "frames_ok (s\<lparr>nframes := memupper_size s div 4, frame_map := fm\<rparr>)"
    using init_frames_prefix [of "endkernel s" "memupper_size s" s] room map
    by (auto simp: Let_def k(1) [symmetric] word_less_nat_alt)
  define s1 where "s1 = s\<lparr>nframes := memupper_size s div 4, frame_map := fm\<rparr>"
  have s1: "tables_ok s1" "mem s1 = mem s" "first_page_table s1 = first_page_table s" "kernel_page_dir s1 = kernel_page_dir s"
    "endkernel s1 = endkernel s" "nframes s1 = memupper_size s div 4" "heap.more s1 = heap.more s"
    using tabs(1) by (simp_all add: s1_def tables_ok_def)
  obtain u where u: "init_paging (endkernel s) s1 = Done () u" "pages_prefix k u" "prefix_used k u" "frames_ok u"
    "nframes u = nframes s1" "tables_ok u" "kernel_mapped u" "kernel_page_dir u = kernel_page_dir s" "first_page_table u = first_page_table s"
    using init_paging_prefix [OF s1(1) f(3,2) [folded s1_def] k] clear s1 by metis
  define v where "v = tty_update (terminal_writestring ''paging initialized'') u"
  have v: "pages_prefix k v" "prefix_used k v" "frames_ok v" "tables_ok v" "kernel_mapped v" "nframes v = nframes s1"
    "kernel_page_dir v = kernel_page_dir s" "first_page_table v = first_page_table s"
    using u by (simp_all add: v_def pages_prefix_def prefix_used_def frame_used_def frames_ok_def tables_ok_def kernel_mapped_def)
  have vm: "heap.more v = heap.more s"
    using u(1) s1(7) by (auto simp: v_def init_paging_def loadPageDir_def Let_def split: if_splits)
  have "unat k + 15 \<le> unat (nframes v)" using room(2) v(6) s1(6) by simp
  then obtain x ps w where x: "kalloc_page v = Done (heap_page k) x" "repeat_alloc kalloc_page 14 x = Done ps w"
    "pages_prefix (k + 15) w" "paging_ok w" "kernel_page_dir w = kernel_page_dir s" "first_page_table w = first_page_table s"
    "prefix_used (k + 15) w" "nframes w = nframes v" "paging.more w = paging.more v"
    using heap_pages [OF v(1-5) room(1)] v(7,8) by metis
  obtain t where t: "kheap_init (heap_page k) (heap_page k + 0xF000) w = Done () t" "first t = heap_page k"
    "heap_ok t [(False, 0xEFF0)]" "tables_ok t" "kernel_mapped t" "pages_prefix (k + 15) t"
    using heap_on_pages [OF x(3,4) room(1)] tabs(2) x(5,6) by auto
  have "heap.more w = heap.more v" using x(9) by (cases w; cases v) simp
  then have "prefix_used (k + 15) t" "frames_ok t" "nframes t = memupper_size s div 4" "kernel_page_dir t = kernel_page_dir s"
    "first_page_table t = first_page_table s" "heap.more t = heap.more s"
    using t(1) x(4-8) v(6) vm s1(6) by (auto simp: kheap_init_def Let_def prefix_used_def frame_used_def paging_ok_def frames_ok_def)
  moreover have "boot_memory s = Done () t"
    by (simp add: boot_memory_def f(1) s1_def [symmetric] s1 u(1) v_def [symmetric] x(1,2) t(1))
  ultimately show ?thesis using t(2-6) by blast
qed

text \<open>C8: The memory stage of \<^verbatim>\<open>kernel_main\<close> completes, for a kernel that ends below 4 MiB minus 15 pages, with its
  page tables inside it and clear above it, in a memory with 15 more frames (at most 1 GiB): the heap is then
  one free block on the 60 KiB behind the kernel, every byte of which is mapped.\<close>

theorem boot_heap_ready:
  fixes s :: "'a boot_scheme"
  assumes "memory_room k s"
  shows "\<exists>t. boot_memory s = Done () t \<and> first t = heap_page k \<and> heap_ok t [(False, 0xEFF0)] \<and>
    (\<forall>d < 0xF000. phys t (heap_page k + d) \<noteq> None)"
proof -
  have "unat k + 15 < 1024" using assms unfolding memory_room_def by blast
  then show ?thesis using boot_memory_result [OF assms] heap_pages_mapped by metis
qed

text \<open>A kernel that ends at \<^verbatim>\<open>0xC0112345\<close> in 4 MiB of memory.\<close>

definition sample_boot :: boot where
  "sample_boot = (ext2.extend sample_ext2 (boot.fields 4096 0xC0112345 (\<lambda>_. 0) (\<lambda>_. 0) (\<lambda>_. 0) 0 0 (cpu sample_ext2) (cpu sample_ext2)))
     \<lparr>mem := \<lambda>_. 0, frame_map := \<lambda>_. 0, kernel_page_dir := 0xC0101000, first_page_table := 0xC0102000\<rparr>"

lemma sample_boot_room: "memory_room 0x113 sample_boot"
proof -
  have b: "endkernel sample_boot = 0xC0112345" "memupper_size sample_boot = 4096" "mem sample_boot = (\<lambda>_. 0)"
    "frame_map sample_boot = (\<lambda>_. 0)" "kernel_page_dir sample_boot = 0xC0101000" "first_page_table sample_boot = 0xC0102000"
    by (simp_all add: sample_boot_def ext2.extend_def boot.fields_def)
  show ?thesis
    by (simp add: memory_room_def b frame_used_def tables_ok_def page_aligned_def KERNEL_VIRTUAL_BASE_def heap_page_def PAGE_PRESENT_def
        entry_def rd32_def)
qed

theorem boot_heap_ready_witness:
  "\<exists>t. boot_memory sample_boot = Done () t \<and> first t = 0xC0113000 \<and> heap_ok t [(False, 0xEFF0)] \<and> phys t 0xC0121FFF \<noteq> None"
  using boot_heap_ready [OF sample_boot_room] by (auto simp: heap_page_def KERNEL_VIRTUAL_BASE_def dest: spec [of _ "0xEFFF"])

theorem interrupts_after_boot_witness:
  "\<exists>r t u. boot_interrupts 0 0xC0109000 (sample_boot\<lparr>irq_routines := \<lambda>_. None\<rparr>) = Done () t \<and> interrupted t [r, r, r] u \<and>
     jiffies u = 3 \<and> acks (io_log u) = acks (io_log t) + 3 \<and> mem u = mem t"
proof -
  define s where "s = sample_boot\<lparr>irq_routines := \<lambda>_. None\<rparr>"
  define r :: regs where "r = regs.make 0 0 0 0 0 0 0 0 0 0 0 0 32 0 0 0 0 0 0"
  have r: "int_no r = 32" by (simp add: r_def regs.make_def)
  have none: "\<forall>n < 16. irq_routines s n = None" by (simp add: s_def)
  obtain t where t: "boot_interrupts 0 0xC0109000 s = Done () t" using boot_interrupts_result by blast
  obtain u where "interrupted t (replicate 3 r) u" using ticks_complete [OF boot_handlers_installed(1) [OF t none] r] by blast
  then have u: "interrupted t [r, r, r] u" by (simp add: numeral_3_eq_3)
  have "jiffies u = 3 \<and> acks (io_log u) = acks (io_log t) + 3 \<and> mem u = mem t"
    using interrupts_after_boot [OF t none u] r by auto
  then show ?thesis using t u unfolding s_def by blast
qed

end
