(* ===== verification/Layout.thy ===== *)
theory Layout
  imports Boot
begin

text \<open>
  The structure declarations of the headers and where the compiler puts their members. The other theories
  read and write members at literal offsets; here the declarations of \<^verbatim>\<open>include/\<close> are data, the layout rules
  of the i686 ABI are functions on them, and the literal offset in each member accessor is shown to be the one the
  declaration gives. For any declaration, members lie in the structure, in order and apart from each other.
\<close>

section \<open>Layout\<close>

text \<open>
  \<open>Agg n a\<close> is a nested structure of size \<open>n\<close> and alignment \<open>a\<close>. The integer types are those of
  \<^verbatim>\<open>include/types.h\<close>; \<^verbatim>\<open>bool\<close> has one byte, \<^verbatim>\<open>unsigned long\<close> and pointers have four.
\<close>

datatype ctype = Int8 | Int16 | Int32 | Pointer | Arr ctype nat | Agg nat nat

type_synonym members = "(string \<times> ctype) list"

datatype decl = Packed members | Natural members | Union members

primrec csize :: "ctype \<Rightarrow> nat" where
  "csize Int8 = 1"
| "csize Int16 = 2"
| "csize Int32 = 4"
| "csize Pointer = 4"
| "csize (Arr t n) = n * csize t"
| "csize (Agg n a) = n"

primrec calign :: "ctype \<Rightarrow> nat" where
  "calign Int8 = 1"
| "calign Int16 = 2"
| "calign Int32 = 4"
| "calign Pointer = 4"
| "calign (Arr t n) = calign t"
| "calign (Agg n a) = a"

definition round_up :: "nat \<Rightarrow> nat \<Rightarrow> nat" where
  "round_up a n = (n + a - 1) div a * a"

text \<open>The members behind offset \<open>p\<close>, with their offsets and types, and the offset behind the last one.\<close>

fun place :: "bool \<Rightarrow> nat \<Rightarrow> members \<Rightarrow> (string \<times> nat \<times> ctype) list" where
  "place packed p [] = []"
| "place packed p ((f, t) # fs) =
     (let a = (if packed then p else round_up (calign t) p) in (f, a, t) # place packed (a + csize t) fs)"

fun extent_of :: "bool \<Rightarrow> nat \<Rightarrow> members \<Rightarrow> nat" where
  "extent_of packed p [] = p"
| "extent_of packed p ((f, t) # fs) =
     extent_of packed ((if packed then p else round_up (calign t) p) + csize t) fs"

definition max_align :: "members \<Rightarrow> nat" where
  "max_align fs = fold max (map (calign \<circ> snd) fs) 1"

fun alignof :: "decl \<Rightarrow> nat" where
  "alignof (Packed fs) = 1"
| "alignof (Natural fs) = max_align fs"
| "alignof (Union fs) = max_align fs"

fun sizeof :: "decl \<Rightarrow> nat" where
  "sizeof (Packed fs) = extent_of True 0 fs"
| "sizeof (Natural fs) = round_up (max_align fs) (extent_of False 0 fs)"
| "sizeof (Union fs) = round_up (max_align fs) (fold max (map (csize \<circ> snd) fs) 0)"

fun placed :: "decl \<Rightarrow> (string \<times> nat \<times> ctype) list" where
  "placed (Packed fs) = place True 0 fs"
| "placed (Natural fs) = place False 0 fs"
| "placed (Union fs) = map (\<lambda>(f, t). (f, 0, t)) fs"

definition nested :: "decl \<Rightarrow> ctype" where
  "nested d = Agg (sizeof d) (alignof d)"

text \<open>The offset of a declared member, as an address distance.\<close>

definition offsetof :: "decl \<Rightarrow> string \<Rightarrow> u32" where
  "offsetof d f = of_nat (case map_of (placed d) f of Some (a, t) \<Rightarrow> a | None \<Rightarrow> sizeof d)"

section \<open>The declarations\<close>

definition struct_mem_block :: decl where
  "struct_mem_block = Natural [(''used'', Int8), (''prev'', Pointer), (''next'', Pointer), (''size'', Int32)]"

definition Registers :: decl where
  "Registers = Natural (map (\<lambda>r. (r, Int32))
     [''eax'', ''ebx'', ''ecx'', ''edx'', ''esi'', ''edi'', ''esp'', ''ebp'', ''eip'', ''eflags'', ''cr3''])"

definition kthread_t :: decl where
  "kthread_t = Natural [(''regs'', nested Registers), (''virtual_addr'', Int32), (''next'', Pointer)]"

definition struct_gdt_entry :: decl where
  "struct_gdt_entry = Packed [(''limit_low'', Int16), (''base_low'', Int16), (''base_middle'', Int8), (''access'', Int8),
     (''granularity'', Int8), (''base_high'', Int8)]"

definition struct_tss :: decl where
  "struct_tss = Packed (map (\<lambda>r. (r, Int32))
     [''prev_tss'', ''esp0'', ''ss0'', ''esp1'', ''ss1'', ''esp2'', ''ss2'', ''cr3'', ''eip'', ''eflags'', ''eax'', ''ecx'', ''edx'', ''ebx'',
      ''esp'', ''ebp'', ''esi'', ''edi'', ''es'', ''cs'', ''ss'', ''ds'', ''fs'', ''gs'', ''ldt''] @
     [(''trap'', Int16), (''iomap_base'', Int16)])"

definition struct_idt_entry :: decl where
  "struct_idt_entry = Packed [(''base_lo'', Int16), (''sel'', Int16), (''always0'', Int8), (''flags'', Int8), (''base_hi'', Int16)]"

definition struct_buffer_head :: decl where
  "struct_buffer_head = Natural [(''flags'', Int8), (''block_num'', Int32), (''dirty'', Int8), (''dev'', Int16), (''count'', Int32),
     (''next'', Pointer), (''prev'', Pointer), (''next_free'', Pointer), (''prev_free'', Pointer), (''buff'', Arr Int8 512)]"

definition mbr_t :: decl where
  "mbr_t = Packed [(''bootstrap'', Arr Int8 436), (''disk_id'', Arr Int8 10), (''partition_table_entry0'', Arr Int8 16),
     (''partition_table_entry1'', Arr Int8 16), (''partition_table_entry2'', Arr Int8 16), (''partition_table_entry3'', Arr Int8 16),
     (''signature'', Int16)]"

subsection \<open>The virtual file system\<close>

definition struct_file_operations :: decl where
  "struct_file_operations = Natural (map (\<lambda>f. (f, Pointer)) [''write'', ''read'', ''open'', ''release''])"

definition struct_inode_operations :: decl where
  "struct_inode_operations = Natural (map (\<lambda>f. (f, Pointer))
     [''default_file_ops'', ''create'', ''lookup'', ''link'', ''unlink'', ''symlink'', ''mkdir'', ''rmdir'', ''mknod'', ''rename'', ''readlink'',
      ''follow_link'', ''bmap'', ''truncate'', ''permission'', ''read_dir''])"

definition struct_inode :: decl where
  "struct_inode = Natural [(''dev'', Int32), (''i_no'', Int32), (''size'', Int32), (''i_ops'', Pointer), (''i_sb'', Pointer),
     (''gid'', Int32), (''uid'', Int32), (''flags'', Int32), (''permissions'', Int32), (''mount_point'', Int8),
     (''counter'', Int32), (''next'', Pointer), (''prev'', Pointer)]"

definition struct_super_operations :: decl where
  "struct_super_operations = Natural (map (\<lambda>f. (f, Pointer))
     [''read_inode'', ''write_inode'', ''put_inode'', ''put_super'', ''write_super'', ''remount_fs''])"

definition struct_super_block :: decl where
  "struct_super_block = Natural [(''dev'', Int16), (''fs_type'', Pointer), (''sb_ops'', Pointer), (''mount_point'', Pointer),
     (''root'', Pointer), (''next'', Pointer)]"

definition struct_file_system_type :: decl where
  "struct_file_system_type = Natural [(''read_super'', Pointer), (''name'', Pointer), (''next'', Pointer)]"

definition struct_file :: decl where
  "struct_file = Natural [(''f_inode'', Pointer), (''name'', Pointer), (''pos'', Int32)]"

definition struct_dentry :: decl where
  "struct_dentry = Natural [(''name'', Pointer), (''inode'', Pointer), (''sb'', Pointer), (''mounted'', Int8), (''count'', Int32),
     (''child'', Pointer), (''next'', Pointer), (''prev'', Pointer)]"

subsection \<open>Ext2 on the disk\<close>

definition ext2_superblock_t :: decl where
  "ext2_superblock_t = Packed [(''inode_count'', Int32), (''block_count'', Int32), (''res_block_count'', Int32),
     (''free_block_count'', Int32), (''free_inode_count'', Int32), (''superblock_num'', Int32), (''block_size'', Int32),
     (''fragment_size'', Int32), (''blocks_per_group'', Int32), (''fragments_per_group'', Int32), (''inodes_per_group'', Int32),
     (''last_mount_time'', Int32), (''last_written_time'', Int32), (''mount_count'', Int16), (''allowed_mount_count'', Int16),
     (''ext2_signature'', Int16), (''fs_state'', Int16), (''error_handle_info'', Int16), (''minor_version'', Int16),
     (''last_consistency_check'', Int32), (''check_interval'', Int32), (''os_id'', Int32), (''major_version'', Int32),
     (''res_uid'', Int16), (''res_gid'', Int16)]"

definition ext2_extended_superblock_t :: decl where
  "ext2_extended_superblock_t = Packed [(''base_sb'', nested ext2_superblock_t), (''first_inode'', Int32), (''inode_size'', Int16),
     (''partof_block_group'', Int16), (''optional_features'', Int32), (''required_features'', Int32), (''features_RO'', Int32),
     (''fs_id'', Arr Int8 16), (''vol_name'', Arr Int8 16), (''last_mounted_vol'', Arr Int8 64), (''compression_algorithms'', Int32),
     (''file_prealloc_blocks'', Int8), (''directory_prealloc_blocks'', Int8), (''unused'', Int16), (''journal_id'', Arr Int8 16),
     (''journal_inode'', Int32), (''journal_device'', Int32), (''orphan_inode_head'', Int32), (''extra'', Arr Int8 788)]"

definition ext2_bgd_t :: decl where
  "ext2_bgd_t = Packed [(''block_usage_bitmap'', Int32), (''inode_usage_bitmap'', Int32), (''inode_table'', Int32),
     (''free_block_count'', Int16), (''free_inode_count'', Int16), (''directory_count'', Int16), (''unused'', Arr Int8 14)]"

definition ext2_inode_t :: decl where
  "ext2_inode_t = Packed [(''type_permissions'', Int16), (''uid'', Int16), (''size_low'', Int32), (''last_access'', Int32),
     (''creation'', Int32), (''last_mod'', Int32), (''deletion'', Int32), (''gid'', Int16), (''hard_links_count'', Int16),
     (''used_sectors_count'', Int32), (''flags'', Int32), (''reserved0'', Int32), (''direct_block'', Arr Int32 12),
     (''singly_indirect_block'', Int32), (''doubly_indirect_block'', Int32), (''triply_indirect_block'', Int32),
     (''gen_number'', Int32), (''reserved1'', Int32), (''reserved2'', Int32), (''fragment_blockaddr'', Int32), (''os_spec'', Arr Int32 3)]"

definition ext2_directory_entry_t :: decl where
  "ext2_directory_entry_t = Packed [(''inode'', Int32), (''entry_size'', Int16), (''name_length'', Int8), (''type'', Int8)]"

subsection \<open>Multiboot\<close>

definition multiboot_header_t :: decl where
  "multiboot_header_t = Natural (map (\<lambda>f. (f, Int32))
     [''magic'', ''flags'', ''checksum'', ''header_addr'', ''load_addr'', ''load_end_addr'', ''bss_end_addr'', ''entry_addr''])"

definition aout_symbol_table_t :: decl where
  "aout_symbol_table_t = Natural (map (\<lambda>f. (f, Int32)) [''tabsize'', ''strsize'', ''addr'', ''reserved''])"

definition elf_section_header_table_t :: decl where
  "elf_section_header_table_t = Natural (map (\<lambda>f. (f, Int32)) [''num'', ''size'', ''addr'', ''shndx''])"

definition multiboot_info_t :: decl where
  "multiboot_info_t = Natural [(''flags'', Int32), (''mem_lower'', Int32), (''mem_upper'', Int32), (''boot_device'', Int32),
     (''cmdline'', Int32), (''mods_count'', Int32), (''mods_addr'', Int32),
     (''u'', nested (Union [(''aout_sym'', nested aout_symbol_table_t), (''elf_sec'', nested elf_section_header_table_t)])),
     (''mmap_length'', Int32), (''mmap_addr'', Int32)]"

definition memory_map_t :: decl where
  "memory_map_t = Natural (map (\<lambda>f. (f, Int32))
     [''size'', ''base_addr_low'', ''base_addr_high'', ''length_low'', ''length_high'', ''type''])"

lemmas decl_defs = struct_mem_block_def Registers_def kthread_t_def struct_gdt_entry_def struct_tss_def struct_idt_entry_def
  struct_buffer_head_def mbr_t_def struct_file_operations_def struct_inode_operations_def struct_inode_def
  struct_super_operations_def struct_super_block_def struct_file_system_type_def struct_file_def struct_dentry_def
  ext2_superblock_t_def ext2_extended_superblock_t_def ext2_bgd_t_def ext2_inode_t_def ext2_directory_entry_t_def
  multiboot_header_t_def aout_symbol_table_t_def elf_section_header_table_t_def multiboot_info_t_def memory_map_t_def

lemmas layout_defs = decl_defs nested_def offsetof_def max_align_def round_up_def

section \<open>Members are in order and apart\<close>

lemma round_up_le: "0 < a \<Longrightarrow> n \<le> round_up a n"
proof -
  assume a: "0 < a"
  have "n + a - 1 = (n + a - 1) div a * a + (n + a - 1) mod a" by simp
  moreover have "(n + a - 1) mod a < a" using a by simp
  ultimately show ?thesis using a unfolding round_up_def by linarith
qed

lemma extent_of_ge: "\<forall>(f, t) \<in> set fs. 0 < calign t \<Longrightarrow> p \<le> extent_of packed p fs"
proof (induction packed p fs rule: extent_of.induct)
  case (2 packed p f t fs)
  then have "p \<le> (if packed then p else round_up (calign t) p) + csize t" using round_up_le [of "calign t" p] by simp
  with 2 show ?case by fastforce
qed simp

lemma place_bounds:
  assumes "\<forall>(f, t) \<in> set fs. 0 < calign t"
  shows "\<forall>(f, a, t) \<in> set (place packed p fs). p \<le> a \<and> a + csize t \<le> extent_of packed p fs \<and> (packed \<or> calign t dvd a)"
  using assms
proof (induction packed p fs rule: place.induct)
  case (2 packed p f t fs)
  define a where "a = (if packed then p else round_up (calign t) p)"
  have "p \<le> a" using 2(2) round_up_le [of "calign t" p] by (simp add: a_def)
  moreover have "packed \<or> calign t dvd a" by (simp add: a_def round_up_def)
  moreover have "a + csize t \<le> extent_of packed (a + csize t) fs" using extent_of_ge [of fs] 2(2) by simp
  moreover have "\<forall>(g, b, u) \<in> set (place packed (a + csize t) fs). a + csize t \<le> b \<and>
      b + csize u \<le> extent_of packed (a + csize t) fs \<and> (packed \<or> calign u dvd b)"
    using 2(1) [OF a_def] 2(2) by simp
  moreover have "place packed p ((f, t) # fs) = (f, a, t) # place packed (a + csize t) fs"
    "extent_of packed p ((f, t) # fs) = extent_of packed (a + csize t) fs" by (simp_all add: a_def Let_def)
  ultimately show ?case by fastforce
qed simp

lemma place_sorted:
  "\<forall>(f, t) \<in> set fs. 0 < calign t \<Longrightarrow> sorted_wrt (\<lambda>(f, a, t) (g, b, u). a + csize t \<le> b) (place packed p fs)"
proof (induction packed p fs rule: place.induct)
  case (2 packed p f t fs)
  define a where "a = (if packed then p else round_up (calign t) p)"
  have "\<forall>(g, b, u) \<in> set (place packed (a + csize t) fs). a + csize t \<le> b"
    using place_bounds [of fs packed "a + csize t"] 2(2) by fastforce
  then show ?case using 2(1) [OF a_def] 2(2) by (simp add: a_def [symmetric] Let_def split_beta)
qed simp

text \<open>
  In a structure whose members have an alignment, every member lies inside the structure, at a multiple of
  its alignment unless the structure is packed, and behind the end of the members declared before it.
\<close>

theorem members_apart:
  assumes "d = Packed fs \<or> d = Natural fs" and "\<forall>(f, t) \<in> set fs. 0 < calign t"
  shows "(\<forall>(f, a, t) \<in> set (placed d). a + csize t \<le> sizeof d \<and> (d = Natural fs \<longrightarrow> calign t dvd a)) \<and>
    sorted_wrt (\<lambda>(f, a, t) (g, b, u). a + csize t \<le> b) (placed d)"
proof -
  have "max_align fs > 0"
    using Max_ge [of "set (1 # map (calign \<circ> snd) fs)" 1] unfolding max_align_def Max.set_eq_fold by simp
  then have "extent_of False 0 fs \<le> round_up (max_align fs) (extent_of False 0 fs)" by (rule round_up_le)
  then show ?thesis
    using assms(1) place_bounds [OF assms(2), of True 0] place_bounds [OF assms(2), of False 0] place_sorted [OF assms(2)]
    by (elim disjE; fastforce)
qed

theorem members_apart_witness:
  "sorted_wrt (\<lambda>(f, a, t) (g, b, u). a + csize t \<le> b) (placed struct_buffer_head)"
  using members_apart [OF disjI2 [OF struct_buffer_head_def]] by simp

section \<open>The offsets of the model\<close>

text \<open>Where the members of the structures in byte memory lie.\<close>

lemma placed_struct_mem_block:
  "placed struct_mem_block =
     [(''used'', 0, Int8), (''prev'', 4, Pointer), (''next'', 8, Pointer), (''size'', 12, Int32)]"
  "sizeof struct_mem_block = 16" "alignof struct_mem_block = 4"
  by (simp_all add: layout_defs)

lemma placed_Registers:
  "placed Registers =
     [(''eax'', 0, Int32), (''ebx'', 4, Int32), (''ecx'', 8, Int32), (''edx'', 12, Int32), (''esi'', 16, Int32),
     (''edi'', 20, Int32), (''esp'', 24, Int32), (''ebp'', 28, Int32), (''eip'', 32, Int32), (''eflags'', 36, Int32),
     (''cr3'', 40, Int32)]"
  "sizeof Registers = 44" "alignof Registers = 4"
  by (simp_all add: layout_defs)

lemma placed_kthread_t:
  "placed kthread_t =
     [(''regs'', 0, Agg 44 4), (''virtual_addr'', 44, Int32), (''next'', 48, Pointer)]"
  "sizeof kthread_t = 52" "alignof kthread_t = 4"
  by (simp_all add: layout_defs)

lemma placed_struct_buffer_head:
  "placed struct_buffer_head =
     [(''flags'', 0, Int8), (''block_num'', 4, Int32), (''dirty'', 8, Int8), (''dev'', 10, Int16), (''count'', 12, Int32),
     (''next'', 16, Pointer), (''prev'', 20, Pointer), (''next_free'', 24, Pointer), (''prev_free'', 28, Pointer),
     (''buff'', 32, Arr Int8 512)]"
  "sizeof struct_buffer_head = 544" "alignof struct_buffer_head = 4"
  by (simp_all add: layout_defs)

lemma placed_struct_super_block:
  "placed struct_super_block =
     [(''dev'', 0, Int16), (''fs_type'', 4, Pointer), (''sb_ops'', 8, Pointer), (''mount_point'', 12, Pointer),
     (''root'', 16, Pointer), (''next'', 20, Pointer)]"
  "sizeof struct_super_block = 24" "alignof struct_super_block = 4"
  by (simp_all add: layout_defs)

lemma placed_struct_inode:
  "placed struct_inode =
     [(''dev'', 0, Int32), (''i_no'', 4, Int32), (''size'', 8, Int32), (''i_ops'', 12, Pointer), (''i_sb'', 16, Pointer),
     (''gid'', 20, Int32), (''uid'', 24, Int32), (''flags'', 28, Int32), (''permissions'', 32, Int32),
     (''mount_point'', 36, Int8), (''counter'', 40, Int32), (''next'', 44, Pointer), (''prev'', 48, Pointer)]"
  "sizeof struct_inode = 52" "alignof struct_inode = 4"
  by (simp_all add: layout_defs)

lemma placed_struct_file_system_type:
  "placed struct_file_system_type =
     [(''read_super'', 0, Pointer), (''name'', 4, Pointer), (''next'', 8, Pointer)]"
  "sizeof struct_file_system_type = 12" "alignof struct_file_system_type = 4"
  by (simp_all add: layout_defs)

lemma placed_struct_file:
  "placed struct_file =
     [(''f_inode'', 0, Pointer), (''name'', 4, Pointer), (''pos'', 8, Int32)]"
  "sizeof struct_file = 12" "alignof struct_file = 4"
  by (simp_all add: layout_defs)

lemma placed_struct_dentry:
  "placed struct_dentry =
     [(''name'', 0, Pointer), (''inode'', 4, Pointer), (''sb'', 8, Pointer), (''mounted'', 12, Int8),
     (''count'', 16, Int32), (''child'', 20, Pointer), (''next'', 24, Pointer), (''prev'', 28, Pointer)]"
  "sizeof struct_dentry = 32" "alignof struct_dentry = 4"
  by (simp_all add: layout_defs)

lemma placed_ext2_superblock_t:
  "placed ext2_superblock_t =
     [(''inode_count'', 0, Int32), (''block_count'', 4, Int32), (''res_block_count'', 8, Int32),
     (''free_block_count'', 12, Int32), (''free_inode_count'', 16, Int32), (''superblock_num'', 20, Int32),
     (''block_size'', 24, Int32), (''fragment_size'', 28, Int32), (''blocks_per_group'', 32, Int32),
     (''fragments_per_group'', 36, Int32), (''inodes_per_group'', 40, Int32), (''last_mount_time'', 44, Int32),
     (''last_written_time'', 48, Int32), (''mount_count'', 52, Int16), (''allowed_mount_count'', 54, Int16),
     (''ext2_signature'', 56, Int16), (''fs_state'', 58, Int16), (''error_handle_info'', 60, Int16),
     (''minor_version'', 62, Int16), (''last_consistency_check'', 64, Int32), (''check_interval'', 68, Int32),
     (''os_id'', 72, Int32), (''major_version'', 76, Int32), (''res_uid'', 80, Int16), (''res_gid'', 82, Int16)]"
  "sizeof ext2_superblock_t = 84" "alignof ext2_superblock_t = 1"
  by (simp_all add: layout_defs)

lemma placed_ext2_extended_superblock_t:
  "placed ext2_extended_superblock_t =
     [(''base_sb'', 0, Agg 84 1), (''first_inode'', 84, Int32), (''inode_size'', 88, Int16),
     (''partof_block_group'', 90, Int16), (''optional_features'', 92, Int32), (''required_features'', 96, Int32),
     (''features_RO'', 100, Int32), (''fs_id'', 104, Arr Int8 16), (''vol_name'', 120, Arr Int8 16),
     (''last_mounted_vol'', 136, Arr Int8 64), (''compression_algorithms'', 200, Int32),
     (''file_prealloc_blocks'', 204, Int8), (''directory_prealloc_blocks'', 205, Int8), (''unused'', 206, Int16),
     (''journal_id'', 208, Arr Int8 16), (''journal_inode'', 224, Int32), (''journal_device'', 228, Int32),
     (''orphan_inode_head'', 232, Int32), (''extra'', 236, Arr Int8 788)]"
  "sizeof ext2_extended_superblock_t = 1024" "alignof ext2_extended_superblock_t = 1"
  by (simp_all add: layout_defs)

lemma placed_ext2_inode_t:
  "placed ext2_inode_t =
     [(''type_permissions'', 0, Int16), (''uid'', 2, Int16), (''size_low'', 4, Int32), (''last_access'', 8, Int32),
     (''creation'', 12, Int32), (''last_mod'', 16, Int32), (''deletion'', 20, Int32), (''gid'', 24, Int16),
     (''hard_links_count'', 26, Int16), (''used_sectors_count'', 28, Int32), (''flags'', 32, Int32),
     (''reserved0'', 36, Int32), (''direct_block'', 40, Arr Int32 12), (''singly_indirect_block'', 88, Int32),
     (''doubly_indirect_block'', 92, Int32), (''triply_indirect_block'', 96, Int32), (''gen_number'', 100, Int32),
     (''reserved1'', 104, Int32), (''reserved2'', 108, Int32), (''fragment_blockaddr'', 112, Int32),
     (''os_spec'', 116, Arr Int32 3)]"
  "sizeof ext2_inode_t = 128" "alignof ext2_inode_t = 1"
  by (simp_all add: layout_defs)

lemma placed_ext2_directory_entry_t:
  "placed ext2_directory_entry_t =
     [(''inode'', 0, Int32), (''entry_size'', 4, Int16), (''name_length'', 6, Int8), (''type'', 7, Int8)]"
  "sizeof ext2_directory_entry_t = 8" "alignof ext2_directory_entry_t = 1"
  by (simp_all add: layout_defs)

lemma placed_multiboot_info_t:
  "placed multiboot_info_t =
     [(''flags'', 0, Int32), (''mem_lower'', 4, Int32), (''mem_upper'', 8, Int32), (''boot_device'', 12, Int32),
     (''cmdline'', 16, Int32), (''mods_count'', 20, Int32), (''mods_addr'', 24, Int32), (''u'', 28, Agg 16 4),
     (''mmap_length'', 44, Int32), (''mmap_addr'', 48, Int32)]"
  "sizeof multiboot_info_t = 52" "alignof multiboot_info_t = 4"
  by (simp_all add: layout_defs)

lemma placed_ext2_bgd_t:
  "placed ext2_bgd_t =
     [(''block_usage_bitmap'', 0, Int32), (''inode_usage_bitmap'', 4, Int32), (''inode_table'', 8, Int32),
     (''free_block_count'', 12, Int16), (''free_inode_count'', 14, Int16), (''directory_count'', 16, Int16),
     (''unused'', 18, Arr Int8 14)]"
  "sizeof ext2_bgd_t = 32" "alignof ext2_bgd_t = 1"
  by (simp_all add: layout_defs)

lemmas placed_simps = placed_struct_mem_block placed_Registers placed_kthread_t placed_struct_buffer_head placed_struct_super_block
  placed_struct_inode placed_struct_file_system_type placed_struct_file placed_struct_dentry
  placed_ext2_superblock_t placed_ext2_extended_superblock_t placed_ext2_inode_t placed_ext2_directory_entry_t
  placed_multiboot_info_t placed_ext2_bgd_t

lemma heap_layout:
  "mb_prev m a = rd32 m (a + offsetof struct_mem_block ''prev'')"
  "mb_next m a = rd32 m (a + offsetof struct_mem_block ''next'')"
  "mb_size m a = rd32 m (a + offsetof struct_mem_block ''size'')"
  "set_used a w m = m(a + offsetof struct_mem_block ''used'' := w)"
  "set_prev a v m = wr32 m (a + offsetof struct_mem_block ''prev'') v"
  "set_next a v m = wr32 m (a + offsetof struct_mem_block ''next'') v"
  "set_size a v m = wr32 m (a + offsetof struct_mem_block ''size'') v"
  "sizeof struct_mem_block = unat MB"
  by (simp_all add: offsetof_def placed_simps header_defs MB_def)

lemma thread_layout:
  "th_virtual_addr m a = rd32 m (a + offsetof kthread_t ''virtual_addr'')"
  "th_next m a = rd32 m (a + offsetof kthread_t ''next'')"
  "set_th_next a v m = wr32 m (a + offsetof kthread_t ''next'') v"
  "load_regs m a = \<lparr>c_eax = rd32 m (a + offsetof Registers ''eax''), c_ebx = rd32 m (a + offsetof Registers ''ebx''),
     c_ecx = rd32 m (a + offsetof Registers ''ecx''), c_edx = rd32 m (a + offsetof Registers ''edx''), c_esi = rd32 m (a + offsetof Registers ''esi''),
     c_edi = rd32 m (a + offsetof Registers ''edi''), c_esp = rd32 m (a + offsetof Registers ''esp''), c_ebp = rd32 m (a + offsetof Registers ''ebp''),
     c_eip = rd32 m (a + offsetof Registers ''eip''), c_eflags = rd32 m (a + offsetof Registers ''eflags'')\<rparr>"
  "offsetof kthread_t ''regs'' = 0"
  "sizeof kthread_t = 52"
  by (simp_all add: offsetof_def placed_simps th_virtual_addr_def th_next_def set_th_next_def load_regs_def)

lemma buffer_layout:
  "bh_flags m a = m (a + offsetof struct_buffer_head ''flags'')"
  "bh_block_num m a = rd32 m (a + offsetof struct_buffer_head ''block_num'')"
  "bh_dirty m a = m (a + offsetof struct_buffer_head ''dirty'')"
  "bh_dev m a = rd16 m (a + offsetof struct_buffer_head ''dev'')"
  "bh_count m a = rd32 m (a + offsetof struct_buffer_head ''count'')"
  "bh_next m a = rd32 m (a + offsetof struct_buffer_head ''next'')"
  "bh_prev m a = rd32 m (a + offsetof struct_buffer_head ''prev'')"
  "bh_next_free m a = rd32 m (a + offsetof struct_buffer_head ''next_free'')"
  "bh_prev_free m a = rd32 m (a + offsetof struct_buffer_head ''prev_free'')"
  "set_block_num a v m = wr32 m (a + offsetof struct_buffer_head ''block_num'') v"
  "set_dirty a w m = m(a + offsetof struct_buffer_head ''dirty'' := w)"
  "set_dev a h m = wr16 m (a + offsetof struct_buffer_head ''dev'') h"
  "set_count a v m = wr32 m (a + offsetof struct_buffer_head ''count'') v"
  "set_bh_next a v m = wr32 m (a + offsetof struct_buffer_head ''next'') v"
  "set_bh_prev a v m = wr32 m (a + offsetof struct_buffer_head ''prev'') v"
  "set_next_free a v m = wr32 m (a + offsetof struct_buffer_head ''next_free'') v"
  "set_prev_free a v m = wr32 m (a + offsetof struct_buffer_head ''prev_free'') v"
  "bh_buff a = a + offsetof struct_buffer_head ''buff''"
  "sizeof struct_buffer_head = 544"
  by (simp_all add: offsetof_def placed_simps bh_get_defs bh_set_defs bh_buff_def)

lemma super_layout:
  "sb_dev m a = rd16 m (a + offsetof struct_super_block ''dev'')"
  "sb_fs_type m a = rd32 m (a + offsetof struct_super_block ''fs_type'')"
  "sb_root m a = rd32 m (a + offsetof struct_super_block ''root'')"
  "sb_next m a = rd32 m (a + offsetof struct_super_block ''next'')"
  "set_sb_dev a h m = wr16 m (a + offsetof struct_super_block ''dev'') h"
  "set_sb_fs_type a v m = wr32 m (a + offsetof struct_super_block ''fs_type'') v"
  "set_sb_ops a v m = wr32 m (a + offsetof struct_super_block ''sb_ops'') v"
  "set_sb_root a v m = wr32 m (a + offsetof struct_super_block ''root'') v"
  "set_sb_next a v m = wr32 m (a + offsetof struct_super_block ''next'') v"
  by (simp_all add: offsetof_def placed_simps sb_dev_def sb_fs_type_def sb_root_def sb_next_def set_sb_dev_def set_sb_fs_type_def set_sb_ops_def set_sb_root_def set_sb_next_def)

lemma inode_layout:
  "i_dev m a = rd32 m (a + offsetof struct_inode ''dev'')"
  "i_no m a = rd32 m (a + offsetof struct_inode ''i_no'')"
  "i_size m a = rd32 m (a + offsetof struct_inode ''size'')"
  "i_sb m a = rd32 m (a + offsetof struct_inode ''i_sb'')"
  "i_flags m a = rd32 m (a + offsetof struct_inode ''flags'')"
  "set_i_dev a v m = wr32 m (a + offsetof struct_inode ''dev'') v"
  "set_i_no a v m = wr32 m (a + offsetof struct_inode ''i_no'') v"
  "set_i_size a v m = wr32 m (a + offsetof struct_inode ''size'') v"
  "set_i_ops a v m = wr32 m (a + offsetof struct_inode ''i_ops'') v"
  "set_i_sb a v m = wr32 m (a + offsetof struct_inode ''i_sb'') v"
  "set_i_gid a v m = wr32 m (a + offsetof struct_inode ''gid'') v"
  "set_i_uid a v m = wr32 m (a + offsetof struct_inode ''uid'') v"
  "set_i_flags a v m = wr32 m (a + offsetof struct_inode ''flags'') v"
  "set_i_permissions a v m = wr32 m (a + offsetof struct_inode ''permissions'') v"
  "set_i_mount_point a w m = m(a + offsetof struct_inode ''mount_point'' := w)"
  "set_i_counter a v m = wr32 m (a + offsetof struct_inode ''counter'') v"
  "set_i_next a v m = wr32 m (a + offsetof struct_inode ''next'') v"
  "sizeof struct_inode = 52"
  by (simp_all add: offsetof_def placed_simps i_dev_def i_no_def i_size_def i_sb_def i_flags_def set_i_dev_def set_i_no_def set_i_size_def set_i_ops_def set_i_sb_def set_i_gid_def set_i_uid_def set_i_flags_def set_i_permissions_def set_i_mount_point_def set_i_counter_def set_i_next_def)

lemma file_system_layout:
  "fs_read_super m a = rd32 m (a + offsetof struct_file_system_type ''read_super'')"
  "fs_name m a = rd32 m (a + offsetof struct_file_system_type ''name'')"
  "fs_next m a = rd32 m (a + offsetof struct_file_system_type ''next'')"
  "set_fs_read_super a v m = wr32 m (a + offsetof struct_file_system_type ''read_super'') v"
  "set_fs_name a v m = wr32 m (a + offsetof struct_file_system_type ''name'') v"
  "set_fs_next a v m = wr32 m (a + offsetof struct_file_system_type ''next'') v"
  by (simp_all add: offsetof_def placed_simps fs_read_super_def fs_name_def fs_next_def set_fs_read_super_def set_fs_name_def set_fs_next_def)

lemma file_layout:
  "f_inode m a = rd32 m (a + offsetof struct_file ''f_inode'')"
  "set_f_inode a v m = wr32 m (a + offsetof struct_file ''f_inode'') v"
  "set_f_name a v m = wr32 m (a + offsetof struct_file ''name'') v"
  "set_f_pos a v m = wr32 m (a + offsetof struct_file ''pos'') v"
  by (simp_all add: offsetof_def placed_simps f_inode_def set_f_inode_def set_f_name_def set_f_pos_def)

lemma dentry_layout:
  "set_d_name a v m = wr32 m (a + offsetof struct_dentry ''name'') v"
  "set_d_inode a v m = wr32 m (a + offsetof struct_dentry ''inode'') v"
  "set_d_next a v m = wr32 m (a + offsetof struct_dentry ''next'') v"
  "set_d_prev a v m = wr32 m (a + offsetof struct_dentry ''prev'') v"
  by (simp_all add: offsetof_def placed_simps set_d_name_def set_d_inode_def set_d_next_def set_d_prev_def)

lemma superblock_layout:
  "es_inode_size m a = rd16 m (a + offsetof ext2_extended_superblock_t ''inode_size'')"
  "es_required_features m a = rd32 m (a + offsetof ext2_extended_superblock_t ''required_features'')"
  "sizeof ext2_extended_superblock_t = 1024"
  "offsetof ext2_extended_superblock_t ''base_sb'' = 0"
  by (simp_all add: offsetof_def placed_simps es_inode_size_def es_required_features_def)

lemma base_superblock_layout:
  "es_inode_count m a = rd32 m (a + offsetof ext2_superblock_t ''inode_count'')"
  "es_block_count m a = rd32 m (a + offsetof ext2_superblock_t ''block_count'')"
  "es_block_size m a = rd32 m (a + offsetof ext2_superblock_t ''block_size'')"
  "es_fragment_size m a = rd32 m (a + offsetof ext2_superblock_t ''fragment_size'')"
  "es_blocks_per_group m a = rd32 m (a + offsetof ext2_superblock_t ''blocks_per_group'')"
  "es_inodes_per_group m a = rd32 m (a + offsetof ext2_superblock_t ''inodes_per_group'')"
  "es_signature m a = rd16 m (a + offsetof ext2_superblock_t ''ext2_signature'')"
  "es_major_version m a = rd32 m (a + offsetof ext2_superblock_t ''major_version'')"
  by (simp_all add: offsetof_def placed_simps es_inode_count_def es_block_count_def es_block_size_def es_fragment_size_def es_blocks_per_group_def es_inodes_per_group_def es_signature_def es_major_version_def)

lemma ext2_inode_layout:
  "ei_type_permissions m a = rd16 m (a + offsetof ext2_inode_t ''type_permissions'')"
  "ei_uid m a = rd16 m (a + offsetof ext2_inode_t ''uid'')"
  "ei_size_low m a = rd32 m (a + offsetof ext2_inode_t ''size_low'')"
  "ei_gid m a = rd16 m (a + offsetof ext2_inode_t ''gid'')"
  "ei_flags m a = rd32 m (a + offsetof ext2_inode_t ''flags'')"
  "set_ei_size_low a v m = wr32 m (a + offsetof ext2_inode_t ''size_low'') v"
  "ei_direct_block m a i = rd32 m (a + offsetof ext2_inode_t ''direct_block'' + 4 * i)"
  "sizeof ext2_inode_t = 128"
  by (simp_all add: offsetof_def placed_simps ei_type_permissions_def ei_uid_def ei_size_low_def ei_gid_def ei_flags_def set_ei_size_low_def ei_direct_block_def)

lemma entry_layout:
  "de_inode m a = rd32 m (a + offsetof ext2_directory_entry_t ''inode'')"
  "de_entry_size m a = rd16 m (a + offsetof ext2_directory_entry_t ''entry_size'')"
  "de_name_length m a = m (a + offsetof ext2_directory_entry_t ''name_length'')"
  by (simp_all add: offsetof_def placed_simps de_inode_def de_entry_size_def de_name_length_def)

lemma multiboot_layout:
  "mbd_flags m a = rd32 m (a + offsetof multiboot_info_t ''flags'')"
  "mbd_mem_upper m a = rd32 m (a + offsetof multiboot_info_t ''mem_upper'')"
  by (simp_all add: offsetof_def placed_simps mbd_flags_def mbd_mem_upper_def)


lemma bgd_layout:
  "bgd_inode_usage_bitmap m a i = rd32 m (a + of_nat (sizeof ext2_bgd_t) * i + offsetof ext2_bgd_t ''inode_usage_bitmap'')"
  "bgd_inode_table m a i = rd32 m (a + of_nat (sizeof ext2_bgd_t) * i + offsetof ext2_bgd_t ''inode_table'')"
  "bgd_free_inode_count m a i = rd16 m (a + of_nat (sizeof ext2_bgd_t) * i + offsetof ext2_bgd_t ''free_inode_count'')"
  by (simp_all add: offsetof_def placed_simps bgd_inode_usage_bitmap_def bgd_inode_table_def bgd_free_inode_count_def)

lemma tss_layout:
  "sizeof struct_tss = unat TSS_SIZE" "sizeof struct_gdt_entry = 8" "sizeof struct_idt_entry = 8" "sizeof mbr_t = 512"
  by (simp_all add: offsetof_def placed_simps layout_defs TSS_SIZE_def)

text \<open>Every member accessor of the model, and \<^verbatim>\<open>load_regs\<close>, goes to the offset that the declaration of the structure in
  the headers gives that member under the layout rules of the ABI, with the member's width, and the sizes the model uses are those
  of the declarations. (The routines that write several members at literal offsets themselves, such as \<^verbatim>\<open>write_tss\<close> and \<^verbatim>\<open>kthread_create\<close>, are not restated.)
\<close>

theorem accessors_follow_declarations:
  "(mb_prev m a = rd32 m (a + offsetof struct_mem_block ''prev'')) \<and>
   (mb_next m a = rd32 m (a + offsetof struct_mem_block ''next'')) \<and>
   (mb_size m a = rd32 m (a + offsetof struct_mem_block ''size'')) \<and>
   (set_used a w m = m(a + offsetof struct_mem_block ''used'' := w)) \<and>
   (set_prev a v m = wr32 m (a + offsetof struct_mem_block ''prev'') v) \<and>
   (set_next a v m = wr32 m (a + offsetof struct_mem_block ''next'') v) \<and>
   (set_size a v m = wr32 m (a + offsetof struct_mem_block ''size'') v) \<and>
   (sizeof struct_mem_block = unat MB) \<and>
   (th_virtual_addr m a = rd32 m (a + offsetof kthread_t ''virtual_addr'')) \<and>
   (th_next m a = rd32 m (a + offsetof kthread_t ''next'')) \<and>
   (set_th_next a v m = wr32 m (a + offsetof kthread_t ''next'') v) \<and>
   (load_regs m a = \<lparr>c_eax = rd32 m (a + offsetof Registers ''eax''), c_ebx = rd32 m (a + offsetof Registers ''ebx''),
     c_ecx = rd32 m (a + offsetof Registers ''ecx''), c_edx = rd32 m (a + offsetof Registers ''edx''), c_esi = rd32 m (a + offsetof Registers ''esi''),
     c_edi = rd32 m (a + offsetof Registers ''edi''), c_esp = rd32 m (a + offsetof Registers ''esp''), c_ebp = rd32 m (a + offsetof Registers ''ebp''),
     c_eip = rd32 m (a + offsetof Registers ''eip''), c_eflags = rd32 m (a + offsetof Registers ''eflags'')\<rparr>) \<and>
   (offsetof kthread_t ''regs'' = 0) \<and>
   (sizeof kthread_t = 52) \<and>
   (bh_flags m a = m (a + offsetof struct_buffer_head ''flags'')) \<and>
   (bh_block_num m a = rd32 m (a + offsetof struct_buffer_head ''block_num'')) \<and>
   (bh_dirty m a = m (a + offsetof struct_buffer_head ''dirty'')) \<and>
   (bh_dev m a = rd16 m (a + offsetof struct_buffer_head ''dev'')) \<and>
   (bh_count m a = rd32 m (a + offsetof struct_buffer_head ''count'')) \<and>
   (bh_next m a = rd32 m (a + offsetof struct_buffer_head ''next'')) \<and>
   (bh_prev m a = rd32 m (a + offsetof struct_buffer_head ''prev'')) \<and>
   (bh_next_free m a = rd32 m (a + offsetof struct_buffer_head ''next_free'')) \<and>
   (bh_prev_free m a = rd32 m (a + offsetof struct_buffer_head ''prev_free'')) \<and>
   (set_block_num a v m = wr32 m (a + offsetof struct_buffer_head ''block_num'') v) \<and>
   (set_dirty a w m = m(a + offsetof struct_buffer_head ''dirty'' := w)) \<and>
   (set_dev a h m = wr16 m (a + offsetof struct_buffer_head ''dev'') h) \<and>
   (set_count a v m = wr32 m (a + offsetof struct_buffer_head ''count'') v) \<and>
   (set_bh_next a v m = wr32 m (a + offsetof struct_buffer_head ''next'') v) \<and>
   (set_bh_prev a v m = wr32 m (a + offsetof struct_buffer_head ''prev'') v) \<and>
   (set_next_free a v m = wr32 m (a + offsetof struct_buffer_head ''next_free'') v) \<and>
   (set_prev_free a v m = wr32 m (a + offsetof struct_buffer_head ''prev_free'') v) \<and>
   (bh_buff a = a + offsetof struct_buffer_head ''buff'') \<and>
   (sizeof struct_buffer_head = 544) \<and>
   (sb_dev m a = rd16 m (a + offsetof struct_super_block ''dev'')) \<and>
   (sb_fs_type m a = rd32 m (a + offsetof struct_super_block ''fs_type'')) \<and>
   (sb_root m a = rd32 m (a + offsetof struct_super_block ''root'')) \<and>
   (sb_next m a = rd32 m (a + offsetof struct_super_block ''next'')) \<and>
   (set_sb_dev a h m = wr16 m (a + offsetof struct_super_block ''dev'') h) \<and>
   (set_sb_fs_type a v m = wr32 m (a + offsetof struct_super_block ''fs_type'') v) \<and>
   (set_sb_ops a v m = wr32 m (a + offsetof struct_super_block ''sb_ops'') v) \<and>
   (set_sb_root a v m = wr32 m (a + offsetof struct_super_block ''root'') v) \<and>
   (set_sb_next a v m = wr32 m (a + offsetof struct_super_block ''next'') v) \<and>
   (i_dev m a = rd32 m (a + offsetof struct_inode ''dev'')) \<and>
   (i_no m a = rd32 m (a + offsetof struct_inode ''i_no'')) \<and>
   (i_size m a = rd32 m (a + offsetof struct_inode ''size'')) \<and>
   (i_sb m a = rd32 m (a + offsetof struct_inode ''i_sb'')) \<and>
   (i_flags m a = rd32 m (a + offsetof struct_inode ''flags'')) \<and>
   (set_i_dev a v m = wr32 m (a + offsetof struct_inode ''dev'') v) \<and>
   (set_i_no a v m = wr32 m (a + offsetof struct_inode ''i_no'') v) \<and>
   (set_i_size a v m = wr32 m (a + offsetof struct_inode ''size'') v) \<and>
   (set_i_ops a v m = wr32 m (a + offsetof struct_inode ''i_ops'') v) \<and>
   (set_i_sb a v m = wr32 m (a + offsetof struct_inode ''i_sb'') v) \<and>
   (set_i_gid a v m = wr32 m (a + offsetof struct_inode ''gid'') v) \<and>
   (set_i_uid a v m = wr32 m (a + offsetof struct_inode ''uid'') v) \<and>
   (set_i_flags a v m = wr32 m (a + offsetof struct_inode ''flags'') v) \<and>
   (set_i_permissions a v m = wr32 m (a + offsetof struct_inode ''permissions'') v) \<and>
   (set_i_mount_point a w m = m(a + offsetof struct_inode ''mount_point'' := w)) \<and>
   (set_i_counter a v m = wr32 m (a + offsetof struct_inode ''counter'') v) \<and>
   (set_i_next a v m = wr32 m (a + offsetof struct_inode ''next'') v) \<and>
   (sizeof struct_inode = 52) \<and>
   (fs_read_super m a = rd32 m (a + offsetof struct_file_system_type ''read_super'')) \<and>
   (fs_name m a = rd32 m (a + offsetof struct_file_system_type ''name'')) \<and>
   (fs_next m a = rd32 m (a + offsetof struct_file_system_type ''next'')) \<and>
   (set_fs_read_super a v m = wr32 m (a + offsetof struct_file_system_type ''read_super'') v) \<and>
   (set_fs_name a v m = wr32 m (a + offsetof struct_file_system_type ''name'') v) \<and>
   (set_fs_next a v m = wr32 m (a + offsetof struct_file_system_type ''next'') v) \<and>
   (f_inode m a = rd32 m (a + offsetof struct_file ''f_inode'')) \<and>
   (set_f_inode a v m = wr32 m (a + offsetof struct_file ''f_inode'') v) \<and>
   (set_f_name a v m = wr32 m (a + offsetof struct_file ''name'') v) \<and>
   (set_f_pos a v m = wr32 m (a + offsetof struct_file ''pos'') v) \<and>
   (set_d_name a v m = wr32 m (a + offsetof struct_dentry ''name'') v) \<and>
   (set_d_inode a v m = wr32 m (a + offsetof struct_dentry ''inode'') v) \<and>
   (set_d_next a v m = wr32 m (a + offsetof struct_dentry ''next'') v) \<and>
   (set_d_prev a v m = wr32 m (a + offsetof struct_dentry ''prev'') v) \<and>
   (es_inode_size m a = rd16 m (a + offsetof ext2_extended_superblock_t ''inode_size'')) \<and>
   (es_required_features m a = rd32 m (a + offsetof ext2_extended_superblock_t ''required_features'')) \<and>
   (sizeof ext2_extended_superblock_t = 1024) \<and>
   (offsetof ext2_extended_superblock_t ''base_sb'' = 0) \<and>
   (es_inode_count m a = rd32 m (a + offsetof ext2_superblock_t ''inode_count'')) \<and>
   (es_block_count m a = rd32 m (a + offsetof ext2_superblock_t ''block_count'')) \<and>
   (es_block_size m a = rd32 m (a + offsetof ext2_superblock_t ''block_size'')) \<and>
   (es_fragment_size m a = rd32 m (a + offsetof ext2_superblock_t ''fragment_size'')) \<and>
   (es_blocks_per_group m a = rd32 m (a + offsetof ext2_superblock_t ''blocks_per_group'')) \<and>
   (es_inodes_per_group m a = rd32 m (a + offsetof ext2_superblock_t ''inodes_per_group'')) \<and>
   (es_signature m a = rd16 m (a + offsetof ext2_superblock_t ''ext2_signature'')) \<and>
   (es_major_version m a = rd32 m (a + offsetof ext2_superblock_t ''major_version'')) \<and>
   (ei_type_permissions m a = rd16 m (a + offsetof ext2_inode_t ''type_permissions'')) \<and>
   (ei_uid m a = rd16 m (a + offsetof ext2_inode_t ''uid'')) \<and>
   (ei_size_low m a = rd32 m (a + offsetof ext2_inode_t ''size_low'')) \<and>
   (ei_gid m a = rd16 m (a + offsetof ext2_inode_t ''gid'')) \<and>
   (ei_flags m a = rd32 m (a + offsetof ext2_inode_t ''flags'')) \<and>
   (set_ei_size_low a v m = wr32 m (a + offsetof ext2_inode_t ''size_low'') v) \<and>
   (ei_direct_block m a i = rd32 m (a + offsetof ext2_inode_t ''direct_block'' + 4 * i)) \<and>
   (sizeof ext2_inode_t = 128) \<and>
   (de_inode m a = rd32 m (a + offsetof ext2_directory_entry_t ''inode'')) \<and>
   (de_entry_size m a = rd16 m (a + offsetof ext2_directory_entry_t ''entry_size'')) \<and>
   (de_name_length m a = m (a + offsetof ext2_directory_entry_t ''name_length'')) \<and>
   (mbd_flags m a = rd32 m (a + offsetof multiboot_info_t ''flags'')) \<and>
   (mbd_mem_upper m a = rd32 m (a + offsetof multiboot_info_t ''mem_upper'')) \<and>
   (bgd_inode_usage_bitmap m a i = rd32 m (a + of_nat (sizeof ext2_bgd_t) * i + offsetof ext2_bgd_t ''inode_usage_bitmap'')) \<and>
   (bgd_inode_table m a i = rd32 m (a + of_nat (sizeof ext2_bgd_t) * i + offsetof ext2_bgd_t ''inode_table'')) \<and>
   (bgd_free_inode_count m a i = rd16 m (a + of_nat (sizeof ext2_bgd_t) * i + offsetof ext2_bgd_t ''free_inode_count'')) \<and>
   (sizeof struct_tss = unat TSS_SIZE) \<and>
   (sizeof struct_gdt_entry = 8) \<and>
   (sizeof struct_idt_entry = 8) \<and>
   (sizeof mbr_t = 512)"
  by (intro conjI) (rule heap_layout thread_layout buffer_layout super_layout inode_layout file_system_layout file_layout dentry_layout superblock_layout base_superblock_layout ext2_inode_layout entry_layout multiboot_layout bgd_layout tss_layout)+

end
