(* ===== verification/Boot_Threads.thy ===== *)
theory Boot_Threads
  imports Boot
begin

unbundle bit_operations_syntax

text \<open>
  The thread stage of \<^verbatim>\<open>kernel_main\<close> on the memory the stage before it leaves: heap, paging and threads together.
  The stage completes; but \<^verbatim>\<open>kthread_join\<close> leaves the first thread in the list of threads, so the scheduler keeps a pointer into
  the heap block that \<^verbatim>\<open>kfree\<close> has just released, and the frame allocator has lost the frames around the stack's.
\<close>

section \<open>Page tables outside a set of addresses\<close>

lemma entry_bytes: "i < 1024 \<Longrightarrow> bytes (t + 4 * i) 4 \<subseteq> bytes t 4096"
proof (rule field_bytes)
  assume "i < 1024"
  then have "unat (4 * i) = 4 * unat i" "unat i < 1024" by (simp_all add: word_less_nat_alt unat_word_ariths)
  then show "unat (4 * i) + 4 \<le> unat (4096 :: u32)" by simp
qed

lemma only_entry: "only R m m' \<Longrightarrow> bytes t 4096 \<inter> R = {} \<Longrightarrow> i < 1024 \<Longrightarrow> entry m' t i = entry m t i"
  unfolding entry_def using entry_bytes [of i t] by (intro only_rd32 [of R]) auto

section \<open>What the thread routines write\<close>

lemma only_save_regs: "only (bytes t 44) m (save_regs t c r m)"
  unfolding save_regs_def Let_def by (intro only_wr32 only_refl field_bytes bytes_mono) simp_all

lemma only_new_thread_regs: "only (bytes t 52) (mem s) (new_thread_regs t e s)"
  unfolding new_thread_regs_def by (intro only_wr32 only_refl field_bytes bytes_mono) simp_all

lemma only_new_thread_links: "only (bytes t 52 \<union> bytes l 52) m (new_thread_links t p l m)"
proof -
  have "bytes (u + k) 4 \<subseteq> bytes t 52 \<union> bytes l 52" if "u \<in> {t, l}" "k \<in> {24, 44, 48}" for u k
    using field_bytes [of k 52 u] that by auto
  then show ?thesis
    unfolding new_thread_links_def set_th_next_def by (intro only_wr32 only_refl) simp_all
qed

lemma only_set_entry: "i < 1024 \<Longrightarrow> only (bytes t 4096) m (set_entry t i v m)"
  unfolding set_entry_def by (intro only_wr32 only_refl entry_bytes)

lemma only_init_tasking: "only (bytes (main_thread s) 52) (mem s) (mem (init_tasking s))"
  unfolding init_tasking_def Let_def set_th_next_def
  by simp (intro only_wr32 only_refl field_bytes; simp)

lemma only_load_regs: "only R m m' \<Longrightarrow> bytes t 52 \<inter> R = {} \<Longrightarrow> load_regs m' t = load_regs m t"
proof -
  assume o: "only R m m'" "bytes t 52 \<inter> R = {}"
  have "rd32 m' (t + k) = rd32 m (t + k)" if "unat k + 4 \<le> 52" for k
    using field_bytes [of k 52 t] that o(2) by (intro only_rd32 [OF o(1)]) auto
  from this this [of 0] show ?thesis by (simp add: load_regs_def)
qed

lemma preempt_fields:
  "\<exists>r c d. preempt s = s\<lparr>running_thread := r, mem := save_regs (running_thread s) (cpu s) (cr3 s) (mem s), cpu := c, cr3 := d\<rparr>"
  by (auto simp: preempt_def switch_task_def Let_def)

section \<open>The heap under other writes\<close>

lemma kfree_page_kernel:
  assumes tab: "tables_ok s" "kernel_mapped s" and fr: "frames_ok s" "f < nframes s" and k: "k < 1024"
    and e: "entry (mem s) (first_page_table s) k = (f * 0x1000) OR 3 OR 4"
  shows "kfree_page (kernel_page_dir s) (KERNEL_VIRTUAL_BASE + k * 0x1000) s =
    Done () (s\<lparr>frame_map := (frame_map s)(f div 32 := 0), mem := set_entry (first_page_table s) k 0 (mem s),
      next_free_page := KERNEL_VIRTUAL_BASE + k * 0x1000\<rparr>)"
proof -
  have d: "k * 0x1000 < 0x400000" and kd: "k * 0x1000 div 0x1000 = k"
    using k page_addr_div [OF k] by (simp_all add: word_less_nat_alt unat_word_ariths)
  have al: "page_aligned (f * 0x1000)" "page_aligned (first_page_table s - KERNEL_VIRTUAL_BASE)"
    using tab(1) page_aligned_base by (simp_all add: page_aligned_def frame_addr_aligned tables_ok_def)
  have "k * 0x1000 AND 0xFFF = 0" by (simp add: frame_addr_aligned)
  then have g: "get_phys_addr (kernel_page_dir s) (KERNEL_VIRTUAL_BASE + k * 0x1000) s = Done (f * 0x1000) s"
    using get_phys_addr_kernel [OF tab d] e page_flags [OF al(1)] by (simp add: kd Let_def)
  have fd: "f * 0x1000 div 0x1000 = f"
    using fr by (intro frame_addr_div) (auto simp: frames_ok_def word_less_nat_alt word_le_nat_alt)
  have fw: "kfree_frame (f * 0x1000) s = Done () (s\<lparr>frame_map := (frame_map s)(f div 32 := 0)\<rparr>)"
    using kfree_frame_word [OF fr(1), of "f * 0x1000"] fr(2) by (simp add: fd)
  show ?thesis
    using tab(2) page_flags [OF al(2)]
    unfolding kfree_page_def g kernel_addr_split [OF d] kd mask12_compl
    by (simp add: fw kernel_mapped_def Let_def)
qed

section \<open>The first thread\<close>

text \<open>
  The state in which boot starts its first thread: the heap is one free block of \<open>n\<close> bytes, the first \<open>k\<close> pages and
  \<open>f\<close> frames are in use, and the main thread's structure, the page tables and the heap are apart from each other.
\<close>

definition threads_room :: "nat \<Rightarrow> u32 \<Rightarrow> u32 \<Rightarrow> 'a tasking_scheme \<Rightarrow> bool" where
  "threads_room n k f s \<longleftrightarrow> heap_ok s [(False, n)] \<and> 69 \<le> n \<and> main_thread s \<noteq> 0 \<and>
     frames_ok s \<and> tables_ok s \<and> kernel_mapped s \<and> pages_prefix k s \<and> k + 1 < 1024 \<and> k < 1024 \<and>
     prefix_used f s \<and> f < nframes s \<and>
     (let heap = bytes (first s) (of_nat (16 + n)); main = bytes (main_thread s) 52;
          table = bytes (first_page_table s) 4096; dir = bytes (kernel_page_dir s) 4096
      in heap \<inter> main = {} \<and> heap \<inter> table = {} \<and> heap \<inter> dir = {} \<and> main \<inter> table = {} \<and> main \<inter> dir = {} \<and> table \<inter> dir = {})"

lemma heap_bytes:
  assumes "heap_ok s bs" and "extent bs = 16 + n" and "unat (first s) \<le> x" and "x < unat (first s) + 16 + n"
  shows "of_nat x \<in> bytes (first s) (of_nat (16 + n))"
proof -
  have b: "0 < unat (first s)" "unat (first s) + (16 + n) \<le> 2 ^ 32"
    using assms(1,2) by (simp_all add: heap_ok_def heap_rep_def)
  have "unat (of_nat x - first s) = x - unat (first s)" "unat (of_nat (16 + n) :: u32) = 16 + n"
    using assms(3,4) b by (simp_all add: unat_sub_if' unat_of_nat del: of_nat_add)
  then show ?thesis using assms(3,4) by (simp add: bytes_def word_less_nat_alt)
qed

lemma task_in_heap:
  assumes "heap_ok s bs" and "extent bs = 16 + n" and "69 \<le> n"
  shows "bytes (first s + 16) 52 \<subseteq> bytes (first s) (of_nat (16 + n))"
proof
  fix x assume "x \<in> bytes (first s + 16) 52"
  then have x: "unat (x - (first s + 16)) < 52" by (simp add: bytes_def word_less_nat_alt)
  have b: "0 < unat (first s)" "unat (first s) + (16 + n) \<le> 2 ^ 32"
    using assms(1,2) by (simp_all add: heap_ok_def heap_rep_def)
  have "unat (y + 16) < 68" if "unat y < 52" for y :: u32 using that by (simp add: unat_word_ariths)
  from this [OF x] have "unat (x - first s) < 68" by simp
  moreover have "unat (of_nat (16 + n) :: u32) = 16 + n" using b by (simp add: unat_of_nat del: of_nat_add)
  ultimately show "x \<in> bytes (first s) (of_nat (16 + n))" using assms(3) by (simp add: bytes_def word_less_nat_alt)
qed

text \<open>The two headers left and right of the new thread's structure.\<close>

lemma headers_apart:
  assumes ok: "heap_ok s bs" "extent bs = 16 + n" and n: "69 \<le> n" and x: "x \<in> headers s [(True, 52), (False, n - 68)]"
  shows "of_nat x \<in> bytes (first s) (of_nat (16 + n))" "of_nat x \<notin> bytes (first s + 16) 52"
proof -
  have b: "0 < unat (first s)" "unat (first s) + (16 + n) \<le> 2 ^ 32"
    using ok by (simp_all add: heap_ok_def heap_rep_def)
  have x': "unat (first s) \<le> x" "x < unat (first s) + 16 + n" "x < unat (first s) + 16 \<or> unat (first s) + 68 \<le> x"
    using x n by (auto simp: headers_def)
  show "of_nat x \<in> bytes (first s) (of_nat (16 + n))" by (rule heap_bytes [OF ok x'(1,2)])
  have "unat (first s + 16) = unat (first s) + 16" "unat (of_nat x :: u32) = x"
    using b x' n by (simp_all add: unat_word_ariths unat_of_nat)
  then have "52 \<le> unat (of_nat x - (first s + 16))" using x' b n by (auto simp: unat_sub_if' le_diff_conv2)
  then show "of_nat x \<notin> bytes (first s + 16) 52" by (simp add: bytes_def word_less_nat_alt)
qed

lemma alloc_thread:
  assumes ok: "heap_ok s [(False, n)]" and n: "69 \<le> n"
  obtains m where "kmalloc 52 s = Done (first s + 16) (s\<lparr>mem := m\<rparr>)" "heap_ok (s\<lparr>mem := m\<rparr>) [(True, 52), (False, n - 68)]"
    "only (bytes (first s) (of_nat (16 + n))) (mem s) m"
proof -
  have "alloc_list (unat (52 :: u32)) [(False, n)] = Some (0, [(True, 52), (False, n - 68)])" using n by simp
  then obtain t where t: "kmalloc 52 s = Done (first s + of_nat 0 + 16) t" "heap_ok t [(True, 52), (False, n - 68)]"
    "only_headers (headers s [(False, n)] \<union> headers s [(True, 52), (False, n - 68)]) (mem s) (mem t)"
    using kmalloc_simulation [OF ok, of 52] by (auto simp del: alloc_list.simps)
  obtain m where m: "t = s\<lparr>mem := m\<rparr>" using kmalloc_only_mem [OF t(1)] by blast
  have "m x = mem s x" if x: "x \<notin> bytes (first s) (of_nat (16 + n))" for x
  proof -
    have "unat x \<notin> headers s [(False, n)] \<union> headers s [(True, 52), (False, n - 68)]"
    proof
      assume "unat x \<in> headers s [(False, n)] \<union> headers s [(True, 52), (False, n - 68)]"
      then have "unat (first s) \<le> unat x" "unat x < unat (first s) + 16 + n" using n by (auto simp: headers_def)
      then show False using heap_bytes [OF ok, of n "unat x"] x by simp
    qed
    then have "mem t (of_nat (unat x)) = mem s (of_nat (unat x))"
      using t(3) unat_u32_less [of x] unfolding only_headers_def by blast
    then show ?thesis by (simp add: m)
  qed
  then show thesis using that [of m] t(1,2) m by (simp add: only_def)
qed


text \<open>Creating the thread switches to it; its first round switches back to the main thread.\<close>

lemma thread_pages:
  assumes room: "frames_ok s" "pages_prefix k s" "k + 1 < 1024" "k < 1024" "prefix_used f s" "f < nframes s"
    and dis: "bytes task 52 \<inter> bytes (first_page_table s) 4096 = {}"
  obtains u where "kthread_create task e s = Done () (preempt u)"
    "u = (set_frame f s)\<lparr>next_free_page := KERNEL_VIRTUAL_BASE + (k + 1) * 0x1000, mem := new_thread_links task
        (KERNEL_VIRTUAL_BASE + k * 0x1000) (last_thread s)
        (set_entry (first_page_table s) k ((f * 0x1000) OR 3 OR 4) (new_thread_regs task e s)), last_thread := task\<rparr>"
proof -
  let ?s = "s\<lparr>mem := new_thread_regs task e s\<rparr>"
  have "entry (new_thread_regs task e s) (first_page_table s) j = entry (mem s) (first_page_table s) j" if "j < 1024" for j
    using dis by (intro only_entry [OF only_new_thread_regs _ that]) blast
  then have "pages_prefix k ?s" using room(2) by (simp add: pages_prefix_def)
  moreover have "frames_ok ?s" "prefix_used f ?s" "f < nframes ?s"
    using room(1,5,6) by (simp_all add: frames_ok_def prefix_used_def frame_used_def)
  ultimately have "kalloc_page ?s = Done (KERNEL_VIRTUAL_BASE + k * 0x1000) ((set_frame f ?s)
    \<lparr>mem := set_entry (first_page_table s) k ((f * 0x1000) OR 3 OR 4) (new_thread_regs task e s), next_free_page := KERNEL_VIRTUAL_BASE + (k + 1) * 0x1000\<rparr>)"
    using kalloc_page_prefix_eq [of ?s k f] room(3,4) by simp
  then show thesis
    by (intro that) (simp_all add: kthread_create_eq set_frame_def)
qed

text \<open>What memory holds of the new thread and its page after both threads have saved their registers.\<close>

lemma round_memory:
  assumes k: "k < 1024" and o: "only (bytes task 52) m0 m1" and m3: "m3 = set_entry tab k e m1"
    and m4: "m4 = new_thread_links task page main m3" "th_virtual_addr m4 task = page"
    and m6: "m6 = save_regs task c d (save_regs main c' d' m4)"
    and dis: "bytes task 52 \<inter> bytes main 52 = {}" "bytes task 52 \<inter> bytes tab 4096 = {}" "bytes main 52 \<inter> bytes tab 4096 = {}"
  shows "only (bytes main 52 \<union> bytes task 52 \<union> bytes tab 4096) m0 m6" "th_virtual_addr m6 task = page" "entry m6 tab k = e"
    "load_regs m6 task = c"
proof -
  let ?R = "bytes main 52 \<union> bytes task 52 \<union> bytes tab 4096"
  show "load_regs m6 task = c" using ctx_save_same [of task c d] by (simp add: m6 ctx_def)
  have saves: "only (bytes main 44 \<union> bytes task 44) m4 m6"
    unfolding m6 by (rule only_trans [OF only_save_regs only_save_regs]) auto
  have o3: "only ?R m0 m3"
    unfolding m3 by (rule only_trans [OF o only_set_entry [OF k]]) auto
  have o4: "only (bytes task 52 \<union> bytes main 52) m3 m4" unfolding m4(1) by (rule only_new_thread_links)
  have "only ?R m0 m4" using o3 o4 by (rule only_trans) auto
  then show "only ?R m0 m6"
    using saves by (rule only_trans) (use bytes_mono [of 44 52] in auto)
  have "bytes (task + 44) 4 \<subseteq> bytes task 52" by (rule field_bytes) simp
  moreover have "bytes (task + 44) 4 \<inter> bytes task 44 = {}"
  proof -
    have "44 \<le> unat (y + 44)" if "unat y < 4" for y :: u32 using that by (simp add: unat_word_ariths)
    from this [of "x - (task + 44)" for x] have "unat (x - (task + 44)) < 4 \<Longrightarrow> \<not> unat (x - task) < 44" for x by fastforce
    then show ?thesis unfolding bytes_def word_less_nat_alt by auto
  qed
  ultimately have "bytes (task + 44) 4 \<inter> (bytes main 44 \<union> bytes task 44) = {}"
    using dis(1) bytes_mono [of 44 52 main] by auto
  then show "th_virtual_addr m6 task = page" using only_rd32 [OF saves] m4(2) by (simp add: th_virtual_addr_def)
  have "only (bytes main 52 \<union> bytes task 52) m3 m6"
    by (rule only_trans [OF o4 saves]) (use bytes_mono [of 44 52] in auto)
  then have "entry m6 tab k = entry m3 tab k"
    using dis(2,3) k by (intro only_entry) auto
  then show "entry m6 tab k = e" using k by (simp add: m3 entry_def set_entry_def)
qed

lemma threads_ok_upd [simp]: "threads_ok (s\<lparr>cpu := c\<rparr>) ts = threads_ok s ts" "threads_ok (tty_update f s) ts = threads_ok s ts"
  by (simp_all add: threads_ok_def)

lemma first_round:
  fixes s :: "'a boot_scheme"
  assumes threads: "threads_ok s [main]" "running_thread s = main"
    and room: "frames_ok s" "pages_prefix k s" "k + 1 < 1024" "k < 1024" "prefix_used f s" "f < nframes s"
    and dis: "bytes task 52 \<inter> bytes main 52 = {}" "bytes task 52 \<inter> bytes (first_page_table s) 4096 = {}"
      "bytes main 52 \<inter> bytes (first_page_table s) 4096 = {}"
  obtains u m where "kthread_create task e s = Done () u" "threads_ok (test_round u) [main, task]" "running_thread (test_round u) = main"
    "\<exists>g c d. test_round u = (tty_update g ((set_frame f s)\<lparr>next_free_page := KERNEL_VIRTUAL_BASE + (k + 1) * 0x1000,
       last_thread := task\<rparr>))\<lparr>mem := m, cpu := c, cr3 := d\<rparr>"
    "only (bytes main 52 \<union> bytes task 52 \<union> bytes (first_page_table s) 4096) (mem s) m"
    "th_virtual_addr m task = KERNEL_VIRTUAL_BASE + k * 0x1000"
    "entry m (first_page_table s) k = (f * 0x1000) OR 3 OR 4" "load_regs m task = regs_in_test s"
proof -
  define page where "page = KERNEL_VIRTUAL_BASE + k * 0x1000"
  define m3 where "m3 = set_entry (first_page_table s) k ((f * 0x1000) OR 3 OR 4) (new_thread_regs task e s)"
  define m4 where "m4 = new_thread_links task page main m3"
  have lst: "last_thread s = main" "main_thread s = main" using threads(1) by (auto simp: threads_ok_def)
  obtain u0 where c: "kthread_create task e s = Done () (preempt u0)"
    and u0: "u0 = (set_frame f s)\<lparr>next_free_page := KERNEL_VIRTUAL_BASE + (k + 1) * 0x1000, mem := m4, last_thread := task\<rparr>"
    using thread_pages [OF room dis(2), of e] unfolding lst m4_def m3_def page_def by blast
  have ap: "apart 52 task main" using disjoint_apart [OF dis(1)] by (simp add: apart_def)
  have cl: "\<forall>t \<in> insert task (set [main]). clear_of_table s t"
    using disjoint_apart [OF dis(2)] disjoint_apart [OF dis(3)] by (simp add: clear_of_table_def)
  have th: "threads_ok (preempt u0) [main, task]" "running_thread (preempt u0) = task"
    using kthread_create_step [OF threads(1) room(1) _ _ _ cl c, of 0] ap threads(2) by simp_all
  define v where "v = (tty_update (terminal_writestring ''In thread 2'') (preempt u0))\<lparr>cpu := regs_in_test (preempt u0)\<rparr>"
  have v: "threads_ok v [main, task]" "running_thread v = [main, task] ! 1"
    using th by (simp_all add: v_def)
  have tr: "test_round (preempt u0) = preempt v" by (simp add: test_round_def v_def)
  have w: "threads_ok (preempt v) [main, task]" "running_thread (preempt v) = main"
    using preempt_step [OF v(1) _ v(2)] by simp_all
  define m5 where "m5 = save_regs (running_thread u0) (cpu u0) (cr3 u0) m4"
  have mu: "mem u0 = m4" by (simp add: u0)
  obtain r c d where p: "preempt u0 = u0\<lparr>running_thread := r, mem := m5, cpu := c, cr3 := d\<rparr>"
    using preempt_fields [of u0] unfolding mu m5_def by blast
  define g where "g = terminal_writestring ''In thread 2''"
  have v_eq: "v = (tty_update g u0)\<lparr>running_thread := r, mem := m5, cpu := regs_in_test (preempt u0), cr3 := d\<rparr>"
    unfolding v_def p g_def by simp
  have ru: "running_thread u0 = main" by (simp add: u0 set_frame_def threads(2))
  define m6 where "m6 = save_regs task (cpu v) (cr3 v) m5"
  have "mem v = m5" by (simp add: v_eq)
  then obtain r' c' d' where pv: "preempt v = v\<lparr>running_thread := r', mem := m6, cpu := c', cr3 := d'\<rparr>"
    using preempt_fields [of v] v(2) by (auto simp: m6_def)
  have shape: "\<exists>c d. preempt v = (tty_update g ((set_frame f s)\<lparr>next_free_page := KERNEL_VIRTUAL_BASE + (k + 1) * 0x1000,
      last_thread := task\<rparr>))\<lparr>mem := m6, cpu := c, cr3 := d\<rparr>"
  proof (intro exI)
    have "r' = running_thread s" using w(2) threads(2) by (simp add: pv)
    then show "preempt v = (tty_update g ((set_frame f s)\<lparr>next_free_page := KERNEL_VIRTUAL_BASE + (k + 1) * 0x1000,
      last_thread := task\<rparr>))\<lparr>mem := m6, cpu := c', cr3 := d'\<rparr>"
      unfolding pv unfolding v_eq u0 by (simp add: set_frame_def)
  qed
  have "th_virtual_addr m4 task = page"
    using kthread_create_links(4) [OF threads(1) _ cl room(4), of "page" "(f * 0x1000) OR 3 OR 4" e] ap
    by (simp add: m4_def m3_def lst)
  moreover have "regs_in_test (preempt u0) = regs_in_test u0" "regs_in_test u0 = regs_in_test s"
    unfolding p by (simp_all add: u0 set_frame_def)
  then have "cpu v = regs_in_test s" by (simp add: v_def)
  ultimately have m6': "load_regs m6 task = cpu v \<Longrightarrow> load_regs m6 task = regs_in_test s" "th_virtual_addr m4 task = page" by simp_all
  note mem = round_memory [OF room(4) only_new_thread_regs [of task s e] m3_def m4_def m6'(2) m6_def [unfolded m5_def ru] dis]
  show thesis
    using that [of "preempt u0" m6] c tr w shape mem(1-3) m6'(1) [OF mem(4)] unfolding page_def by metis
qed


text \<open>Joining and freeing the thread.\<close>

lemma threads_ok_mem:
  assumes ok: "threads_ok s [main, task]" and o: "only R (mem s) (mem t)" and dis: "bytes main 52 \<inter> R = {}"
    and same: "main_thread t = main_thread s" "last_thread t = last_thread s" "running_thread t = running_thread s"
  shows "threads_ok t [main, task]"
proof -
  have "bytes (main + 48) 4 \<subseteq> bytes main 52" by (rule field_bytes) simp
  then have "bytes (main + 48) 4 \<inter> R = {}" using dis by blast
  then have "th_next (mem t) main = th_next (mem s) main" using only_rd32 [OF o] by (simp add: th_next_def)
  then show ?thesis using ok same by (auto simp: threads_ok_def)
qed

lemma free_thread:
  assumes ok: "heap_ok s [(True, 52), (False, n - 68)]" and n: "69 \<le> n"
  obtains t where "kfree (first s + 16) s = Done () t" "heap_ok t [(False, n)]" "first t = first s"
    "only (bytes (first s) (of_nat (16 + n)) - bytes (first s + 16) 52) (mem s) (mem t)" "\<exists>m. t = s\<lparr>mem := m\<rparr>"
proof -
  have ext: "extent [(True, 52), (False, n - 68)] = 16 + n" using n by simp
  have b: "0 < unat (first s)" "unat (first s) + (16 + n) \<le> 2 ^ 32"
    using ok unfolding heap_ok_def heap_rep_def ext by simp_all
  then have p: "unat (first s + 16) = unat (first s) + 16" using n by (simp add: unat_word_ariths)
  then have "(unat (first s + 16), 52) \<in> regions (unat (first s)) [(True, 52), (False, n - 68)]" by simp
  from kfree_simulation [OF ok this] obtain t where t: "kfree (first s + 16) s = Done () t" "first t = first s"
    "heap_ok t (coalesce (mark_free 0 [(True, 52), (False, n - 68)]))" "only_headers (headers s [(True, 52), (False, n - 68)]) (mem s) (mem t)"
    by (auto simp: p)
  have "mem t x = mem s x" if x: "x \<notin> bytes (first s) (of_nat (16 + n)) - bytes (first s + 16) 52" for x
  proof -
    have "unat x \<notin> headers s [(True, 52), (False, n - 68)]" using headers_apart [OF ok ext n, of "unat x"] x by auto
    then have "mem t (of_nat (unat x)) = mem s (of_nat (unat x))"
      using t(4) unat_u32_less [of x] unfolding only_headers_def by blast
    then show ?thesis by simp
  qed
  moreover have "\<exists>m. t = s\<lparr>mem := m\<rparr>" using t(1) by (auto simp: kfree_def Let_def split_beta)
  ultimately show thesis using that [OF t(1)] t(2,3) n by (simp add: only_def)
qed

lemma kernel_mapped_frame:
  fixes s t :: "'a tasking_scheme"
  assumes "kernel_mapped s" and "only R (mem s) (mem t)" and "bytes (kernel_page_dir s) 4096 \<inter> R = {}"
    and "kernel_page_dir t = kernel_page_dir s" and "first_page_table t = first_page_table s"
  shows "kernel_mapped t"
  using assms(1,4,5) only_entry [OF assms(2,3), of KERNEL_PAGE_NUMBER]
  by (simp add: kernel_mapped_def KERNEL_PAGE_NUMBER_def KERNEL_VIRTUAL_BASE_def)

lemma thread_ended:
  fixes w :: "'a tasking_scheme"
  assumes heap: "heap_ok w [(True, 52), (False, n - 68)]" "69 \<le> n"
    and threads: "threads_ok w [main, first w + 16]" "main \<noteq> 0" "running_thread w = main"
    and pg: "tables_ok w" "kernel_mapped w" "frames_ok w" "f < nframes w" "k < 1024"
      "entry (mem w) (first_page_table w) k = (f * 0x1000) OR 3 OR 4" "th_virtual_addr (mem w) (first w + 16) = KERNEL_VIRTUAL_BASE + k * 0x1000"
    and dis: "bytes (first w) (of_nat (16 + n)) \<inter> bytes main 52 = {}"
      "bytes (first w) (of_nat (16 + n)) \<inter> bytes (first_page_table w) 4096 = {}"
      "bytes (first w) (of_nat (16 + n)) \<inter> bytes (kernel_page_dir w) 4096 = {}" "bytes main 52 \<inter> bytes (first_page_table w) 4096 = {}"
      "bytes (first_page_table w) 4096 \<inter> bytes (kernel_page_dir w) 4096 = {}"
  shows "\<exists>t. obind (kthread_join (first w + 16) w) (\<lambda>_. kfree (first w + 16)) = Done () t \<and> heap_ok t [(False, n)] \<and> first t = first w \<and>
    threads_ok t [main, first w + 16] \<and> running_thread t = main \<and>
    (\<forall>i. i div 32 = f div 32 \<longrightarrow> \<not> frame_used t i) \<and> phys t (KERNEL_VIRTUAL_BASE + k * 0x1000) = None \<and>
    load_regs (mem t) (first w + 16) = load_regs (mem w) (first w + 16)"
proof -
  have main: "main_thread w = main" using threads(1) by (simp add: threads_ok_def)
  define u where "u = w\<lparr>frame_map := (frame_map w)(f div 32 := 0), mem := set_entry (first_page_table w) k 0 (mem w),
      next_free_page := KERNEL_VIRTUAL_BASE + k * 0x1000\<rparr>"
  have join: "kthread_join (first w + 16) w = Done () u"
    using join_second [of w "first w + 16" "[]"] threads main kfree_page_kernel [OF pg(1-6)] pg(7) by (simp add: u_def)
  have o1: "only (bytes (first_page_table w) 4096) (mem w) (mem u)" using only_set_entry [OF pg(5)] by (simp add: u_def)
  have ext: "extent [(True, 52), (False, n - 68)] = 16 + n" using heap(2) by simp
  have hb: "of_nat x \<in> bytes (first w) (of_nat (16 + n))" if "x \<in> headers w [(True, 52), (False, n - 68)]" for x
    using that heap(2) by (intro heap_bytes [OF heap(1) ext]) (auto simp: headers_def)
  have "heap_ok u [(True, 52), (False, n - 68)]"
    by (rule heap_ok_frame [OF heap(1)]) (use o1 hb dis(2) in \<open>auto simp: only_def u_def\<close>)
  then obtain t m where t: "kfree (first u + 16) u = Done () t" "heap_ok t [(False, n)]" "first t = first u"
    "only (bytes (first u) (of_nat (16 + n)) - bytes (first u + 16) 52) (mem u) (mem t)" "t = u\<lparr>mem := m\<rparr>"
    using free_thread heap(2) by metis
  have o2: "only (bytes (first w) (of_nat (16 + n)) \<union> bytes (first_page_table w) 4096) (mem w) (mem t)"
    using o1 t(4) by (rule only_trans) (auto simp: u_def)
  have "threads_ok t [main, first w + 16]"
    by (rule threads_ok_mem [OF threads(1) o2]) (use dis(1,4) in \<open>auto simp: t(5) u_def\<close>)
  moreover have "phys t (KERNEL_VIRTUAL_BASE + k * 0x1000) = None"
  proof -
    have d: "k * 0x1000 < 0x400000" using pg(5) by (simp add: word_less_nat_alt unat_word_ariths)
    have "kernel_mapped t"
      by (rule kernel_mapped_frame [OF pg(2) o2]) (use dis(3,5) in \<open>auto simp: t(5) u_def\<close>)
    moreover have "tables_ok t" using pg(1) by (simp add: t(5) u_def tables_ok_def)
    moreover have "entry (mem t) (first_page_table t) k = 0"
      using only_entry [OF t(4) _ pg(5), of "first_page_table w"] dis(2) pg(5)
      by (auto simp: t(5) u_def entry_def set_entry_def)
    ultimately show ?thesis
      using phys_kernel [of t, OF _ _ d] page_addr_div [OF pg(5)] by (simp add: PAGE_PRESENT_def)
  qed
  moreover have "load_regs (mem t) (first w + 16) = load_regs (mem w) (first w + 16)"
  proof -
    have "bytes (first w + 16) 52 \<subseteq> bytes (first w) (of_nat (16 + n))" by (rule task_in_heap [OF heap(1) ext heap(2)])
    then have "bytes (first w + 16) 52 \<inter> bytes (first_page_table w) 4096 = {}" using dis(2) by blast
    moreover have "first u = first w" by (simp add: u_def)
    ultimately show ?thesis using only_load_regs [OF o1] only_load_regs [OF t(4), of "first w + 16"] by auto
  qed
  moreover have "\<not> frame_used t i" if "i div 32 = f div 32" for i using that by (simp add: frame_used_def t(5) u_def)
  moreover have "first u = first w" "running_thread t = main" using threads(3) by (simp_all add: t(5) u_def)
  ultimately show ?thesis using join t(1-3) by auto
qed

lemma boot_alloc:
  fixes s :: "'a boot_scheme"
  assumes ok: "heap_ok s [(False, n)]" "69 \<le> n" and dis: "bytes (first s) (of_nat (16 + n)) \<inter> bytes (main_thread s) 52 = {}"
  obtains m where "kmalloc 52 (init_tasking s) = Done (first s + 16) ((init_tasking s)\<lparr>mem := m\<rparr>)"
    "heap_ok ((init_tasking s)\<lparr>mem := m\<rparr>) [(True, 52), (False, n - 68)]"
    "only (bytes (first s) (of_nat (16 + n)) \<union> bytes (main_thread s) 52) (mem s) m"
proof -
  have f: "first (init_tasking s) = first s" by (simp add: init_tasking_def Let_def)
  note o1 = only_init_tasking [of s]
  have hb: "of_nat x \<in> bytes (first s) (of_nat (16 + n))" if "x \<in> headers s [(False, n)]" for x
    using heap_bytes [OF ok(1), of n x] that by (auto simp: headers_def)
  have "heap_ok (init_tasking s) [(False, n)]"
    by (rule heap_ok_frame [OF ok(1) f]) (use o1 hb dis in \<open>auto simp: only_def\<close>)
  then obtain m where m: "kmalloc 52 (init_tasking s) = Done (first s + 16) ((init_tasking s)\<lparr>mem := m\<rparr>)"
    "heap_ok ((init_tasking s)\<lparr>mem := m\<rparr>) [(True, 52), (False, n - 68)]"
    "only (bytes (first s) (of_nat (16 + n))) (mem (init_tasking s)) m"
    using alloc_thread [OF _ ok(2), of "init_tasking s"] unfolding f by blast
  have "only (bytes (first s) (of_nat (16 + n)) \<union> bytes (main_thread s) 52) (mem s) m"
    using o1 m(3) by (rule only_trans) auto
  then show thesis using that m(1,2) by blast
qed

text \<open>The state in which the main thread goes on after the first round of the new thread.\<close>

lemma boot_started:
  fixes s :: "'a boot_scheme"
  assumes room: "threads_room n k f s"
  obtains w where "boot_threads s = obind (kthread_join (first s + 16) w) (\<lambda>_. kfree (first s + 16))"
    "heap_ok w [(True, 52), (False, n - 68)]" "threads_ok w [main_thread s, first s + 16]" "running_thread w = main_thread s"
    "tables_ok w" "kernel_mapped w" "frames_ok w" "f < nframes w" "entry (mem w) (first_page_table w) k = (f * 0x1000) OR 3 OR 4"
    "th_virtual_addr (mem w) (first w + 16) = KERNEL_VIRTUAL_BASE + k * 0x1000"
    "first w = first s" "first_page_table w = first_page_table s" "kernel_page_dir w = kernel_page_dir s"
    "load_regs (mem w) (first s + 16) = regs_in_test s"
proof -
  note room' = room [unfolded threads_room_def Let_def]
  define main task tab dir heap where "main = main_thread s" and "task = first s + 16" and "tab = bytes (first_page_table s) 4096"
    and "dir = bytes (kernel_page_dir s) 4096" and "heap = bytes (first s) (of_nat (16 + n))"
  note defs = main_def task_def tab_def dir_def heap_def
  have ok: "heap_ok s [(False, n)]" "69 \<le> n" using room' by blast+
  have th: "bytes task 52 \<subseteq> heap" unfolding task_def heap_def using task_in_heap [OF ok(1) _ ok(2)] by simp
  have dis: "heap \<inter> bytes main 52 = {}" "heap \<inter> tab = {}" "heap \<inter> dir = {}" "bytes main 52 \<inter> tab = {}" "bytes main 52 \<inter> dir = {}" "tab \<inter> dir = {}"
    using room' unfolding defs by blast+
  obtain m where m: "kmalloc 52 (init_tasking s) = Done task ((init_tasking s)\<lparr>mem := m\<rparr>)"
    "heap_ok ((init_tasking s)\<lparr>mem := m\<rparr>) [(True, 52), (False, n - 68)]" "only (heap \<union> bytes main 52) (mem s) m"
    using boot_alloc [OF ok] dis(1) unfolding defs by blast
  define s2 where "s2 = (init_tasking s)\<lparr>mem := m, cpu := regs_in_create s\<rparr>"
  have s2: "first s2 = first s" "main_thread s2 = main" "running_thread s2 = main" "first_page_table s2 = first_page_table s"
      "kernel_page_dir s2 = kernel_page_dir s" "nframes s2 = nframes s" "frame_map s2 = frame_map s" "next_free_page s2 = next_free_page s"
      "mem s2 = m" "last_thread s2 = main" "regs_in_test s2 = regs_in_test s"
    by (simp_all add: s2_def main_def init_tasking_def Let_def)
  have ent: "entry m (first_page_table s) j = entry (mem s) (first_page_table s) j" if "j < 1024" for j
    using dis(2,4) unfolding tab_def by (intro only_entry [OF m(3) _ that]) blast
  have room2: "frames_ok s2" "pages_prefix k s2" "k + 1 < 1024" "k < 1024" "prefix_used f s2" "f < nframes s2"
    using room' ent by (auto simp: frames_ok_def pages_prefix_def prefix_used_def frame_used_def s2)
  have "threads_ok s2 [main]" by (simp add: threads_ok_def s2)
  then obtain u m' where u: "kthread_create task (test_addr s) s2 = Done () u" "threads_ok (test_round u) [main, task]" "running_thread (test_round u) = main"
    "\<exists>g c d. test_round u = (tty_update g ((set_frame f s2)\<lparr>next_free_page := KERNEL_VIRTUAL_BASE + (k + 1) * 0x1000,
       last_thread := task\<rparr>))\<lparr>mem := m', cpu := c, cr3 := d\<rparr>"
    "only (bytes main 52 \<union> bytes task 52 \<union> tab) m m'" "th_virtual_addr m' task = KERNEL_VIRTUAL_BASE + k * 0x1000"
    "entry m' (first_page_table s) k = (f * 0x1000) OR 3 OR 4" "load_regs m' task = regs_in_test s2"
    using first_round [OF _ s2(3) room2, of task "test_addr s"] th dis(1,2,4) unfolding s2 tab_def by blast
  define w where "w = test_round u"
  have w: "mem w = m'" "first w = first s" "first_page_table w = first_page_table s" "kernel_page_dir w = kernel_page_dir s"
      "nframes w = nframes s"
    using u(4) s2 by (auto simp: w_def set_frame_def)
  have hw: "heap_ok w [(True, 52), (False, n - 68)]"
  proof (rule heap_ok_frame [OF m(2)])
    have "of_nat x \<notin> bytes main 52 \<union> bytes task 52 \<union> tab" if "x \<in> headers s [(True, 52), (False, n - 68)]" for x
      using headers_apart [OF ok(1) _ ok(2) that] dis(1,2) unfolding defs by simp blast
    then show "\<forall>x \<in> headers ((init_tasking s)\<lparr>mem := m\<rparr>) [(True, 52), (False, n - 68)].
        mem w (of_nat x) = mem ((init_tasking s)\<lparr>mem := m\<rparr>) (of_nat x)"
      using u(5) s2(1) w(1) by (auto simp: only_def headers_def s2_def)
  qed (use s2(1) w(2) in \<open>simp add: s2_def\<close>)
  have o: "only (heap \<union> bytes main 52 \<union> tab) (mem s) (mem w)"
    unfolding w(1) by (rule only_trans [OF m(3) u(5)]) (use th in auto)
  have km: "kernel_mapped w"
    by (rule kernel_mapped_frame [OF _ o]) (use room' dis(3,5,6) w in \<open>auto simp: dir_def\<close>)
  have "(init_tasking s)\<lparr>mem := m, cpu := regs_in_create (init_tasking s)\<rparr> = s2" "test_addr (init_tasking s) = test_addr s"
    by (simp_all add: s2_def init_tasking_def Let_def)
  then have "boot_threads s = obind (kthread_join task w) (\<lambda>_. kfree task)" using m(1) u(1) by (simp add: boot_threads_def w_def)
  moreover have "tables_ok w" "frames_ok w" "f < nframes w" using room' w by (simp_all add: tables_ok_def frames_ok_def)
  ultimately show thesis
    using that [OF _ hw _ _ _ km] u(2,3,6-8) w s2(11) unfolding defs w_def [symmetric] by simp
qed

lemma boot_threads_result:
  fixes s :: "'a boot_scheme"
  assumes room: "threads_room n k f s"
  shows "\<exists>t. boot_threads s = Done () t \<and> heap_ok t [(False, n)] \<and> first t = first s \<and>
    threads_ok t [main_thread s, first s + 16] \<and> running_thread t = main_thread s \<and>
    (\<forall>i. i div 32 = f div 32 \<longrightarrow> \<not> frame_used t i) \<and> phys t (KERNEL_VIRTUAL_BASE + k * 0x1000) = None \<and>
    load_regs (mem t) (first s + 16) = regs_in_test s"
proof -
  note room' = room [unfolded threads_room_def Let_def]
  obtain w where w: "boot_threads s = obind (kthread_join (first s + 16) w) (\<lambda>_. kfree (first s + 16))"
    "heap_ok w [(True, 52), (False, n - 68)]" "threads_ok w [main_thread s, first s + 16]" "running_thread w = main_thread s"
    "tables_ok w" "kernel_mapped w" "frames_ok w" "f < nframes w" "entry (mem w) (first_page_table w) k = (f * 0x1000) OR 3 OR 4"
    "th_virtual_addr (mem w) (first w + 16) = KERNEL_VIRTUAL_BASE + k * 0x1000"
    and same: "first w = first s" "first_page_table w = first_page_table s" "kernel_page_dir w = kernel_page_dir s"
      "load_regs (mem w) (first s + 16) = regs_in_test s"
    using boot_started [OF room] by metis
  have n: "69 \<le> n" "main_thread s \<noteq> 0" "k < 1024" using room' by blast+
  have "\<exists>t. obind (kthread_join (first w + 16) w) (\<lambda>_. kfree (first w + 16)) = Done () t \<and> heap_ok t [(False, n)] \<and> first t = first w \<and>
    threads_ok t [main_thread s, first w + 16] \<and> running_thread t = main_thread s \<and>
    (\<forall>i. i div 32 = f div 32 \<longrightarrow> \<not> frame_used t i) \<and> phys t (KERNEL_VIRTUAL_BASE + k * 0x1000) = None \<and>
    load_regs (mem t) (first w + 16) = load_regs (mem w) (first w + 16)"
    by (rule thread_ended [OF w(2) n(1) _ n(2) w(4-8) n(3) w(9,10)]) (use w(3) room' in \<open>auto simp: same(1-3)\<close>)
  then show ?thesis by (simp add: w(1) same)
qed

section \<open>From the memory stage to the thread stage\<close>

lemma pages_bytes_apart:
  assumes "page_aligned a" "page_aligned b" "a < b"
  shows "unat a + 4096 \<le> unat b" "bytes a 4096 \<inter> bytes b 4096 = {}"
proof -
  have "4096 dvd unat a" "4096 dvd unat b" "unat a < unat b"
    using assms by (simp_all add: page_aligned_unat mod_eq_0_iff_dvd word_less_nat_alt)
  then show "unat a + 4096 \<le> unat b" by (auto elim!: dvdE)
  then show "bytes a 4096 \<inter> bytes b 4096 = {}"
    using entry_addr_unat(2) [OF assms(2), of 0] by (intro bytes_apart) simp_all
qed

text \<open>The main thread's structure is a static object of the kernel, apart from the page tables.\<close>

definition main_thread_placed :: "u32 \<Rightarrow> 'a boot_scheme \<Rightarrow> bool" where
  "main_thread_placed k s \<longleftrightarrow> main_thread s \<noteq> 0 \<and> unat (main_thread s) + 52 \<le> unat (heap_page k) \<and>
     bytes (main_thread s) 52 \<inter> bytes (first_page_table s) 4096 = {} \<and>
     bytes (main_thread s) 52 \<inter> bytes (kernel_page_dir s) 4096 = {}"

lemma memory_threads_room:
  fixes s :: "'a boot_scheme"
  assumes mr: "memory_room k s" and mt: "main_thread_placed k s" and room: "unat k + 16 < 1024" "unat k + 16 \<le> unat (memupper_size s div 4)"
  obtains t where "boot_memory s = Done () t" "threads_room 0xEFF0 (k + 15) (k + 15) t" "first t = heap_page k" "main_thread t = main_thread s"
    "regs_in_test t = regs_in_test s"
proof -
  obtain t where t: "boot_memory s = Done () t" "first t = heap_page k" "heap_ok t [(False, 0xEFF0)]"
    "tables_ok t" "kernel_mapped t" "pages_prefix (k + 15) t" "prefix_used (k + 15) t" "frames_ok t"
    "nframes t = memupper_size s div 4" "kernel_page_dir t = kernel_page_dir s" "first_page_table t = first_page_table s"
    "heap.more t = heap.more s"
    using boot_memory_result [OF mr] by blast
  have main: "main_thread t = main_thread s" "regs_in_test t = regs_in_test s" using t(12) by (cases t; cases s; simp)+
  have tabs: "tables_ok s" "kernel_page_dir s < heap_page k" "first_page_table s < heap_page k" using mr unfolding memory_room_def by auto
  have hp: "unat (heap_page k) = 0xC0000000 + unat k * 4096" using room(1) by (intro unat_heap_page) simp
  then have al: "page_aligned (heap_page k)" and top: "unat (heap_page k) + unat (0xF000 :: u32) \<le> 2 ^ 32"
    using room(1) by (simp_all add: page_aligned_unat)
  have below: "bytes a n \<inter> bytes (heap_page k) 0xF000 = {}" if "unat a + unat n \<le> unat (heap_page k)" for a n
    using bytes_apart [OF that top] .
  have tb: "bytes (heap_page k) 0xF000 \<inter> bytes a 4096 = {}" if "a \<in> {kernel_page_dir s, first_page_table s}" for a
    using that tabs below [of a 4096] pages_bytes_apart(1) [OF _ al, of a] by (auto simp: tables_ok_def)
  have td: "bytes (first_page_table s) 4096 \<inter> bytes (kernel_page_dir s) 4096 = {}"
    using tabs(1) pages_bytes_apart(2) [of "first_page_table s" "kernel_page_dir s"] pages_bytes_apart(2) [of "kernel_page_dir s" "first_page_table s"]
    by (cases "first_page_table s" "kernel_page_dir s" rule: linorder_cases) (auto simp: tables_ok_def)
  have "k + 15 + 1 < 1024" "k + 15 < 1024" "k + 15 < nframes t"
    using room t(9) by (simp_all add: word_less_nat_alt unat_word_ariths)
  then have "threads_room 0xEFF0 (k + 15) (k + 15) t"
    using t mt tb td below [of "main_thread s" 52] unfolding threads_room_def main_thread_placed_def Let_def main by (auto simp: Int_commute)
  then show thesis using that t(1,2) main by blast
qed

text \<open>A thread structure read as the head of a buffer.\<close>

lemma low_byte: "ucast (rd32 m a) = m a"
  by (rule bit_word_eqI) (simp add: rd32_def bit_simps)

lemma buffer_of_regs:
  "load_regs m a = c \<Longrightarrow> bh_flags m a = ucast (c_eax c) \<and> bh_dirty m a = ucast (c_ecx c) \<and> bh_count m a = c_edx c"
  by (auto simp: load_regs_def bh_get_defs low_byte)

text \<open>C9: The thread stage of \<^verbatim>\<open>kernel_main\<close>, run on the memory the stage before it leaves, completes: the first thread gets a structure from the
  heap and a stack page, runs one round, is joined, and the heap is one free block again. But the thread stays in the list of
  threads behind the main thread although its structure, at the start of the heap, has been freed and its stack page is
  unmapped, and all 32 frames that share a word of the map with the stack's frame are marked free, the frames of the heap next
  to it included. The freed memory is not cleared either: where \<^verbatim>\<open>init_buffer\<close> will put its first buffer, the fields it does not
  initialise hold registers of the thread.
\<close>

theorem boot_thread_freed_but_scheduled:
  fixes s :: "'a boot_scheme"
  assumes "memory_room k s" and "main_thread_placed k s" and "unat k + 16 < 1024" and "unat k + 16 \<le> unat (memupper_size s div 4)"
  shows "\<exists>t. obind (boot_memory s) (\<lambda>_. boot_threads) = Done () t \<and> heap_ok t [(False, 0xEFF0)] \<and> first t = heap_page k \<and>
    threads_ok t [main_thread s, heap_page k + 16] \<and> running_thread t = main_thread s \<and>
    phys t (heap_page (k + 15)) = None \<and> (\<forall>i. i div 32 = (k + 15) div 32 \<longrightarrow> \<not> frame_used t i) \<and>
    bh_flags (mem t) (heap_page k + 16) = ucast (c_eax (regs_in_test s)) \<and> bh_dirty (mem t) (heap_page k + 16) = ucast (c_ecx (regs_in_test s)) \<and>
    bh_count (mem t) (heap_page k + 16) = c_edx (regs_in_test s)"
proof -
  obtain u where u: "boot_memory s = Done () u" "threads_room 0xEFF0 (k + 15) (k + 15) u" "first u = heap_page k" "main_thread u = main_thread s"
    "regs_in_test u = regs_in_test s"
    using memory_threads_room [OF assms] by blast
  show ?thesis
    using boot_threads_result [OF u(2)] buffer_of_regs [of _ "heap_page k + 16"] unfolding u(3-5)
    by (fastforce simp: u(1) heap_page_def)
qed

text \<open>The kernel of \<open>sample_boot\<close> with its main thread at \<^verbatim>\<open>0xC0107000\<close>.\<close>

theorem boot_thread_freed_but_scheduled_witness:
  "\<exists>t. obind (boot_memory (sample_boot\<lparr>main_thread := 0xC0107000\<rparr>)) (\<lambda>_. boot_threads) = Done () t \<and>
     threads_ok t [0xC0107000, 0xC0113010] \<and> heap_ok t [(False, 0xEFF0)] \<and> \<not> frame_used t 0x121 \<and>
     bh_count (mem t) 0xC0113010 = c_edx (regs_in_test sample_boot)"
proof -
  let ?s = "sample_boot\<lparr>main_thread := 0xC0107000\<rparr>"
  have b: "kernel_page_dir ?s = 0xC0101000" "first_page_table ?s = 0xC0102000" "memupper_size ?s = 4096"
    by (simp_all add: sample_boot_def ext2.extend_def boot.fields_def)
  have "bytes (0xC0101000 :: u32) 4096 \<inter> bytes 0xC0107000 52 = {}" "bytes (0xC0102000 :: u32) 4096 \<inter> bytes 0xC0107000 52 = {}"
    by (intro bytes_apart; simp)+
  then have "main_thread_placed 0x113 ?s"
    using b by (simp add: main_thread_placed_def heap_page_def KERNEL_VIRTUAL_BASE_def Int_commute)
  moreover have "memory_room 0x113 ?s"
    using sample_boot_room by (simp add: memory_room_def frame_used_def tables_ok_def)
  ultimately show ?thesis
    using boot_thread_freed_but_scheduled [of "0x113" ?s] b by (auto simp: heap_page_def KERNEL_VIRTUAL_BASE_def)
qed

end
