(* ===== verification/Pci.thy ===== *)
theory Pci
  imports Terminal
begin

unbundle bit_operations_syntax

text \<open>
  PCI configuration space, \<^verbatim>\<open>src/drivers/pci.c\<close>: an address is written to port 0xCF8 and the
  addressed 32-bit register is read from port 0xCFC.
\<close>

record pci_dev =
  port_base :: u32
  interrupt :: u32
  bus :: u16
  dev :: u16
  func :: u16
  vendor_id :: u16
  dev_id :: u16
  class_id :: u8
  subclass_id :: u8
  interface_id :: u8
  revision :: u8

section \<open>Configuration reads\<close>

text \<open>The address expression, the same in the three readers.\<close>

definition pci_address :: "u8 \<Rightarrow> u8 \<Rightarrow> u8 \<Rightarrow> u8 \<Rightarrow> u32" where
  "pci_address lbus ldevice lfunc offset =
     push_bit 16 (ucast lbus) OR push_bit 11 (ucast ldevice) OR push_bit 8 (ucast lfunc) OR
     (ucast offset AND 0xFC) OR 0x80000000"

definition pci_config_read_double ::
    "u8 \<Rightarrow> u8 \<Rightarrow> u8 \<Rightarrow> u8 \<Rightarrow> 'a machine_scheme \<Rightarrow> u32 \<times> 'a machine_scheme" where
  "pci_config_read_double b d f offset s =
     (let s = outl 0xCF8 (pci_address b d f offset) s;
          (v, s) = inl 0xCFC s;
          tmp = (ucast (drop_bit (unat ((offset AND 2) * 8)) v AND 0xFFFF) :: u16)
      in (ucast tmp, s))"

definition pci_config_read_word ::
    "u8 \<Rightarrow> u8 \<Rightarrow> u8 \<Rightarrow> u8 \<Rightarrow> 'a machine_scheme \<Rightarrow> u16 \<times> 'a machine_scheme" where
  "pci_config_read_word b d f offset s =
     (let s = outl 0xCF8 (pci_address b d f offset) s;
          (v, s) = inl 0xCFC s
      in (ucast (drop_bit (unat ((offset AND 2) * 8)) v AND 0xFFFF), s))"

definition pci_config_read_byte ::
    "u8 \<Rightarrow> u8 \<Rightarrow> u8 \<Rightarrow> u8 \<Rightarrow> 'a machine_scheme \<Rightarrow> u8 \<times> 'a machine_scheme" where
  "pci_config_read_byte b d f offset s =
     (let s = outl 0xCF8 (pci_address b d f offset) s;
          (v, s) = inl 0xCFC s;
          tmp = (ucast (ucast (drop_bit (unat ((offset AND 2) * 8)) v AND 0xFFFF) :: u8) :: u16)
      in (ucast tmp, s))"

definition pci_get_vendor :: "u8 \<Rightarrow> u8 \<Rightarrow> 'a machine_scheme \<Rightarrow> u16 \<times> 'a machine_scheme" where
  "pci_get_vendor b slot = pci_config_read_word b slot 0 0"

definition pci_get_device :: "u8 \<Rightarrow> u8 \<Rightarrow> 'a machine_scheme \<Rightarrow> u16 \<times> 'a machine_scheme" where
  "pci_get_device b slot = pci_config_read_word b slot 0 2"

definition pci_get_status :: "u8 \<Rightarrow> u8 \<Rightarrow> 'a machine_scheme \<Rightarrow> u16 \<times> 'a machine_scheme" where
  "pci_get_status b slot = pci_config_read_word b slot 0 4"

definition pci_get_command :: "u8 \<Rightarrow> u8 \<Rightarrow> 'a machine_scheme \<Rightarrow> u16 \<times> 'a machine_scheme" where
  "pci_get_command b slot = pci_config_read_word b slot 0 6"

definition pci_get_bar :: "u8 \<Rightarrow> u8 \<Rightarrow> u8 \<Rightarrow> 'a machine_scheme \<Rightarrow> u32 \<times> 'a machine_scheme" where
  "pci_get_bar b slot bar s = (let (v, s) = pci_config_read_word b slot 0 bar s in (ucast v, s))"

text \<open>\<open>result\<close> is the uninitialised local variable; its \<^verbatim>\<open>port_base\<close> is returned as it was.\<close>

definition fill_device_descriptor ::
    "pci_dev \<Rightarrow> u8 \<Rightarrow> u8 \<Rightarrow> u8 \<Rightarrow> 'a machine_scheme \<Rightarrow> pci_dev \<times> 'a machine_scheme" where
  "fill_device_descriptor result b d f s =
     (let result = result\<lparr>bus := ucast b, dev := ucast d, func := ucast f\<rparr>;
          (v, s) = pci_config_read_word b d f 0x00 s; result = result\<lparr>vendor_id := v\<rparr>;
          (v, s) = pci_config_read_word b d f 0x02 s; result = result\<lparr>dev_id := v\<rparr>;
          (c, s) = pci_config_read_byte b d f 0x0B s; result = result\<lparr>class_id := c\<rparr>;
          (c, s) = pci_config_read_byte b d f 0x0A s; result = result\<lparr>subclass_id := c\<rparr>;
          (c, s) = pci_config_read_byte b d f 0x09 s; result = result\<lparr>interface_id := c\<rparr>;
          (c, s) = pci_config_read_byte b d f 0x08 s; result = result\<lparr>revision := c\<rparr>;
          (i, s) = pci_config_read_double b d f 0x3C s; result = result\<lparr>interrupt := i\<rparr>
      in (result, s))"

section \<open>Addresses\<close>

lemma byte_offset: "(ucast (o8 :: u8) :: u32) AND 0xFC = ucast (o8 AND 0xFC)"
  by (simp add: unsigned_and_eq)

lemma bit_small:
  assumes "unat (w :: u8) < 2 ^ k" and "bit w n"
  shows "n < k"
proof -
  have "unat w div 2 ^ n \<noteq> 0" using assms(2) by (auto simp: bit_word_odd intro: ccontr)
  then have "2 ^ n \<le> unat w" by (metis div_less not_le)
  then have "(2::nat) ^ n < 2 ^ k" using assms(1) by (rule le_less_trans)
  then show ?thesis by (rule power_less_imp_less_exp [rotated]) simp
qed

lemma enable_bit: "bit (0x80000000 :: u32) n \<longleftrightarrow> n = 31"
proof -
  have "(0x80000000 :: u32) = 2 ^ 31" by simp
  then show ?thesis by (simp only: bit_exp_iff possible_bit_def) auto
qed

lemma pci_address_bits:
  assumes "n < 32"
  shows "bit (pci_address b d f offset) n \<longleftrightarrow>
    16 \<le> n \<and> bit b (n - 16) \<or> 11 \<le> n \<and> bit d (n - 11) \<or> 8 \<le> n \<and> bit f (n - 8) \<or>
    bit (offset AND 0xFC) n \<or> n = 31"
  using assms unfolding pci_address_def byte_offset
  by (simp only: bit_or_iff enable_bit bit_push_bit_iff bit_ucast_iff possible_bit_def) auto

text \<open>For a device number below 32 and a function number below 8 the configuration address holds
  the bus, the device, the function and the dword-aligned register offset in their fields, with the
  enable bit set: distinct registers get distinct addresses.\<close>

theorem pci_address_fields:
  assumes "d < 32" and "f < 8"
  shows "take_bit 8 (drop_bit 16 (pci_address b d f offset)) = ucast b \<and>
    take_bit 5 (drop_bit 11 (pci_address b d f offset)) = ucast d \<and>
    take_bit 3 (drop_bit 8 (pci_address b d f offset)) = ucast f \<and>
    take_bit 8 (pci_address b d f offset) = ucast (offset AND 0xFC) \<and> bit (pci_address b d f offset) 31"
proof -
  have lim: "bit d n \<Longrightarrow> n < 5" "bit f n \<Longrightarrow> n < 3" "bit b n \<Longrightarrow> n < 8" "bit (offset AND 0xFC) n \<Longrightarrow> n < 8" for n
    using bit_small [of d 5 n] bit_small [of f 3 n] assms bit_imp_le_length [of b n]
      bit_imp_le_length [of "offset AND 0xFC" n]
    by (simp_all add: word_less_nat_alt)
  have at: "bit (take_bit k (drop_bit j (pci_address b d f offset))) n \<longleftrightarrow> n < k \<and> (16 \<le> j + n \<and> bit b (j + n - 16) \<or>
      11 \<le> j + n \<and> bit d (j + n - 11) \<or> 8 \<le> j + n \<and> bit f (j + n - 8) \<or> bit (offset AND 0xFC) (j + n) \<or> j + n = 31)"
    if "j + k \<le> 32" for j k n
    using pci_address_bits [of "j + n" b d f offset] that by (auto simp: bit_take_bit_iff bit_drop_bit_eq)
  have "take_bit 8 (drop_bit 16 (pci_address b d f offset)) = ucast b"
    by (rule bit_word_eqI, subst at) (auto simp: bit_ucast_iff dest: lim)
  moreover have "take_bit 5 (drop_bit 11 (pci_address b d f offset)) = ucast d"
    by (rule bit_word_eqI, subst at) (auto simp: bit_ucast_iff dest: lim)
  moreover have "take_bit 3 (drop_bit 8 (pci_address b d f offset)) = ucast f"
    by (rule bit_word_eqI, subst at) (auto simp: bit_ucast_iff dest: lim)
  moreover have "take_bit 8 (drop_bit 0 (pci_address b d f offset)) = ucast (offset AND 0xFC)"
    by (rule bit_word_eqI, subst at) (auto simp: bit_ucast_iff dest: lim)
  moreover have "bit (pci_address b d f offset) 31" by (simp add: pci_address_bits)
  ultimately show ?thesis by simp
qed

theorem pci_address_fields_witness:
  "take_bit 8 (drop_bit 16 (pci_address 1 31 7 0x3C)) = ucast (1 :: u8) \<and> bit (pci_address 1 31 7 0x3C) 31"
  using pci_address_fields [of 31 7 1 "0x3C"] by simp

section \<open>Device descriptors\<close>

text \<open>The documented behaviour of the host bridge: the data port shows the addressed register.\<close>

definition pci_bridge :: "(u32 \<Rightarrow> u32) \<Rightarrow> 'a machine_scheme \<Rightarrow> bool" where
  "pci_bridge conf s \<longleftrightarrow> (\<forall>log a. hw s (Out32 0xCF8 a # log) 0xCFC = conf a)"

text \<open>The class code of every device is read wrongly: byte reads at odd offsets return the byte
  before, so the descriptor's class is its subclass and its interface is its revision (bytes 0x0A
  and 0x08 of configuration space, the low bytes of the halves of register 0x08). The vendor and
  device identifiers are the two halves of register 0x00, and the interrupt field gets only 16 bits
  of register 0x3C.\<close>

theorem pci_class_is_subclass:
  assumes "pci_bridge conf s"
  shows "let r = fst (fill_device_descriptor result b d f s)
    in vendor_id r = ucast (conf (pci_address b d f 0)) \<and>
       dev_id r = ucast (drop_bit 16 (conf (pci_address b d f 0))) \<and>
       subclass_id r = ucast (drop_bit 16 (conf (pci_address b d f 8))) \<and> class_id r = subclass_id r \<and>
       revision r = ucast (conf (pci_address b d f 8)) \<and> interface_id r = revision r \<and>
       interrupt r = take_bit 16 (conf (pci_address b d f 0x3C))"
proof -
  have br: "hw s (Out32 0xCF8 a # log) 0xCFC = conf a" for a log using assms by (simp add: pci_bridge_def)
  have addr: "pci_address b d f 2 = pci_address b d f 0" "pci_address b d f 0x0B = pci_address b d f 8"
    "pci_address b d f 0x0A = pci_address b d f 8" "pci_address b d f 9 = pci_address b d f 8"
    by (simp_all add: pci_address_def)
  have low: "(ucast (w AND 0xFFFF) :: u16) = ucast w" "(ucast (w AND 0xFFFF) :: u8) = ucast w"
    "(ucast (ucast w :: u16) :: u32) = take_bit 16 w" for w :: u32
    unfolding low_half by (rule bit_word_eqI; auto simp: bit_simps)+
  show ?thesis
    by (simp add: fill_device_descriptor_def pci_config_read_word_def pci_config_read_byte_def
        pci_config_read_double_def outl_def inl_def Let_def br addr low)
qed

theorem pci_class_is_subclass_witness:
  "\<exists>s :: machine. pci_bridge (\<lambda>_. 0x01060185) s \<and>
     class_id (fst (fill_device_descriptor (pci_dev.make 0 0 0 0 0 0 0 0 0 0 0) 0 1 0 s)) = 0x06"
proof -
  define s :: machine where "s = \<lparr>mem = \<lambda>_. 0, hw = \<lambda>_ _. 0x01060185, io_log = [], iflag = True\<rparr>"
  have s: "pci_bridge (\<lambda>_. 0x01060185) s" by (simp add: pci_bridge_def s_def)
  then show ?thesis using pci_class_is_subclass [OF s] by (auto simp: Let_def)
qed

end
