(* ===== verification/Spec2Isabelle.thy ===== *)
theory Spec2Isabelle
  imports Layout Boot_Threads Pci
begin

text \<open>
  SaxonOS, a small i686 kernel written in C, modelled and verified. Paths below are relative to
  \<^verbatim>\<open>src/\<close> of the repository.

  \<^bold>\<open>The program.\<close> \<^verbatim>\<open>kernel_main\<close> (\<^verbatim>\<open>src/kernel.c\<close>) initialises the console, the descriptor tables and the
  interrupt routines of keyboard, timer, clock and system calls; reserves the frames of the kernel, maps it and
  allocates fifteen pages for the heap; runs a first kernel thread; probes the disk, reads its
  partition table and sets up the buffer cache; mounts an ext2 file system on it and reads a file.

  \<^bold>\<open>The model.\<close> Every component is a set of HOL functions on an explicit state, a record that each
  theory extends by the static variables of its component, in the order in which the components build on each other:
  \<open>machine\<close> (memory, port history, hardware), console, frames, paging, heap, interrupts, devices,
  tasking, cache, vfs, devfs, ext2, boot. C structs that the code reaches through pointers live in byte
  memory at the offsets the compiler gives them, so aliasing, overlap and overruns among them are those of the program. Scalar static variables, arrays
  that are only indexed (as functions) and block devices (records in a store indexed by address, \<open>bdevs\<close>) are fields of the state outside byte memory: a stray store
  to their addresses is not modelled, and theorems exclude it where the program could make one (a time call with a pointer, in \<^verbatim>\<open>Boot\<close>). Machine integers are words. A routine that can fail returns an \<open>outcome\<close>: \<open>Done\<close> a result and a
  state, \<open>Panicked\<close> (a call of \<^verbatim>\<open>kpanic\<close>), \<open>Faulted\<close> (division by zero, null pointer, index past an array that is a
  function; an index past an array in byte memory reads or writes what lies there) or \<open>Diverged\<close> (it never returns). Loops are structural or well-founded recursion
  where they end, and \<^theory_text>\<open>partial_function (option)\<close> where they may not (polling a device, following a list), so no
  fuel is chosen anywhere: \<open>None\<close> is exactly the endless run. The hardware is the
  parameter \<open>hw\<close>, an arbitrary function of the port history; theorems that need a well-behaved device say so
  in their hypotheses (\<open>drive_settles\<close>, \<open>cmos_clock\<close>, \<open>pci_bridge\<close>).

  \<^bold>\<open>Theories.\<close>
  \<^item> \<^verbatim>\<open>Prelude\<close>: words, outcomes, \<open>repeat_alloc\<close>, \<open>run_calls\<close>; the locales \<open>entry_table\<close> (arrays of records: what is read after
    a write) and \<open>guarded_calls\<close> (any sequence of guarded calls keeps an invariant).
  \<^item> \<^verbatim>\<open>Machine\<close>: memory accesses, ports (\<^verbatim>\<open>src/common.c\<close>), bounded polling.
  \<^item> \<^verbatim>\<open>Common\<close>: strings and memory blocks of \<^verbatim>\<open>src/common.c\<close>. \<^verbatim>\<open>strlen\<close> returns iff there is a
    zero byte; \<^verbatim>\<open>memcpy\<close> agrees with \<^verbatim>\<open>memmove\<close> unless the destination starts inside the source.
  \<^item> \<^verbatim>\<open>Terminal\<close>: the VGA console of \<^verbatim>\<open>src/kernel.c\<close> and \<^verbatim>\<open>kpanic\<close>. The cursor stays on the screen.
  \<^item> \<^verbatim>\<open>Frame\<close>: the frame bitmap, \<^verbatim>\<open>src/mm/frame.c\<close>. Allocated frames are fresh and distinct (locale \<open>frame_provider\<close>, interpreted on
    \<^verbatim>\<open>kalloc_frame\<close>); first fit; what \<^verbatim>\<open>kfree_frame\<close> really frees.
  \<^item> \<^verbatim>\<open>Paging\<close>: \<^verbatim>\<open>src/mm/paging.c\<close>, page tables in memory, and the translation \<open>phys\<close> they denote.
  \<^item> \<^verbatim>\<open>Heap\<close>: \<^verbatim>\<open>src/mm/heap.c\<close>. The block list in memory refines an abstract list of blocks: \<^verbatim>\<open>kmalloc\<close> is
    first fit, \<^verbatim>\<open>kfree\<close> coalesces (functional refinement); clients are isolated from each other (locale \<open>storage\<close>, interpreted on \<^verbatim>\<open>kmalloc\<close>
    and \<^verbatim>\<open>kfree\<close>); allocating and freeing restores the heap; calls write only the bytes the heap owns.
  \<^item> \<^verbatim>\<open>Interrupts\<close>: \<^verbatim>\<open>src/gdt.c\<close>, \<^verbatim>\<open>src/tss.c\<close>, \<^verbatim>\<open>src/idt.c\<close>, \<^verbatim>\<open>src/irq.c\<close>: tables as the processor reads them, with the overrun of the three-entry \<^verbatim>\<open>gdt\<close>; dispatch and acknowledgement.
  \<^item> \<^verbatim>\<open>Devices\<close>: timer, keyboard and real-time clock (\<^verbatim>\<open>src/drivers/timer.c, keyboard.c, rtc.c\<close>).
  \<^item> \<^verbatim>\<open>Syscall\<close>: \<^verbatim>\<open>src/userspace\<close>: the dispatch table, the calls and the user stubs.
  \<^item> \<^verbatim>\<open>Events\<close>: runs of interrupts as an inductive relation over \<^verbatim>\<open>irq_handler\<close> with the installed routines; by rule induction
    the timer counts, every hardware interrupt is acknowledged once and nothing but the devices' own state changes.
  \<^item> \<^verbatim>\<open>Task\<close>: \<^verbatim>\<open>src/task.c\<close> and \<^verbatim>\<open>src/switch.s\<close>: round-robin switching keeps every thread's context.
  \<^item> \<^verbatim>\<open>Pci\<close>: configuration space reads, \<^verbatim>\<open>src/drivers/pci.c\<close>.
  \<^item> \<^verbatim>\<open>Ata\<close>: the disk driver \<^verbatim>\<open>src/drivers/ata.c\<close> and \<^verbatim>\<open>src/fs/mbr.c\<close>: what crosses the ports in a transfer and what memory
    holds after it; a read ends on a drive that clears its busy bit after finitely many status reads.
  \<^item> \<^verbatim>\<open>Buffer\<close>: the buffer cache \<^verbatim>\<open>src/fs/devfs/buffer.c\<close> with the device list. Its invariant (all links stay in the pool of
    disjoint buffers) is kept by every call (\<open>guarded_calls\<close>); a miss loads the sector, a hit touches no
    port; \<^verbatim>\<open>init_buffer\<close> builds the pool; the hash chain can become cyclic.
  \<^item> \<^verbatim>\<open>Vfs\<close>: \<^verbatim>\<open>src/fs/vfs/vfs.c\<close>: the list of file systems, mounting the root.
  \<^item> \<^verbatim>\<open>Devfs\<close>: \<^verbatim>\<open>src/fs/devfs/devfs.c\<close>: block device reads and writes through the cache; what is written is read back.
  \<^item> \<^verbatim>\<open>Ext2\<close>: \<^verbatim>\<open>src/fs/ext2/ext2.c\<close>: superblock, inodes, file reads and writes, directory lookup. The
    superblock establishes the geometry by which inodes are located, at the place the disk format gives them; inodes are copied within their buffer; the
    directory scan and its blind spot; a read loop that does not end.
  \<^item> \<^verbatim>\<open>Ext2_Files\<close>: the data of files: the copying loops are \<^verbatim>\<open>memcpy\<close>; what a write inside one sector stores,
    a later read delivers from the cache.
  \<^item> \<^verbatim>\<open>Ext2_Calls\<close>: whole calls of \<^verbatim>\<open>ext2_read\<close> and \<^verbatim>\<open>ext2_write\<close> over the heap and the cache: whatever the disk holds, a call that
    returns keeps the cache's invariant and writes only to the pool, the heap's own bytes, the file position and, when reading, the caller's
    buffer; unless it returns -1 it gives its allocation back (writes: those that do not run past their first sector from an offset in it). The loops over sectors share the locale \<open>sector_loop\<close>, interpreted on both.
  \<^item> \<^verbatim>\<open>Ext2_Cached\<close>: the same calls on a file whose inode and sector are cached: they complete without a disk access, and a
    write followed by a read of the same range delivers the bytes written. A refused call leaks its allocation; a write at an
    offset in the sector reaches past the buffer.
  \<^item> \<^verbatim>\<open>Boot\<close>: \<^verbatim>\<open>kernel_main\<close>, composed of all of the above in its stages; the interrupt stage and the memory stage end in the
    states the later stages need, and the interrupts that follow keep the kernel's state.
  \<^item> \<^verbatim>\<open>Boot_Threads\<close>: the thread stage after the memory stage: heap, paging and threads composed. It completes and gives the heap
    back, but leaves the freed thread scheduled and the frames around its stack marked free.
  \<^item> \<^verbatim>\<open>Layout\<close>: the structure declarations of \<^verbatim>\<open>include/\<close> as data with the layout rules of the ABI. Members are in order and apart, and
    the offset in every member accessor of the other theories is the one the declaration gives.

  \<^bold>\<open>Not modelled.\<close> The assembly that runs before \<^verbatim>\<open>kernel_main\<close>, the interrupt entry stubs and the jump to user mode
  (\<^verbatim>\<open>boot.asm\<close>, \<^verbatim>\<open>asm/idt.asm\<close>, \<^verbatim>\<open>enable_paging.asm\<close> beyond the register it loads): their symbols are fields of the state. The linker script; files that are
  never compiled (\<^verbatim>\<open>userspace/tss.c\<close>, \<^verbatim>\<open>include/sched.h\<close>, \<^verbatim>\<open>include/fs/ata.h\<close>). Translation of the addresses the
  kernel itself uses: memory is addressed virtually, and page tables are data in it. Interrupts in the middle of a routine: \<open>Events\<close> has them between routines only. The stack, except
  for automatic variables whose address is taken. String literals have addresses (\<open>literal\<close>) where their address matters.
\<close>

end
